(* ===== verification/Go_Prelude.thy ===== *)
theory Go_Prelude
  imports
    Main
    "HOL-Library.Word"
    "HOL-Library.AList"
    "HOL-Library.Multiset"
    "HOL-Library.Sublist"
    "HOL-Library.Monad_Syntax"
begin

text \<open>
  Shared material of the development: what the components use of the Go language and of its
  standard library (\<^verbatim>\<open>strings\<close>, \<^verbatim>\<open>fmt\<close>, maps, fixed-width integers, panics), the interface of
  a Go map as a locale, and the interface of an add-if-absent register, which the collections
  of the program (users, passwords, hosts, payloads, sync nodes, sync clients) share.

  A Go string is a list of bytes (\<^typ>\<open>string\<close>). A Go map is an association list with distinct
  keys; the order in which \<^verbatim>\<open>range\<close> visits it is not determined by the language, so an operation
  that ranges over a map takes the visiting order as an argument, constrained by
  \<open>map_order\<close>. A panic is a value of \<open>go_panic\<close>, the left part of a sum.
\<close>

named_theorems gostr "facts on Go strings"
named_theorems gomap_simps "rewrite rules for Go maps"

section \<open>Panics and results\<close>

datatype go_panic =
    NilDeref
  | IndexOutOfRange
  | SliceBounds
  | CloseOfClosedChannel
  | SendOnClosedChannel
  | LockFailure
  | PanicValue string

definition bind_res :: "'e + 'a \<Rightarrow> ('a \<Rightarrow> 'e + 'b) \<Rightarrow> 'e + 'b" where
  "bind_res r f = (case r of Inl e \<Rightarrow> Inl e | Inr x \<Rightarrow> f x)"

lemma bind_res_simps [simp]:
  "bind_res (Inl e) f = Inl e"
  "bind_res (Inr x) f = f x"
  by (simp_all add: bind_res_def)

lemma bind_res_Inr_iff:
  "bind_res r f = Inr y \<longleftrightarrow> (\<exists>x. r = Inr x \<and> f x = Inr y)"
  by (cases r) simp_all

lemma bind_res_Inl_iff:
  "bind_res r f = Inl e \<longleftrightarrow> r = Inl e \<or> (\<exists>x. r = Inr x \<and> f x = Inl e)"
  by (cases r) simp_all

lemma bind_res_cong [fundef_cong]:
  assumes "r = r'" and "\<And>x. r' = Inr x \<Longrightarrow> f x = g x"
  shows "bind_res r f = bind_res r' g"
  using assms by (cases r') simp_all

lemma nth_upd: "xs[a := v] ! b = (if b = a \<and> a < length xs then v else xs ! b)"
  by (cases "a < length xs") (auto simp: nth_list_update list_update_beyond)

section \<open>Integers\<close>

text \<open>\<^verbatim>\<open>uint\<close> is a 64-bit word. \<^verbatim>\<open>int\<close> is 64-bit two's complement: a counter is a word that is read by
  \<open>sint\<close>; other values are an \<^typ>\<open>int\<close>, with the wrap-around explicit where it can matter.\<close>

type_synonym uint64 = "64 word"
type_synonym goint = "64 word"

definition wrap64 :: "int \<Rightarrow> int" where
  "wrap64 x = (x + 2 ^ 63) mod 2 ^ 64 - 2 ^ 63"

lemma wrap64_id: "- (2 ^ 63) \<le> x \<Longrightarrow> x < 2 ^ 63 \<Longrightarrow> wrap64 x = x"
  by (simp add: wrap64_def)

lemma wrap64_range: "- (2 ^ 63) \<le> wrap64 x \<and> wrap64 x < 2 ^ 63"
proof -
  have "0 \<le> (x + 2 ^ 63) mod 2 ^ 64" and "(x + 2 ^ 63) mod 2 ^ 64 < 2 ^ 64"
    by simp_all
  then show ?thesis by (simp add: wrap64_def)
qed

lemma sint_of_int: "sint (of_int b :: goint) = wrap64 b"
  by (simp add: wrap64_def sint_sbintrunc' signed_take_bit_eq_take_bit_shift take_bit_eq_mod)

text \<open>A length, as the \<^verbatim>\<open>int\<close> that \<^verbatim>\<open>len\<close> returns.\<close>

definition go_len :: "nat \<Rightarrow> int" where
  "go_len n = sint (of_nat n :: goint)"

lemma go_len_id: "n < 2 ^ 63 \<Longrightarrow> go_len n = int n"
  using sint_of_int [of "int n"] wrap64_id [of "int n"] by (simp add: go_len_def)

text \<open>Go's integer division truncates towards zero.\<close>

definition trunc_div :: "int \<Rightarrow> int \<Rightarrow> int" where
  "trunc_div n d =
     (let q = \<bar>n\<bar> div \<bar>d\<bar> in if n < 0 \<longleftrightarrow> d < 0 then q else - q)"

lemma trunc_div_nonneg: "0 \<le> a \<Longrightarrow> 0 < b \<Longrightarrow> trunc_div a b = a div b"
  by (simp add: trunc_div_def)

section \<open>Strings\<close>

definition newline :: char where
  "newline = CHR 0x0A"

definition HasPrefix :: "string \<Rightarrow> string \<Rightarrow> bool" where
  "HasPrefix s p = prefix p s"

definition TrimPrefix :: "string \<Rightarrow> string \<Rightarrow> string" where
  "TrimPrefix s p = (if HasPrefix s p then drop (length p) s else s)"

definition Contains :: "string \<Rightarrow> string \<Rightarrow> bool" where
  "Contains s t = sublist t s"

text \<open>\<^verbatim>\<open>strings.Split\<close> with a one-byte separator, and \<^verbatim>\<open>strings.Join\<close>.\<close>

fun Split :: "char \<Rightarrow> string \<Rightarrow> string list" where
  "Split c [] = [[]]"
| "Split c (x # xs) =
     (if x = c then [] # Split c xs
      else (x # hd (Split c xs)) # tl (Split c xs))"

fun Join :: "string \<Rightarrow> string list \<Rightarrow> string" where
  "Join sep [] = []"
| "Join sep [x] = x"
| "Join sep (x # y # ys) = x @ sep @ Join sep (y # ys)"

lemma Split_nonempty [simp]: "Split c s \<noteq> []"
  by (cases s) auto

lemma length_Split_pos [simp]: "0 < length (Split c s)"
  by simp

text \<open>Evaluation without computing the recursive call twice.\<close>

lemma Split_code [code]:
  "Split c [] = [[]]"
  "Split c (x # xs) =
     (case Split c xs of [] \<Rightarrow> [] | y # ys \<Rightarrow> if x = c then [] # y # ys else (x # y) # ys)"
  using Split_nonempty [of c xs] by (auto split: list.split simp del: Split_nonempty)

lemma Join_Cons: "xs \<noteq> [] \<Longrightarrow> Join sep (x # xs) = x @ sep @ Join sep xs"
  by (cases xs) simp_all

lemma Join_Split [gostr]: "Join [c] (Split c s) = s"
proof (induction s)
  case Nil
  show ?case by simp
next
  case (Cons x xs)
  obtain y ys where yy: "Split c xs = y # ys"
    by (cases "Split c xs") auto
  with Cons show ?case
    by (cases ys) auto
qed

lemma Split_no_sep [gostr]: "c \<notin> set s \<Longrightarrow> Split c s = [s]"
  by (induction s) auto

lemma Split_append [gostr]:
  "c \<notin> set w \<Longrightarrow> Split c (w @ c # rest) = w # Split c rest"
  by (induction w) auto

lemma Split_Join [gostr]:
  assumes "xs \<noteq> []" and "\<forall>x \<in> set xs. c \<notin> set x"
  shows "Split c (Join [c] xs) = xs"
  using assms
proof (induction xs)
  case Nil
  then show ?case by simp
next
  case (Cons x xs)
  show ?case
  proof (cases "xs = []")
    case True
    with Cons.prems show ?thesis by (simp add: Split_no_sep)
  next
    case False
    with Cons show ?thesis by (simp add: Join_Cons Split_append)
  qed
qed

lemma Split_parts_no_sep [gostr]: "x \<in> set (Split c s) \<Longrightarrow> c \<notin> set x"
proof (induction s arbitrary: x)
  case Nil
  then show ?case by simp
next
  case (Cons y ys)
  obtain z zs where zz: "Split c ys = z # zs"
    by (cases "Split c ys") auto
  with Cons show ?case by (auto split: if_splits)
qed

lemma hd_Split: "hd (Split c s) = takeWhile (\<lambda>x. x \<noteq> c) s"
  by (induction s) auto

lemma set_Join: "set (Join sep xs) \<subseteq> set sep \<union> (\<Union>x \<in> set xs. set x)"
  by (induction sep xs rule: Join.induct) auto

subsection \<open>Trimming\<close>

text \<open>
  \<^verbatim>\<open>strings.TrimSpace\<close> removes leading and trailing runes with \<^verbatim>\<open>unicode.IsSpace\<close>. On the
  bytes of a string these runes are the UTF-8 sequences of \<open>space_runes\<close>; stripping such a
  sequence from the front, or its reverse from the back, is what decoding the first or the
  last rune does. \<^verbatim>\<open>strings.Trim\<close> with an ASCII cut set is the same with one-byte sequences.
\<close>

definition space_runes :: "string list" where
  "space_runes =
     [[CHR 0x20], [CHR 0x09], [CHR 0x0A], [CHR 0x0B], [CHR 0x0C], [CHR 0x0D],
      [CHR 0xC2, CHR 0x85], [CHR 0xC2, CHR 0xA0], [CHR 0xE1, CHR 0x9A, CHR 0x80],
      [CHR 0xE2, CHR 0x80, CHR 0x80], [CHR 0xE2, CHR 0x80, CHR 0x81],
      [CHR 0xE2, CHR 0x80, CHR 0x82], [CHR 0xE2, CHR 0x80, CHR 0x83],
      [CHR 0xE2, CHR 0x80, CHR 0x84], [CHR 0xE2, CHR 0x80, CHR 0x85],
      [CHR 0xE2, CHR 0x80, CHR 0x86], [CHR 0xE2, CHR 0x80, CHR 0x87],
      [CHR 0xE2, CHR 0x80, CHR 0x88], [CHR 0xE2, CHR 0x80, CHR 0x89],
      [CHR 0xE2, CHR 0x80, CHR 0x8A], [CHR 0xE2, CHR 0x80, CHR 0xA8],
      [CHR 0xE2, CHR 0x80, CHR 0xA9], [CHR 0xE2, CHR 0x80, CHR 0xAF],
      [CHR 0xE2, CHR 0x81, CHR 0x9F], [CHR 0xE3, CHR 0x80, CHR 0x80]]"

fun strip_one :: "string list \<Rightarrow> string \<Rightarrow> string option" where
  "strip_one [] s = None"
| "strip_one (w # ws) s =
     (if w \<noteq> [] \<and> prefix w s then Some (drop (length w) s) else strip_one ws s)"

lemma strip_one_length: "strip_one ws s = Some t \<Longrightarrow> length t < length s"
  by (induction ws) (auto split: if_splits simp: prefix_def)

function strip_all :: "string list \<Rightarrow> string \<Rightarrow> string" where
  "strip_all ws s = (case strip_one ws s of None \<Rightarrow> s | Some t \<Rightarrow> strip_all ws t)"
  by pat_completeness auto
termination
  by (relation "measure (\<lambda>(ws, s). length s)") (auto dest: strip_one_length)

declare strip_all.simps [simp del]

definition TrimSpace :: "string \<Rightarrow> string" where
  "TrimSpace s = rev (strip_all (map rev space_runes) (rev (strip_all space_runes s)))"

definition Trim :: "string \<Rightarrow> string \<Rightarrow> string" where
  "Trim s cutset =
     (let ws = map (\<lambda>c. [c]) cutset in rev (strip_all ws (rev (strip_all ws s))))"

lemma strip_one_None_iff:
  "strip_one ws s = None \<longleftrightarrow> (\<forall>w \<in> set ws. w \<noteq> [] \<longrightarrow> \<not> prefix w s)"
  by (induction ws) auto

lemma strip_one_suffix: "strip_one ws s = Some t \<Longrightarrow> suffix t s"
  by (induction ws) (auto split: if_splits simp: suffix_drop)

lemma strip_all_suffix: "suffix (strip_all ws s) s"
proof (induction ws s rule: strip_all.induct)
  case (1 ws s)
  then show ?case
    by (subst strip_all.simps)
      (auto split: option.splits dest: strip_one_suffix intro: suffix_order.trans)
qed

lemma strip_all_None: "strip_one ws (strip_all ws s) = None"
proof (induction ws s rule: strip_all.induct)
  case (1 ws s)
  then show ?case
    by (subst strip_all.simps) (auto split: option.splits)
qed

lemma strip_all_fix: "strip_one ws s = None \<Longrightarrow> strip_all ws s = s"
  by (subst strip_all.simps) simp

lemma strip_all_idem: "strip_all ws (strip_all ws s) = strip_all ws s"
  by (rule strip_all_fix) (rule strip_all_None)

lemma strip_one_None_prefix: "strip_one ws s = None \<Longrightarrow> prefix t s \<Longrightarrow> strip_one ws t = None"
  unfolding strip_one_None_iff by (meson prefix_order.trans)

lemma strip_both_idem:
  fixes us ws :: "string list" and s :: string
  defines "t \<equiv> rev (strip_all us (rev (strip_all ws s)))"
  shows "rev (strip_all us (rev (strip_all ws t))) = t"
proof -
  have "suffix (rev t) (rev (strip_all ws s))"
    unfolding t_def by (simp add: strip_all_suffix)
  then have "prefix t (strip_all ws s)"
    by (simp add: suffix_to_prefix)
  then have "strip_all ws t = t"
    by (meson strip_all_None strip_all_fix strip_one_None_prefix)
  moreover have "strip_all us (rev t) = rev t"
    unfolding t_def by (simp add: strip_all_idem)
  ultimately show ?thesis by simp
qed

lemma TrimSpace_idem [simp]: "TrimSpace (TrimSpace s) = TrimSpace s"
  unfolding TrimSpace_def by (rule strip_both_idem)

lemma Trim_idem [simp]: "Trim (Trim s cutset) cutset = Trim s cutset"
  unfolding Trim_def Let_def by (rule strip_both_idem)

lemma TrimSpace_Nil [simp]: "TrimSpace [] = []"
  by (simp add: TrimSpace_def strip_all_fix strip_one_None_iff)

lemma set_strip_all: "set (strip_all ws s) \<subseteq> set s"
  by (rule set_mono_suffix) (rule strip_all_suffix)

lemma set_TrimSpace: "set (TrimSpace s) \<subseteq> set s"
  using set_strip_all [of "map rev space_runes" "rev (strip_all space_runes s)"]
    set_strip_all [of space_runes s]
  by (auto simp: TrimSpace_def)

text \<open>A string with no byte of a space sequence at either end is its own trim.\<close>

definition space_bytes :: "char set" where
  "space_bytes = {c. (\<exists>w \<in> set space_runes. hd w = c \<or> last w = c)}"

lemma strip_one_None_first:
  assumes "\<forall>w \<in> set ws. w \<noteq> [] \<longrightarrow> s \<noteq> [] \<longrightarrow> hd w \<noteq> hd s"
  shows "strip_one ws s = None"
  unfolding strip_one_None_iff using assms
  by (metis hd_append2 prefixE append_is_Nil_conv prefix_bot.extremum_uniqueI)

lemma TrimSpace_fix:
  assumes "s \<noteq> [] \<Longrightarrow> hd s \<notin> space_bytes \<and> last s \<notin> space_bytes"
  shows "TrimSpace s = s"
proof -
  have "strip_one space_runes s = None"
    using assms by (intro strip_one_None_first) (auto simp: space_bytes_def)
  moreover have "strip_one (map rev space_runes) (rev s) = None"
    using assms by (intro strip_one_None_first)
      (auto simp: space_bytes_def hd_rev)
  ultimately show ?thesis by (simp add: TrimSpace_def strip_all_fix)
qed

subsection \<open>Decimal numbers (the verb d of \<^verbatim>\<open>fmt.Sprintf\<close>)\<close>

definition digit_char :: "nat \<Rightarrow> char" where
  "digit_char n = ''0123456789'' ! n"

fun nat_dec :: "nat \<Rightarrow> string" where
  "nat_dec n =
     (if n < 10 then [digit_char n] else nat_dec (n div 10) @ [digit_char (n mod 10)])"

declare nat_dec.simps [simp del]

definition int_dec :: "int \<Rightarrow> string" where
  "int_dec x = (if x < 0 then CHR ''-'' # nat_dec (nat (- x)) else nat_dec (nat x))"

definition host_port :: "string \<Rightarrow> int \<Rightarrow> string" where
  "host_port host port = host @ CHR '':'' # int_dec port"

definition dec_value :: "string \<Rightarrow> nat" where
  "dec_value s = foldl (\<lambda>a c. 10 * a + (of_char c - 48)) 0 s"

lemma of_char_digit: "n < 10 \<Longrightarrow> of_char (digit_char n) = (48 + n :: nat)"
proof -
  assume "n < 10"
  then have "n \<in> {0, 1, 2, 3, 4, 5, 6, 7, 8, 9}" by auto
  then show ?thesis by (elim insertE) (simp_all add: digit_char_def)
qed

lemma dec_value_snoc: "dec_value (s @ [c]) = 10 * dec_value s + (of_char c - 48)"
  by (simp add: dec_value_def)

lemma dec_value_nat_dec: "dec_value (nat_dec n) = n"
proof (induction n rule: nat_dec.induct)
  case (1 n)
  show ?case
  proof (cases "n < 10")
    case True
    then show ?thesis
      by (subst nat_dec.simps) (simp add: dec_value_def of_char_digit)
  next
    case False
    have "10 * (n div 10) + n mod 10 = n" by simp
    with False 1 show ?thesis
      by (subst nat_dec.simps) (simp add: dec_value_snoc of_char_digit)
  qed
qed

definition dec_digits :: "char set" where
  "dec_digits = set ''0123456789''"

lemma digit_char_range: "n < 10 \<Longrightarrow> digit_char n \<in> dec_digits"
  unfolding digit_char_def dec_digits_def by (rule nth_mem) simp

lemma nat_dec_digits: "set (nat_dec n) \<subseteq> dec_digits"
proof (induction n rule: nat_dec.induct)
  case (1 n)
  then show ?case
    using digit_char_range [of n] digit_char_range [of "n mod 10"]
    by (subst nat_dec.simps) auto
qed

lemma not_dec_digits: "CHR ''-'' \<notin> dec_digits" "CHR '':'' \<notin> dec_digits"
  "CHR '' '' \<notin> dec_digits"
  by (simp_all add: dec_digits_def)

lemma nat_dec_inj: "nat_dec m = nat_dec n \<Longrightarrow> m = n"
  by (metis dec_value_nat_dec)

lemma int_dec_chars: "set (int_dec x) \<subseteq> insert (CHR ''-'') dec_digits"
  using nat_dec_digits [of "nat x"] nat_dec_digits [of "nat (- x)"]
  by (auto simp: int_dec_def)

lemma int_dec_inj:
  assumes eq: "int_dec x = int_dec y"
  shows "x = y"
proof -
  have "nat_dec n \<noteq> CHR ''-'' # s" "CHR ''-'' # s \<noteq> nat_dec n" for n s
    using nat_dec_digits [of n] not_dec_digits(1) by (metis list.set_intros(1) subsetD)+
  with eq have "(x < 0) = (y < 0)" and "nat \<bar>x\<bar> = nat \<bar>y\<bar>"
    using nat_dec_inj by (auto simp: int_dec_def split: if_splits)
  then show ?thesis by (auto simp: nat_eq_iff split: if_splits)
qed

lemma last_field_unique:
  assumes "u @ c # v = u' @ c # v'" and "c \<notin> set v" and "c \<notin> set v'"
  shows "u = u' \<and> v = v'"
proof -
  have tw: "takeWhile (\<lambda>x. x \<noteq> c) (rev (a @ c # b)) = rev b" if "c \<notin> set b" for a b
    using that by (subst rev_append) (auto simp: takeWhile_tail takeWhile_eq_all_conv)
  have "rev v = rev v'"
    using tw [OF assms(2), of u] tw [OF assms(3), of u'] assms(1) by simp
  with assms(1) show ?thesis by simp
qed

lemma first_field_unique:
  assumes "u @ c # v = u' @ c # v'" and "c \<notin> set u" and "c \<notin> set u'"
  shows "u = u' \<and> v = v'"
proof -
  have "rev (u @ c # v) = rev (u' @ c # v')"
    by (simp only: assms(1))
  then have "rev v @ c # rev u = rev v' @ c # rev u'" by simp
  then show ?thesis using last_field_unique [of "rev v" c "rev u" "rev v'" "rev u'"] assms(2,3)
    by simp
qed

lemma host_port_inj: "host_port h p = host_port h' p' \<longleftrightarrow> h = h' \<and> p = p'"
proof
  assume eq: "host_port h p = host_port h' p'"
  have "CHR '':'' \<notin> set (int_dec q)" for q
    using int_dec_chars [of q] not_dec_digits(2) by auto
  with eq show "h = h' \<and> p = p'"
    unfolding host_port_def by (metis last_field_unique int_dec_inj)
qed simp

section \<open>Go maps\<close>

type_synonym ('k, 'v) gomap = "('k \<times> 'v) list"

abbreviation gm_empty :: "('k, 'v) gomap" where
  "gm_empty \<equiv> []"

definition gm_get :: "'k \<Rightarrow> ('k, 'v) gomap \<Rightarrow> 'v option" where
  "gm_get k m = map_of m k"

definition gm_has :: "'k \<Rightarrow> ('k, 'v) gomap \<Rightarrow> bool" where
  "gm_has k m = (gm_get k m \<noteq> None)"

definition gm_put :: "'k \<Rightarrow> 'v \<Rightarrow> ('k, 'v) gomap \<Rightarrow> ('k, 'v) gomap" where
  "gm_put k v m = AList.update k v m"

definition gm_del :: "'k \<Rightarrow> ('k, 'v) gomap \<Rightarrow> ('k, 'v) gomap" where
  "gm_del k m = AList.delete k m"

definition gm_keys :: "('k, 'v) gomap \<Rightarrow> 'k list" where
  "gm_keys m = map fst m"

definition gm_len :: "('k, 'v) gomap \<Rightarrow> nat" where
  "gm_len m = length m"

definition gm_inv :: "('k, 'v) gomap \<Rightarrow> bool" where
  "gm_inv m = distinct (map fst m)"

text \<open>An order in which \<^verbatim>\<open>range\<close> may visit the map: every key exactly once.\<close>

definition map_order :: "('k, 'v) gomap \<Rightarrow> 'k list \<Rightarrow> bool" where
  "map_order m ks = (mset ks = mset (gm_keys m))"

text \<open>What the components rely on of a Go map.\<close>

locale go_map =
  fixes get :: "'k \<Rightarrow> 'm \<Rightarrow> 'v option"
    and put :: "'k \<Rightarrow> 'v \<Rightarrow> 'm \<Rightarrow> 'm"
    and del :: "'k \<Rightarrow> 'm \<Rightarrow> 'm"
    and keys :: "'m \<Rightarrow> 'k list"
    and inv :: "'m \<Rightarrow> bool"
  assumes get_put: "get j (put k v m) = (if j = k then Some v else get j m)"
    and get_del: "inv m \<Longrightarrow> get j (del k m) = (if j = k then None else get j m)"
    and set_keys: "set (keys m) = {k. get k m \<noteq> None}"
    and distinct_keys: "inv m \<Longrightarrow> distinct (keys m)"
    and inv_put: "inv m \<Longrightarrow> inv (put k v m)"
    and inv_del: "inv m \<Longrightarrow> inv (del k m)"
begin

lemma length_keys: "inv m \<Longrightarrow> length (keys m) = card {k. get k m \<noteq> None}"
  using distinct_keys set_keys distinct_card by metis

lemma finite_keys: "finite {k. get k m \<noteq> None}"
  using set_keys [of m] by (metis finite_set)

lemma length_put_new:
  assumes "inv m" and "get k m = None"
  shows "length (keys (put k v m)) = Suc (length (keys m))"
proof -
  have "{j. get j (put k v m) \<noteq> None} = insert k {j. get j m \<noteq> None}"
    by (auto simp: get_put)
  with assms finite_keys [of m] show ?thesis
    by (simp add: length_keys inv_put)
qed

lemma length_put_old:
  assumes "inv m" and "get k m \<noteq> None"
  shows "length (keys (put k v m)) = length (keys m)"
proof -
  have "{j. get j (put k v m) \<noteq> None} = {j. get j m \<noteq> None}"
    using assms(2) by (auto simp: get_put)
  with assms(1) show ?thesis by (simp add: length_keys inv_put)
qed

lemma length_del:
  assumes "inv m" and "get k m \<noteq> None"
  shows "Suc (length (keys (del k m))) = length (keys m)"
proof -
  have "{j. get j m \<noteq> None} = insert k {j. get j (del k m) \<noteq> None}"
    and "k \<notin> {j. get j (del k m) \<noteq> None}"
    using assms by (auto simp: get_del)
  with assms(1) finite_keys [of "del k m"] show ?thesis
    by (simp add: length_keys inv_del)
qed

text \<open>Any two visiting orders of the same map fold a commuting action to the same result.\<close>

lemma fold_order_eq:
  assumes "mset ks = mset (keys m)" and "mset js = mset (keys m)"
    and "\<And>x y. f x \<circ> f y = f y \<circ> f x"
  shows "fold f ks s = fold f js s"
  using fold_multiset_equiv [of ks f js] assms by simp

end

lemma gm_inv_empty [gomap_simps, simp]: "gm_inv []"
  by (simp add: gm_inv_def)

interpretation gm: go_map gm_get gm_put gm_del gm_keys gm_inv
proof (unfold_locales, goal_cases)
  case (1 j k v m)
  show ?case by (simp add: gm_get_def gm_put_def update_conv')
next
  case (2 m j k)
  then show ?case by (simp add: gm_get_def gm_del_def delete_conv')
next
  case (3 m)
  show ?case by (simp add: gm_keys_def gm_get_def map_of_eq_None_iff)
next
  case (4 m)
  then show ?case by (simp add: gm_inv_def gm_keys_def)
next
  case (5 m k v)
  then show ?case by (simp add: gm_inv_def gm_put_def distinct_update)
next
  case (6 m k)
  then show ?case by (simp add: gm_inv_def gm_del_def distinct_delete)
qed

lemmas gm_laws [gomap_simps] = gm.get_put gm.get_del gm.inv_put gm.inv_del

lemma gm_get_empty [gomap_simps, simp]: "gm_get k [] = None"
  by (simp add: gm_get_def)

lemma gm_has_empty [gomap_simps, simp]: "\<not> gm_has k []"
  by (simp add: gm_has_def)

lemma gm_has_put [gomap_simps]: "gm_has j (gm_put k v m) \<longleftrightarrow> j = k \<or> gm_has j m"
  by (simp add: gm_has_def gm.get_put)

lemma gm_has_del [gomap_simps]: "gm_inv m \<Longrightarrow> gm_has j (gm_del k m) \<longleftrightarrow> j \<noteq> k \<and> gm_has j m"
  by (simp add: gm_has_def gm.get_del)

lemma gm_len_empty [gomap_simps, simp]: "gm_len [] = 0"
  by (simp add: gm_len_def)

lemma gm_len_keys: "gm_len m = length (gm_keys m)"
  by (simp add: gm_len_def gm_keys_def)

lemma gm_len_put [gomap_simps]:
  "gm_inv m \<Longrightarrow> gm_len (gm_put k v m) = (if gm_has k m then gm_len m else Suc (gm_len m))"
  by (simp add: gm_len_keys gm_has_def gm.length_put_new gm.length_put_old)

lemma gm_len_del [gomap_simps]:
  "gm_inv m \<Longrightarrow> gm_has k m \<Longrightarrow> gm_len (gm_del k m) = gm_len m - 1"
  using gm.length_del [of m k] by (simp add: gm_len_keys gm_has_def)

lemma set_gm_keys: "set (gm_keys m) = {k. gm_has k m}"
  by (simp add: gm.set_keys gm_has_def)

lemma map_order_set: "map_order m ks \<Longrightarrow> set ks = {k. gm_has k m}"
  unfolding map_order_def by (metis set_gm_keys set_mset_mset)

lemma map_order_keys: "map_order m (gm_keys m)"
  by (simp add: map_order_def)

lemma map_order_length: "map_order m ks \<Longrightarrow> length ks = gm_len m"
  unfolding map_order_def by (metis gm_len_keys size_mset)

lemma map_order_distinct: "gm_inv m \<Longrightarrow> map_order m ks \<Longrightarrow> distinct ks"
  unfolding map_order_def by (metis gm.distinct_keys mset_eq_imp_distinct_iff)

lemma gm_fold_order:
  assumes "map_order m ks" and "map_order m js" and "\<And>x y. f x \<circ> f y = f y \<circ> f x"
  shows "fold f ks s = fold f js s"
  using assms gm.fold_order_eq [of ks m js f s] by (simp add: map_order_def)

section \<open>Add-if-absent registers\<close>

text \<open>
  The shape the program repeats: an element is normalised, refused when it is not acceptable,
  left alone when it is already there, stored and counted otherwise.
\<close>

locale register =
  fixes has :: "'k \<Rightarrow> 's \<Rightarrow> bool"
    and add :: "'k \<Rightarrow> 's \<Rightarrow> 's"
    and len :: "'s \<Rightarrow> nat"
    and norm :: "'k \<Rightarrow> 'k"
    and ok :: "'k \<Rightarrow> bool"
    and inv :: "'s \<Rightarrow> bool"
  assumes has_add: "inv s \<Longrightarrow> has j (add k s) \<longleftrightarrow> has j s \<or> (ok k \<and> j = norm k)"
    and add_refused: "inv s \<Longrightarrow> \<not> ok k \<Longrightarrow> add k s = s"
    and add_known: "inv s \<Longrightarrow> has (norm k) s \<Longrightarrow> add k s = s"
    and add_new: "inv s \<Longrightarrow> ok k \<Longrightarrow> \<not> has (norm k) s \<Longrightarrow> len (add k s) = Suc (len s)"
    and inv_add: "inv s \<Longrightarrow> inv (add k s)"
begin

lemma inv_adds: "inv s \<Longrightarrow> inv (fold add ks s)"
  by (induction ks arbitrary: s) (simp_all add: inv_add)

lemma has_adds:
  "inv s \<Longrightarrow> has j (fold add ks s) \<longleftrightarrow> has j s \<or> (\<exists>k \<in> set ks. ok k \<and> j = norm k)"
  by (induction ks arbitrary: s) (auto simp: inv_add has_add)

lemma adds_noop:
  "inv s \<Longrightarrow> \<forall>k \<in> set ks. ok k \<longrightarrow> has (norm k) s \<Longrightarrow> fold add ks s = s"
proof (induction ks arbitrary: s)
  case Nil
  then show ?case by simp
next
  case (Cons k ks)
  then have "add k s = s" using add_known add_refused by (cases "ok k") auto
  with Cons show ?case by simp
qed

lemma adds_idem:
  assumes "inv s"
  shows "fold add ks (fold add ks s) = fold add ks s"
  using assms by (intro adds_noop inv_adds) (auto simp: has_adds)

lemma add_len_bounds: "inv s \<Longrightarrow> len s \<le> len (add k s) \<and> len (add k s) \<le> Suc (len s)"
  by (cases "ok k"; cases "has (norm k) s") (auto simp: add_new add_known add_refused)

text \<open>How many elements a batch adds: as many as it has new acceptable normal forms.\<close>

lemma len_adds:
  assumes "inv s"
  shows "len (fold add ks s) = len s + card ({norm k | k. k \<in> set ks \<and> ok k} - {j. has j s})"
  using assms
proof (induction ks arbitrary: s)
  case Nil
  then show ?case by simp
next
  case (Cons k ks)
  let ?N = "\<lambda>ks. {norm k | k. k \<in> set ks \<and> ok k}"
  have fin: "finite (?N ks)" for ks by simp
  show ?case
  proof (cases "ok k \<and> \<not> has (norm k) s")
    case True
    have "?N (k # ks) - {j. has j s} = insert (norm k) (?N ks - {j. has j (add k s)})"
      using True Cons.prems by (auto simp: has_add)
    moreover have "norm k \<notin> ?N ks - {j. has j (add k s)}"
      using True Cons.prems by (auto simp: has_add)
    ultimately have "card (?N (k # ks) - {j. has j s}) = Suc (card (?N ks - {j. has j (add k s)}))"
      using fin by simp
    with True Cons show ?thesis by (simp add: inv_add add_new)
  next
    case False
    then have "add k s = s" using Cons.prems add_known add_refused by blast
    moreover have "?N (k # ks) - {j. has j s} = ?N ks - {j. has j s}"
      using False by auto
    ultimately show ?thesis using Cons by simp
  qed
qed

end

end
