(* ===== verification/Go_Path.thy ===== *)
theory Go_Path
  imports Go_Prelude
begin

text \<open>
  The functions of Go's \<^verbatim>\<open>path/filepath\<close> (on Unix) that the program uses: \<^verbatim>\<open>Clean\<close>, \<^verbatim>\<open>Join\<close>,
  \<^verbatim>\<open>Abs\<close>, \<^verbatim>\<open>Base\<close> and \<^verbatim>\<open>Dir\<close>. A path is read as the list of its components; cleaning is a
  pass over the components with a stack.
\<close>

section \<open>Definitions\<close>

definition IsAbs :: "string \<Rightarrow> bool" where
  "IsAbs p = HasPrefix p ''/''"

definition clean_step :: "bool \<Rightarrow> string \<Rightarrow> string list \<Rightarrow> string list" where
  "clean_step rooted c st =
     (if c = [] \<or> c = ''.'' then st
      else if c = ''..'' then
        (case st of
           [] \<Rightarrow> (if rooted then [] else [''..''])
         | t # ts \<Rightarrow> (if t = ''..'' then ''..'' # st else ts))
      else c # st)"

definition clean_comps :: "bool \<Rightarrow> string list \<Rightarrow> string list" where
  "clean_comps rooted cs = rev (fold (clean_step rooted) cs [])"

definition path_comps :: "string \<Rightarrow> string list" where
  "path_comps p = clean_comps (IsAbs p) (Split (CHR ''/'') p)"

definition unsplit :: "bool \<Rightarrow> string list \<Rightarrow> string" where
  "unsplit rooted cs =
     (if rooted then CHR ''/'' # Join ''/'' cs else if cs = [] then ''.'' else Join ''/'' cs)"

definition Clean :: "string \<Rightarrow> string" where
  "Clean p = unsplit (IsAbs p) (path_comps p)"

definition PathJoin :: "string list \<Rightarrow> string" where
  "PathJoin es =
     (case dropWhile (\<lambda>e. e = []) es of [] \<Rightarrow> [] | xs \<Rightarrow> Clean (Join ''/'' xs))"

definition Abs :: "string \<Rightarrow> string \<Rightarrow> string" where
  "Abs wd p = (if IsAbs p then Clean p else PathJoin [wd, p])"

definition Base :: "string \<Rightarrow> string" where
  "Base p =
     (if p = [] then ''.''
      else let q = rev (dropWhile (\<lambda>c. c = CHR ''/'') (rev p));
               b = last (Split (CHR ''/'') q)
           in if b = [] then ''/'' else b)"

definition Dir :: "string \<Rightarrow> string" where
  "Dir p = Clean (rev (dropWhile (\<lambda>c. c \<noteq> CHR ''/'') (rev p)))"

section \<open>Cleaned components\<close>

text \<open>Components a cleaned rooted path can have.\<close>

definition proper_comp :: "string \<Rightarrow> bool" where
  "proper_comp c \<longleftrightarrow> c \<noteq> [] \<and> c \<noteq> ''.'' \<and> c \<noteq> ''..'' \<and> CHR ''/'' \<notin> set c"

lemma clean_step_rooted:
  assumes "list_all proper_comp st" and "CHR ''/'' \<notin> set c"
  shows "list_all proper_comp (clean_step True c st)"
  using assms by (auto simp: clean_step_def proper_comp_def split: list.splits)

lemma fold_clean_step_rooted:
  assumes "list_all proper_comp st" and "\<forall>c \<in> set cs. CHR ''/'' \<notin> set c"
  shows "list_all proper_comp (fold (clean_step True) cs st)"
  using assms by (induction cs arbitrary: st) (auto simp: clean_step_rooted)

lemma clean_comps_proper:
  assumes "\<forall>c \<in> set cs. CHR ''/'' \<notin> set c"
  shows "list_all proper_comp (clean_comps True cs)"
  using fold_clean_step_rooted [of "[]" cs] assms
  by (simp add: clean_comps_def list_all_rev)

lemma path_comps_proper: "IsAbs p \<Longrightarrow> list_all proper_comp (path_comps p)"
  by (simp add: path_comps_def clean_comps_proper Split_parts_no_sep)

lemma fold_clean_step_id:
  "list_all proper_comp cs \<Longrightarrow> fold (clean_step rooted) cs st = rev cs @ st"
  by (induction cs arbitrary: st) (auto simp: clean_step_def proper_comp_def)

lemma clean_comps_id: "list_all proper_comp cs \<Longrightarrow> clean_comps rooted cs = cs"
  by (simp add: clean_comps_def fold_clean_step_id)

lemma clean_comps_append:
  "clean_comps rooted (cs @ ds) = rev (fold (clean_step rooted) ds (rev (clean_comps rooted cs)))"
  by (simp add: clean_comps_def)

lemma clean_step_Nil [simp]: "clean_step rooted [] st = st"
  by (simp add: clean_step_def)

lemma IsAbs_Cons [simp]: "IsAbs (c # s) \<longleftrightarrow> c = CHR ''/''"
  by (auto simp: IsAbs_def HasPrefix_def)

lemma IsAbs_Nil [simp]: "\<not> IsAbs []"
  by (simp add: IsAbs_def HasPrefix_def)

lemma IsAbs_append: "IsAbs (s @ t) \<longleftrightarrow> IsAbs s \<or> (s = [] \<and> IsAbs t)"
  by (cases s) simp_all

lemma Split_slash_abs:
  "Split (CHR ''/'') (CHR ''/'' # s) = [] # Split (CHR ''/'') s"
  by simp

lemma path_comps_unsplit:
  assumes "list_all proper_comp cs"
  shows "path_comps (unsplit True cs) = cs"
proof (cases "cs = []")
  case True
  then show ?thesis by (simp add: path_comps_def unsplit_def clean_comps_def)
next
  case False
  have "\<forall>x \<in> set cs. CHR ''/'' \<notin> set x"
    using assms by (auto simp: list_all_iff proper_comp_def)
  with False have "Split (CHR ''/'') (Join ''/'' cs) = cs"
    by (simp add: Split_Join)
  then have "path_comps (unsplit True cs) = clean_comps True ([] # cs)"
    by (simp add: path_comps_def unsplit_def)
  also have "\<dots> = clean_comps True cs"
    by (simp add: clean_comps_def)
  finally show ?thesis by (simp add: clean_comps_id assms)
qed

lemma IsAbs_unsplit [simp]: "IsAbs (unsplit True cs)"
  by (simp add: unsplit_def)

lemma IsAbs_Clean: "IsAbs p \<Longrightarrow> IsAbs (Clean p)"
  by (simp add: Clean_def)

lemma path_comps_Clean: "IsAbs p \<Longrightarrow> path_comps (Clean p) = path_comps p"
  by (simp add: Clean_def path_comps_unsplit path_comps_proper)

lemma Clean_idem_abs: "IsAbs p \<Longrightarrow> Clean (Clean p) = Clean p"
  using IsAbs_Clean [of p] path_comps_Clean [of p] by (simp add: Clean_def)

lemma Clean_unsplit: "IsAbs p \<Longrightarrow> Clean p = unsplit True (path_comps p)"
  by (simp add: Clean_def)

lemma Split_append_slash:
  "Split c (s @ c # t) = Split c s @ Split c t"
  by (induction s) (auto simp: hd_append)

text \<open>Joining onto a rooted path: the components of the second path are applied, one by one,
  to the first, \<^verbatim>\<open>..\<close> included.\<close>

lemma PathJoin_abs:
  assumes "IsAbs d"
  shows "PathJoin [d, p] = unsplit True (rev (fold (clean_step True) (Split (CHR ''/'') p)
           (rev (path_comps d))))"
    and "IsAbs (PathJoin [d, p])"
proof -
  from assms have ne: "d \<noteq> []" by auto
  have "PathJoin [d, p] = Clean (d @ CHR ''/'' # p)"
    using ne by (simp add: PathJoin_def)
  moreover have "path_comps (d @ CHR ''/'' # p) =
    rev (fold (clean_step True) (Split (CHR ''/'') p) (rev (path_comps d)))"
    using assms by (simp add: path_comps_def IsAbs_append Split_append_slash clean_comps_append)
  ultimately show "PathJoin [d, p] = unsplit True (rev (fold (clean_step True)
      (Split (CHR ''/'') p) (rev (path_comps d))))"
    using assms by (simp add: Clean_def IsAbs_append)
  then show "IsAbs (PathJoin [d, p])" by simp
qed

lemma path_comps_PathJoin_abs:
  assumes "IsAbs d"
  shows "path_comps (PathJoin [d, p]) =
    rev (fold (clean_step True) (Split (CHR ''/'') p) (rev (path_comps d)))"
proof -
  have "list_all proper_comp (fold (clean_step True) (Split (CHR ''/'') p) (rev (path_comps d)))"
    using assms path_comps_proper [OF assms]
    by (intro fold_clean_step_rooted) (auto simp: list_all_rev Split_parts_no_sep)
  then show ?thesis
    by (simp add: PathJoin_abs [OF assms] path_comps_unsplit list_all_rev)
qed

lemma Clean_PathJoin_abs: "IsAbs d \<Longrightarrow> Clean (PathJoin [d, p]) = PathJoin [d, p]"
  using Clean_unsplit [OF PathJoin_abs(2)] path_comps_PathJoin_abs PathJoin_abs(1) by simp

lemma path_comps_child:
  "IsAbs d \<Longrightarrow> path_comps (d @ CHR ''/'' # p) =
     rev (fold (clean_step True) (Split (CHR ''/'') p) (rev (path_comps d)))"
  by (simp add: path_comps_def IsAbs_append Split_append_slash clean_comps_append)

section \<open>Prefixes of path strings\<close>

text \<open>
  A string prefix between two cleaned rooted paths is not a component prefix: the last
  component of the shorter path may continue in the longer one.
\<close>

lemma prefix_Join_hd: "prefix d (Join sep ((d @ suf) # rest))"
  by (cases rest) simp_all

lemma Join_slash_prefix:
  assumes "list_all proper_comp cs" and "list_all proper_comp ds" and "ds \<noteq> []"
  shows "prefix (Join ''/'' ds) (Join ''/'' cs) \<longleftrightarrow>
    (\<exists>suf rest. cs = butlast ds @ (last ds @ suf) # rest)"
  using assms
proof (induction ds arbitrary: cs)
  case Nil
  then show ?case by simp
next
  case (Cons d ds)
  have d: "CHR ''/'' \<notin> set d" "d \<noteq> []" using Cons.prems by (auto simp: proper_comp_def)
  show ?case
  proof (cases cs)
    case Nil
    with d Cons.prems show ?thesis by (cases ds) (auto simp: prefix_def)
  next
    case (Cons c cs')
    have c: "CHR ''/'' \<notin> set c" using Cons Cons.prems by (auto simp: proper_comp_def)
    show ?thesis
    proof (cases "ds = []")
      case True
      show ?thesis
      proof
        assume "prefix (Join ''/'' (d # ds)) (Join ''/'' cs)"
        then have "prefix d (c @ (if cs' = [] then [] else CHR ''/'' # Join ''/'' cs'))"
          using True Cons by (cases cs') simp_all
        then have "prefix d c \<or> (\<exists>t. d = c @ t \<and> t \<noteq> [] \<and>
            prefix t (if cs' = [] then [] else CHR ''/'' # Join ''/'' cs'))"
          by (auto simp: prefix_append)
        with d have "prefix d c" by (auto simp: prefix_Cons split: if_splits)
        then show "\<exists>suf rest. cs = butlast (d # ds) @ (last (d # ds) @ suf) # rest"
          using True Cons by (auto simp: prefix_def)
      next
        assume "\<exists>suf rest. cs = butlast (d # ds) @ (last (d # ds) @ suf) # rest"
        then show "prefix (Join ''/'' (d # ds)) (Join ''/'' cs)"
          using True by (auto simp: prefix_Join_hd)
      qed
    next
      case False
      have jd: "Join ''/'' (d # ds) = d @ CHR ''/'' # Join ''/'' ds"
        using False by (simp add: Join_Cons)
      show ?thesis
      proof (cases "cs' = []")
        case True
        with Cons c False have "\<not> prefix (Join ''/'' (d # ds)) (Join ''/'' cs)"
          unfolding jd by (auto simp: prefix_def)
        with True Cons False show ?thesis by (auto simp: append_eq_Cons_conv)
      next
        case ne: False
        have "prefix (Join ''/'' (d # ds)) (Join ''/'' cs) \<longleftrightarrow>
            prefix (d @ CHR ''/'' # Join ''/'' ds) (c @ CHR ''/'' # Join ''/'' cs')"
          using jd ne Cons by (simp add: Join_Cons)
        also have "\<dots> \<longleftrightarrow> d = c \<and> prefix (Join ''/'' ds) (Join ''/'' cs')"
        proof
          assume "prefix (d @ CHR ''/'' # Join ''/'' ds) (c @ CHR ''/'' # Join ''/'' cs')"
          then obtain z where z: "c @ CHR ''/'' # Join ''/'' cs' =
              d @ CHR ''/'' # (Join ''/'' ds @ z)"
            by (auto simp: prefix_def)
          then have "c = d"
            using c d(1) first_field_unique by metis
          with z show "d = c \<and> prefix (Join ''/'' ds) (Join ''/'' cs')"
            by (simp add: prefix_def)
        qed auto
        also have "\<dots> \<longleftrightarrow> d = c \<and> (\<exists>suf rest. cs' = butlast ds @ (last ds @ suf) # rest)"
          using Cons.IH [of cs'] Cons.prems False Cons by simp
        finally show ?thesis using Cons False by auto
      qed
    qed
  qed
qed

lemma unsplit_prefix:
  assumes "list_all proper_comp cs" and "list_all proper_comp ds" and "ds \<noteq> []"
  shows "HasPrefix (unsplit True cs) (unsplit True ds) \<longleftrightarrow>
    (\<exists>suf rest. cs = butlast ds @ (last ds @ suf) # rest)"
  using Join_slash_prefix [OF assms] by (simp add: HasPrefix_def unsplit_def)

end
