(* ===== verification/Go_OS.thy ===== *)
theory Go_OS
  imports Go_Path "HOL-Library.List_Lexorder" "HOL-Library.Char_ord"
begin

text \<open>
  The part of Go's \<^verbatim>\<open>os\<close> package the program uses, over an explicit file system: a Go map from
  component lists to nodes, with the root always a directory. Paths are resolved lexically
  (there are no symbolic links in the model) and relative to the root; permissions are not
  modelled, since the service runs as root.
\<close>

section \<open>State and errors\<close>

datatype node = DirN | FileN string

type_synonym fsys = "(string list, node) gomap"

datatype os_error = ENOENT | ENOTDIR | EISDIR | EEXIST | ENOTEMPTY | EBUSY

text \<open>The text of the error number, which callers compare.\<close>

definition os_error_text :: "os_error \<Rightarrow> string" where
  "os_error_text e =
     (case e of
        ENOENT \<Rightarrow> ''no such file or directory''
      | ENOTDIR \<Rightarrow> ''not a directory''
      | EISDIR \<Rightarrow> ''is a directory''
      | EEXIST \<Rightarrow> ''file exists''
      | ENOTEMPTY \<Rightarrow> ''directory not empty''
      | EBUSY \<Rightarrow> ''device or resource busy'')"

definition fs_get :: "fsys \<Rightarrow> string list \<Rightarrow> node option" where
  "fs_get fs p = (if p = [] then Some DirN else gm_get p fs)"

definition fs_put :: "string list \<Rightarrow> node \<Rightarrow> fsys \<Rightarrow> fsys" where
  "fs_put p n fs = (if p = [] then fs else gm_put p n fs)"

lemma fs_get_put [simp]:
  "fs_get (fs_put p n fs) q = (if q = p \<and> p \<noteq> [] then Some n else fs_get fs q)"
  by (auto simp: fs_get_def fs_put_def gm.get_put)

lemma fs_get_root [simp]: "fs_get fs [] = Some DirN"
  by (simp add: fs_get_def)

section \<open>Operations\<close>

text \<open>\<open>walk fs acc rest\<close> follows \<open>rest\<close> from the directory \<open>acc\<close>; every component but the last
  must be a directory.\<close>

fun walk :: "fsys \<Rightarrow> string list \<Rightarrow> string list \<Rightarrow> os_error option" where
  "walk fs acc [] = None"
| "walk fs acc [x] = None"
| "walk fs acc (x # y # ys) =
     (case fs_get fs (acc @ [x]) of
        None \<Rightarrow> Some ENOENT
      | Some (FileN _) \<Rightarrow> Some ENOTDIR
      | Some DirN \<Rightarrow> walk fs (acc @ [x]) (y # ys))"

definition os_stat :: "fsys \<Rightarrow> string list \<Rightarrow> os_error + node" where
  "os_stat fs p =
     (case walk fs [] p of
        Some e \<Rightarrow> Inl e
      | None \<Rightarrow> (case fs_get fs p of None \<Rightarrow> Inl ENOENT | Some n \<Rightarrow> Inr n))"

definition os_is_dir :: "fsys \<Rightarrow> string list \<Rightarrow> bool" where
  "os_is_dir fs p = (os_stat fs p = Inr DirN)"

definition os_is_file :: "fsys \<Rightarrow> string list \<Rightarrow> bool" where
  "os_is_file fs p = (case os_stat fs p of Inr (FileN _) \<Rightarrow> True | _ \<Rightarrow> False)"

definition os_mkdir :: "fsys \<Rightarrow> string list \<Rightarrow> os_error + fsys" where
  "os_mkdir fs p =
     (case walk fs [] p of
        Some e \<Rightarrow> Inl e
      | None \<Rightarrow> (if fs_get fs p \<noteq> None then Inl EEXIST else Inr (fs_put p DirN fs)))"

fun mkdir_all_from :: "fsys \<Rightarrow> string list \<Rightarrow> string list \<Rightarrow> os_error + fsys" where
  "mkdir_all_from fs acc [] = Inr fs"
| "mkdir_all_from fs acc (x # xs) =
     (case fs_get fs (acc @ [x]) of
        Some (FileN _) \<Rightarrow> Inl ENOTDIR
      | Some DirN \<Rightarrow> mkdir_all_from fs (acc @ [x]) xs
      | None \<Rightarrow> mkdir_all_from (fs_put (acc @ [x]) DirN fs) (acc @ [x]) xs)"

definition os_mkdir_all :: "fsys \<Rightarrow> string list \<Rightarrow> os_error + fsys" where
  "os_mkdir_all fs p = mkdir_all_from fs [] p"

definition has_children :: "fsys \<Rightarrow> string list \<Rightarrow> bool" where
  "has_children fs p = (\<exists>q \<in> set (gm_keys fs). strict_prefix p q)"

text \<open>A mount point (\<open>busy\<close>) cannot be removed.\<close>

definition os_remove :: "(string list \<Rightarrow> bool) \<Rightarrow> fsys \<Rightarrow> string list \<Rightarrow> os_error + fsys" where
  "os_remove busy fs p =
     (case os_stat fs p of
        Inl e \<Rightarrow> Inl e
      | Inr n \<Rightarrow>
          (if p = [] \<or> busy p then Inl EBUSY
           else if n = DirN \<and> has_children fs p then Inl ENOTEMPTY
           else Inr (gm_del p fs)))"

text \<open>\<^verbatim>\<open>os.RemoveAll\<close> removes all it can: a mount point stays, with the directories above it, and is the
  error that is returned.\<close>

definition holds_mount :: "(string list \<Rightarrow> bool) \<Rightarrow> fsys \<Rightarrow> string list \<Rightarrow> bool" where
  "holds_mount busy fs p = (\<exists>q \<in> set (gm_keys fs). prefix p q \<and> busy q)"

definition os_remove_all ::
  "(string list \<Rightarrow> bool) \<Rightarrow> fsys \<Rightarrow> string list \<Rightarrow> os_error option \<times> fsys" where
  "os_remove_all busy fs p =
     (case walk fs [] p of
        Some ENOTDIR \<Rightarrow> (Some ENOTDIR, fs)
      | _ \<Rightarrow> (if p = [] \<or> holds_mount busy fs p then Some EBUSY else None,
              filter (\<lambda>(q, _). prefix p q \<longrightarrow> holds_mount busy fs q) fs))"

text \<open>\<^verbatim>\<open>os.OpenFile\<close>: with \<open>creat\<close> a missing file is created empty; a directory can be opened
  only without \<open>creat\<close> and without \<open>wr\<close>.\<close>

definition os_open :: "fsys \<Rightarrow> string list \<Rightarrow> bool \<Rightarrow> bool \<Rightarrow> os_error + fsys" where
  "os_open fs p creat wr =
     (case walk fs [] p of
        Some e \<Rightarrow> Inl e
      | None \<Rightarrow>
          (case fs_get fs p of
             None \<Rightarrow> (if creat then Inr (fs_put p (FileN []) fs) else Inl ENOENT)
           | Some DirN \<Rightarrow> (if creat \<or> wr then Inl EISDIR else Inr fs)
           | Some (FileN _) \<Rightarrow> Inr fs))"

definition os_read_file :: "fsys \<Rightarrow> string list \<Rightarrow> os_error + string" where
  "os_read_file fs p =
     (case os_stat fs p of
        Inl e \<Rightarrow> Inl e | Inr DirN \<Rightarrow> Inl EISDIR | Inr (FileN d) \<Rightarrow> Inr d)"

text \<open>\<^verbatim>\<open>os.WriteFile\<close> truncates; writing to an open handle overwrites from the start.\<close>

definition os_write_file :: "fsys \<Rightarrow> string list \<Rightarrow> string \<Rightarrow> os_error + fsys" where
  "os_write_file fs p d =
     (case os_open fs p True True of Inl e \<Rightarrow> Inl e | Inr fs' \<Rightarrow> Inr (fs_put p (FileN d) fs'))"

definition os_overwrite :: "fsys \<Rightarrow> string list \<Rightarrow> string \<Rightarrow> fsys" where
  "os_overwrite fs p d =
     (case fs_get fs p of
        Some (FileN old) \<Rightarrow> fs_put p (FileN (d @ drop (length d) old)) fs
      | _ \<Rightarrow> fs)"

definition os_read_dir :: "fsys \<Rightarrow> string list \<Rightarrow> os_error + string list" where
  "os_read_dir fs p =
     (case os_stat fs p of
        Inl e \<Rightarrow> Inl e
      | Inr (FileN _) \<Rightarrow> Inl ENOTDIR
      | Inr DirN \<Rightarrow>
          Inr (sort (map last (filter (\<lambda>q. q \<noteq> [] \<and> butlast q = p) (gm_keys fs)))))"

section \<open>Well-formed file systems\<close>

text \<open>Keys are unique, none is the root, and the parent of every entry is a directory.\<close>

definition fs_wf :: "fsys \<Rightarrow> bool" where
  "fs_wf fs \<longleftrightarrow> gm_inv fs \<and> \<not> gm_has [] fs \<and>
     (\<forall>p. p \<noteq> [] \<longrightarrow> fs_get fs p \<noteq> None \<longrightarrow> fs_get fs (butlast p) = Some DirN)"

lemma fs_wf_empty [simp]: "fs_wf []"
  by (simp add: fs_wf_def fs_get_def)

lemma walk_None_butlast:
  assumes "walk fs acc xs = None" and "xs \<noteq> []" and "fs_get fs acc = Some DirN"
  shows "fs_get fs (acc @ butlast xs) = Some DirN"
  using assms by (induction fs acc xs rule: walk.induct) (auto split: option.splits node.splits)

lemma walk_None_parent:
  "walk fs [] p = None \<Longrightarrow> p \<noteq> [] \<Longrightarrow> fs_get fs (butlast p) = Some DirN"
  using walk_None_butlast [of fs "[]" p] by simp

lemma fs_wf_put:
  assumes "fs_wf fs" and "p \<noteq> []" and "fs_get fs (butlast p) = Some DirN"
    and "n = DirN \<or> (\<exists>d. n = FileN d \<and> fs_get fs p \<noteq> Some DirN)"
  shows "fs_wf (fs_put p n fs)"
proof -
  have ne: "butlast p \<noteq> p"
    using assms(2) by (metis append_butlast_last_id append_self_conv list.discI)
  have "fs_get (fs_put p n fs) (butlast q) = Some DirN"
    if q: "q \<noteq> []" "fs_get (fs_put p n fs) q \<noteq> None" for q
  proof (cases "q = p")
    case True
    with assms ne show ?thesis by simp
  next
    case False
    with q assms have d: "fs_get fs (butlast q) = Some DirN"
      by (simp add: fs_wf_def)
    with assms show ?thesis by auto
  qed
  with assms show ?thesis
    by (simp add: fs_wf_def fs_put_def gm.inv_put gm_has_put)
qed

lemma mkdir_all_from_wf:
  assumes "mkdir_all_from fs acc xs = Inr fs'" and "fs_wf fs" and "fs_get fs acc = Some DirN"
  shows "fs_wf fs' \<and> fs_get fs' (acc @ xs) = Some DirN \<and>
    (\<forall>q n. fs_get fs q = Some n \<longrightarrow> fs_get fs' q = Some n)"
  using assms
proof (induction fs acc xs rule: mkdir_all_from.induct)
  case (1 fs acc)
  then show ?case by simp
next
  case (2 fs acc x xs)
  show ?case
  proof (cases "fs_get fs (acc @ [x])")
    case None
    have "fs_wf (fs_put (acc @ [x]) DirN fs)"
      using 2 by (intro fs_wf_put) auto
    with 2 None show ?thesis by (auto split: if_splits) (metis option.distinct(1))
  next
    case (Some n)
    with 2 show ?thesis by (cases n) auto
  qed
qed

lemma os_mkdir_all_wf:
  "os_mkdir_all fs p = Inr fs' \<Longrightarrow> fs_wf fs \<Longrightarrow> fs_wf fs' \<and> fs_get fs' p = Some DirN"
  using mkdir_all_from_wf [of fs "[]" p fs'] by (simp add: os_mkdir_all_def)

lemma os_mkdir_wf: "os_mkdir fs p = Inr fs' \<Longrightarrow> fs_wf fs \<Longrightarrow> fs_wf fs'"
  by (cases "p = []")
    (auto simp: os_mkdir_def walk_None_parent split: option.splits if_splits intro!: fs_wf_put)

lemma os_open_wf: "os_open fs p c w = Inr fs' \<Longrightarrow> fs_wf fs \<Longrightarrow> fs_wf fs'"
  by (cases "p = []")
    (auto simp: os_open_def walk_None_parent split: option.splits if_splits node.splits
      intro!: fs_wf_put)

lemma fs_wf_del:
  assumes "fs_wf fs" and "fs_get fs p \<noteq> Some DirN \<or> \<not> has_children fs p"
  shows "fs_wf (gm_del p fs)"
proof -
  have inv: "gm_inv fs" using assms(1) by (simp add: fs_wf_def)
  have "fs_get (gm_del p fs) (butlast q) = Some DirN"
    if q: "q \<noteq> []" "fs_get (gm_del p fs) q \<noteq> None" for q
  proof -
    have d: "fs_get fs (butlast q) = Some DirN" "gm_has q fs"
      using q assms(1) inv by (auto simp: fs_wf_def fs_get_def gm.get_del gm_has_def split: if_splits)
    have "butlast q \<noteq> p \<or> p = []"
    proof (rule ccontr)
      assume c: "\<not> (butlast q \<noteq> p \<or> p = [])"
      then have "strict_prefix p q"
        using q(1) by (metis append_butlast_last_id prefixI strict_prefix_def
            append_self_conv list.discI)
      with d(2) have "has_children fs p"
        by (auto simp: has_children_def set_gm_keys)
      with c d(1) assms(2) show False by auto
    qed
    with d show ?thesis by (auto simp: fs_get_def gm.get_del inv)
  qed
  with assms inv show ?thesis by (simp add: fs_wf_def gm.inv_del gm_has_del)
qed

lemma os_remove_wf: "os_remove busy fs p = Inr fs' \<Longrightarrow> fs_wf fs \<Longrightarrow> fs_wf fs'"
  by (auto simp: os_remove_def os_stat_def split: option.splits if_splits sum.splits
      intro!: fs_wf_del)

lemma os_write_file_get:
  assumes "os_write_file fs p d = Inr fs'"
  shows "p \<noteq> [] \<and> fs_get fs' p = Some (FileN d) \<and> (\<forall>q. q \<noteq> p \<longrightarrow> fs_get fs' q = fs_get fs q)"
  using assms
  by (cases "p = []") (auto simp: os_write_file_def os_open_def split: option.splits sum.splits
      if_splits node.splits)

lemma walk_cong_dirs:
  assumes "\<And>q. strict_prefix q p \<Longrightarrow> fs_get fs' (acc @ q) = fs_get fs (acc @ q)"
  shows "walk fs' acc p = walk fs acc p"
  using assms
proof (induction fs acc p rule: walk.induct)
  case (3 fs acc x y ys)
  have "fs_get fs' (acc @ [x]) = fs_get fs (acc @ [x])"
    by (rule "3.prems") simp
  moreover have "walk fs' (acc @ [x]) (y # ys) = walk fs (acc @ [x]) (y # ys)"
    if "fs_get fs (acc @ [x]) = Some DirN"
    using "3.IH" [OF that] "3.prems" [of "x # _"] by simp
  ultimately show ?case by (auto split: option.splits node.splits)
qed auto

lemma os_write_then_read:
  assumes "os_write_file fs p d = Inr fs'"
  shows "os_read_file fs' p = Inr d" and "os_is_file fs' p"
proof -
  note g = os_write_file_get [OF assms]
  have "walk fs' [] p = walk fs [] p"
    using g by (intro walk_cong_dirs) auto
  moreover have "walk fs [] p = None"
    using assms by (auto simp: os_write_file_def os_open_def split: option.splits sum.splits)
  ultimately have "os_stat fs' p = Inr (FileN d)"
    using g by (simp add: os_stat_def)
  then show "os_read_file fs' p = Inr d" and "os_is_file fs' p"
    by (simp_all add: os_read_file_def os_is_file_def)
qed

lemma os_write_file_wf: "os_write_file fs p d = Inr fs' \<Longrightarrow> fs_wf fs \<Longrightarrow> fs_wf fs'"
proof -
  assume a: "os_write_file fs p d = Inr fs'" and wf: "fs_wf fs"
  then obtain fs1 where o: "os_open fs p True True = Inr fs1" and f: "fs' = fs_put p (FileN d) fs1"
    by (auto simp: os_write_file_def split: sum.splits)
  have "p \<noteq> []" using os_write_file_get [OF a] by simp
  moreover have "walk fs [] p = None" and "fs_get fs1 p \<noteq> Some DirN"
    and "\<forall>q. q \<noteq> p \<longrightarrow> fs_get fs1 q = fs_get fs q"
    using o \<open>p \<noteq> []\<close> by (auto simp: os_open_def split: option.splits node.splits)
  moreover have "butlast p \<noteq> p"
    using \<open>p \<noteq> []\<close> by (metis append_butlast_last_id append_self_conv list.discI)
  ultimately show ?thesis
    using f os_open_wf [OF o wf] walk_None_parent by (auto intro!: fs_wf_put)
qed

section \<open>Writing a file does not disturb other paths\<close>

lemma walk_None_iff:
  "walk fs acc p = None \<longleftrightarrow>
     (\<forall>q. q \<noteq> [] \<and> strict_prefix q p \<longrightarrow> fs_get fs (acc @ q) = Some DirN)"
proof (induction fs acc p rule: walk.induct)
  case (3 fs acc x y ys)
  have split: "(\<forall>q. q \<noteq> [] \<and> strict_prefix q (x # y # ys) \<longrightarrow> fs_get fs (acc @ q) = Some DirN) \<longleftrightarrow>
      fs_get fs (acc @ [x]) = Some DirN \<and>
      (\<forall>q. q \<noteq> [] \<and> strict_prefix q (y # ys) \<longrightarrow> fs_get fs (acc @ x # q) = Some DirN)"
    (is "?L \<longleftrightarrow> ?R")
  proof
    assume ?L
    then show ?R by (auto dest: spec [of _ "[x]"] spec [of _ "x # _"])
  next
    assume r: ?R
    show ?L
    proof (intro allI impI)
      fix q assume "q \<noteq> [] \<and> strict_prefix q (x # y # ys)"
      then obtain q' where "q = x # q'" "strict_prefix q' (y # ys)" by (cases q) auto
      with r show "fs_get fs (acc @ q) = Some DirN" by (cases "q' = []") auto
    qed
  qed
  show ?case
  proof (cases "fs_get fs (acc @ [x])")
    case None
    then show ?thesis unfolding split by simp
  next
    case (Some n)
    then show ?thesis unfolding split using "3.IH" by (cases n) simp_all
  qed
qed (auto simp: strict_prefix_def prefix_Cons)

lemma os_write_file_walk:
  assumes "os_write_file fs p d = Inr fs'"
  shows "walk fs' [] q = None \<longleftrightarrow> walk fs [] q = None"
proof -
  note g = os_write_file_get [OF assms]
  have "fs_get fs p \<noteq> Some DirN"
    using assms g by (auto simp: os_write_file_def os_open_def split: option.splits sum.splits)
  with g have "fs_get fs' r = Some DirN \<longleftrightarrow> fs_get fs r = Some DirN" for r by (cases "r = p") auto
  then show ?thesis by (simp add: walk_None_iff)
qed

lemma os_write_file_other:
  assumes "os_write_file fs p d = Inr fs'" and "q \<noteq> p"
  shows "os_is_file fs' q \<longleftrightarrow> os_is_file fs q" and "os_read_file fs' q = Inr s \<longleftrightarrow> os_read_file fs q = Inr s"
  using os_write_file_walk [OF assms(1), of q] os_write_file_get [OF assms(1)] assms(2)
  by (auto simp: os_is_file_def os_read_file_def os_stat_def split: option.splits)

text \<open>A path at which \<^verbatim>\<open>os.WriteFile\<close> succeeds.\<close>

definition writable :: "fsys \<Rightarrow> string list \<Rightarrow> bool" where
  "writable fs p \<longleftrightarrow> p \<noteq> [] \<and> walk fs [] p = None \<and> fs_get fs p \<noteq> Some DirN"

lemma os_write_file_iff: "(\<exists>fs'. os_write_file fs p d = Inr fs') \<longleftrightarrow> writable fs p"
  by (auto simp: os_write_file_def os_open_def writable_def fs_get_def
      split: option.splits sum.splits node.splits if_splits)

lemma os_read_file_writable: "os_read_file fs p = Inr s \<Longrightarrow> writable fs p"
  by (auto simp: os_read_file_def os_stat_def writable_def split: option.splits sum.splits node.splits
      if_splits)

lemma os_write_file_writable:
  assumes "os_write_file fs p d = Inr fs'"
  shows "writable fs' q \<longleftrightarrow> writable fs q"
proof -
  have "writable fs p" using assms os_write_file_iff by blast
  then have "fs_get fs' q = Some DirN \<longleftrightarrow> fs_get fs q = Some DirN"
    using os_write_file_get [OF assms] by (cases "q = p") (auto simp: writable_def)
  then show ?thesis
    using os_write_file_walk [OF assms, of q] by (simp add: writable_def)
qed

section \<open>Frames of the single operations\<close>

lemma mkdir_all_from_frame:
  "mkdir_all_from fs acc xs = Inr fs' \<Longrightarrow> fs_get fs' q \<noteq> fs_get fs q \<Longrightarrow>
     prefix q (acc @ xs) \<and> fs_get fs q = None \<and> fs_get fs' q = Some DirN"
proof (induction fs acc xs rule: mkdir_all_from.induct)
  case (2 fs acc x xs)
  show ?case
  proof (cases "fs_get fs (acc @ [x])")
    case None
    show ?thesis
    proof (cases "q = acc @ [x]")
      case True
      have "fs_get fs' q = fs_get (fs_put q DirN fs) q"
        using "2.IH"(1) [OF None] "2.prems"(1) None True by auto
      with True None show ?thesis by simp
    next
      case False
      with 2 None show ?thesis by auto
    qed
  next
    case (Some n)
    with 2 show ?thesis by (cases n) auto
  qed
qed simp

lemma os_mkdir_all_frame:
  "os_mkdir_all fs p = Inr fs' \<Longrightarrow> fs_get fs' q \<noteq> fs_get fs q \<Longrightarrow>
     prefix q p \<and> fs_get fs q = None \<and> fs_get fs' q = Some DirN"
  using mkdir_all_from_frame [of fs "[]" p fs' q] by (simp add: os_mkdir_all_def)

lemma os_mkdir_frame:
  "os_mkdir fs p = Inr fs' \<Longrightarrow> fs_get fs' q = (if q = p \<and> p \<noteq> [] then Some DirN else fs_get fs q)"
  by (auto simp: os_mkdir_def split: option.splits if_splits)

lemma os_open_frame: "os_open fs p c w = Inr fs' \<Longrightarrow> q \<noteq> p \<Longrightarrow> fs_get fs' q = fs_get fs q"
  by (auto simp: os_open_def split: option.splits if_splits node.splits)

lemma os_open_dirs: "os_open fs p c w = Inr fs' \<Longrightarrow> fs_get fs q = Some n \<Longrightarrow> fs_get fs' q = Some n"
  by (auto simp: os_open_def split: option.splits if_splits node.splits)

lemma os_remove_frame:
  "os_remove busy fs p = Inr fs' \<Longrightarrow> fs_wf fs \<Longrightarrow>
     p \<noteq> [] \<and> \<not> busy p \<and> fs_get fs' q = (if q = p then None else fs_get fs q)"
  by (auto simp: os_remove_def fs_get_def fs_wf_def gm.get_del split: sum.splits if_splits)

lemma os_remove_all_frame:
  assumes "os_remove_all busy fs p = (e, fs')"
  shows "fs_get fs' q = (if prefix p q \<and> \<not> holds_mount busy fs q \<and> q \<noteq> [] \<and> fs' \<noteq> fs then None else fs_get fs q)"
proof -
  have f: "gm_get q (filter (\<lambda>(q, _). P q) xs) = (if P q then gm_get q xs else None)" for P and xs :: fsys
    by (induction xs) (auto simp: gm_get_def)
  show ?thesis
  proof (cases "fs' = fs")
    case False
    then have "fs' = filter (\<lambda>(q, _). prefix p q \<longrightarrow> holds_mount busy fs q) fs"
      using assms by (auto simp: os_remove_all_def split: option.splits os_error.splits)
    then have "gm_get q fs' = (if prefix p q \<longrightarrow> holds_mount busy fs q then gm_get q fs else None)"
      by (simp only: f)
    with False show ?thesis by (auto simp: fs_get_def)
  qed simp
qed

lemma os_remove_all_wf:
  assumes "os_remove_all busy fs p = (e, fs')" and "fs_wf fs" shows "fs_wf fs'"
proof -
  note fr = os_remove_all_frame [OF assms(1)]
  have k: "fs' = fs \<or> fs' = filter (\<lambda>(q, _). prefix p q \<longrightarrow> holds_mount busy fs q) fs"
    using assms(1) by (auto simp: os_remove_all_def split: option.splits os_error.splits)
  have "gm_inv fs'"
    using k assms(2) by (auto simp: fs_wf_def gm_inv_def distinct_map_filter)
  moreover have "\<not> gm_has [] fs'"
    using k assms(2) by (auto simp: fs_wf_def gm_has_def gm_get_def map_of_eq_None_iff)
  moreover have "fs_get fs' (butlast q) = Some DirN" if q: "q \<noteq> []" "fs_get fs' q \<noteq> None" for q
  proof -
    have "fs_get fs q \<noteq> None" using q(2) fr [of q] by (auto split: if_splits)
    then have d: "fs_get fs (butlast q) = Some DirN" using assms(2) q(1) by (auto simp: fs_wf_def)
    have pq: "prefix (butlast q) q" by (rule prefixeq_butlast)
    have "\<not> (prefix p (butlast q) \<and> \<not> holds_mount busy fs (butlast q) \<and> fs' \<noteq> fs)"
      using q fr [of q] pq unfolding holds_mount_def by (metis prefix_order.order_trans)
    with d fr [of "butlast q"] show ?thesis by auto
  qed
  ultimately show ?thesis by (auto simp: fs_wf_def)
qed

lemma os_overwrite_frame: "q \<noteq> p \<Longrightarrow> fs_get (os_overwrite fs p s) q = fs_get fs q"
  by (auto simp: os_overwrite_def split: option.splits node.splits)

lemma os_overwrite_dirs:
  "fs_get (os_overwrite fs p s) q = Some DirN \<longleftrightarrow> fs_get fs q = Some DirN"
  by (auto simp: os_overwrite_def split: option.splits node.splits)

lemma os_overwrite_wf:
  assumes "fs_wf fs" shows "fs_wf (os_overwrite fs p s)"
proof -
  have "fs_get fs (butlast p) = Some DirN" if "p \<noteq> []" "fs_get fs p = Some n" for n
    using assms that by (simp add: fs_wf_def)
  with assms show ?thesis
    by (cases "p = []") (auto simp: os_overwrite_def split: option.splits node.splits intro!: fs_wf_put)
qed

lemma fs_wf_ancestors:
  assumes "fs_wf fs" and "fs_get fs p \<noteq> None" and "strict_prefix q p"
  shows "fs_get fs q = Some DirN"
  using assms(2,3)
proof (induction p rule: rev_induct)
  case (snoc x p)
  then have "fs_get fs p = Some DirN"
    using assms(1) by (metis append_is_Nil_conv butlast_snoc fs_wf_def not_Cons_self2)
  moreover have "q = p \<or> strict_prefix q p"
    using snoc.prems(2) by (auto simp: strict_prefix_def)
  ultimately show ?case using snoc.IH by auto
qed simp

end
