(* ===== verification/Config.thy ===== *)
theory Config
  imports Go_OS Complex_Main
begin

text \<open>
  \<^verbatim>\<open>config.go\<close>: the configuration record, the IP whitelist and the default paths. Reading and
  decoding the YAML file is done by viper, which is not part of the repository; where it
  matters its result is an argument.
\<close>

record sync_node =
  node_Host :: string
  node_Port :: int

record server_addr =
  srv_Host :: string
  srv_Port :: int

record command_conf =
  cc_Rewriters :: "string list list"
  cc_Simple :: "string list list"
  cc_Exit :: "string list"
  cc_PermissionDenied :: "string list"
  cc_DiskError :: "string list"
  cc_CommandNotFound :: "string list"
  cc_FileNotFound :: "string list"
  cc_NotImplemented :: "string list"
  cc_Bullshit :: "string list"

record conf =
  c_PathData :: string
  c_PathPayloads :: string
  c_PathPasswords :: string
  c_PathUsers :: string
  c_PathHosts :: string
  c_PathCommands :: string
  c_PathWebinterface :: string
  c_PathCaptures :: string
  c_PathFFS :: string
  c_HostName :: string
  c_IPWhitelist :: "string list"
  c_Servers :: "server_addr list"
  c_MaxSessionAge :: nat
  c_InputDelay :: nat
  c_Ratelimit :: rat
  c_WebEnabled :: bool
  c_WebHost :: string
  c_WebPort :: "64 word"
  c_WebCertFile :: string
  c_WebKeyFile :: string
  c_SyncHost :: string
  c_SyncPort :: int
  c_SyncNodes :: "sync_node list"
  c_Commands :: command_conf

text \<open>\<^verbatim>\<open>isIPWhitelisted\<close>, a loop over \<^verbatim>\<open>Conf.IPWhitelist\<close>.\<close>

fun ip_in :: "string \<Rightarrow> string list \<Rightarrow> bool" where
  "ip_in ip [] = False"
| "ip_in ip (wip # wips) = (if ip = wip then True else ip_in ip wips)"

definition isIPWhitelisted :: "conf \<Rightarrow> string \<Rightarrow> bool" where
  "isIPWhitelisted c ip = ip_in ip (c_IPWhitelist c)"

lemma ip_in_set [simp]: "ip_in ip ws \<longleftrightarrow> ip \<in> set ws"
  by (induction ws) auto

lemma isIPWhitelisted_iff: "isIPWhitelisted c ip \<longleftrightarrow> ip \<in> set (c_IPWhitelist c)"
  by (simp add: isIPWhitelisted_def)

definition initPath :: "conf \<Rightarrow> string \<Rightarrow> string \<Rightarrow> string" where
  "initPath c p d = (if p = [] then c_PathData c @ ''/'' @ d else p)"

text \<open>The assignments of \<^verbatim>\<open>InitPaths\<close>: the data path first, then every other path from its own
  old value and the new data path.\<close>

definition InitPaths_assign :: "conf \<Rightarrow> conf" where
  "InitPaths_assign c0 =
     (let c = c0\<lparr>c_PathData := initPath c0 (c_PathData c0) ''/etc/ossh''\<rparr>
      in c\<lparr>c_PathCaptures := initPath c (c_PathCaptures c) ''captures'',
           c_PathCommands := initPath c (c_PathCommands c) ''commands'',
           c_PathWebinterface := initPath c (c_PathWebinterface c) ''webinterface'',
           c_PathFFS := initPath c (c_PathFFS c) ''ffs'',
           c_PathPayloads := initPath c (c_PathPayloads c) ''payloads.txt'',
           c_PathHosts := initPath c (c_PathHosts c) ''hosts.txt'',
           c_PathPasswords := initPath c (c_PathPasswords c) ''passwords.txt'',
           c_PathUsers := initPath c (c_PathUsers c) ''users.txt'',
           c_WebCertFile := initPath c (c_WebCertFile c) ''ossh.crt'',
           c_WebKeyFile := initPath c (c_WebKeyFile c) ''ossh.key''\<rparr>)"

definition InitPaths_dirs :: "conf \<Rightarrow> string list" where
  "InitPaths_dirs c =
     [c_PathCommands c, c_PathCaptures c, c_PathCaptures c @ ''/payloads'',
      c_PathCaptures c @ ''/scp-uploads'', c_PathCaptures c @ ''/ssh-keys'',
      c_PathFFS c, c_PathWebinterface c]"

text \<open>\<open>mkDirs\<close> is \<^verbatim>\<open>gutils.MkDirs\<close>: its error, which makes \<^verbatim>\<open>InitPaths\<close> panic, and the disk it leaves.\<close>

definition InitPaths ::
  "(string list \<Rightarrow> fsys \<Rightarrow> string option \<times> fsys) \<Rightarrow> conf \<Rightarrow> fsys \<Rightarrow> go_panic option \<times> conf \<times> fsys" where
  "InitPaths mkDirs c d =
     (let c1 = InitPaths_assign c; (e, d1) = mkDirs (InitPaths_dirs c1) d
      in (map_option PanicValue e, c1, d1))"

definition getConfig :: "string \<Rightarrow> fsys \<Rightarrow> string" where
  "getConfig cfgFile d =
     (case os_read_file d (path_comps cfgFile) of Inl e \<Rightarrow> [] | Inr s \<Rightarrow> s)"

section \<open>Default paths\<close>

definition conf_paths :: "conf \<Rightarrow> string list" where
  "conf_paths c =
     [c_PathData c, c_PathCaptures c, c_PathCommands c, c_PathWebinterface c, c_PathFFS c,
      c_PathPayloads c, c_PathHosts c, c_PathPasswords c, c_PathUsers c, c_WebCertFile c,
      c_WebKeyFile c]"

definition default_names :: "string list" where
  "default_names =
     [''/etc/ossh'', ''captures'', ''commands'', ''webinterface'', ''ffs'', ''payloads.txt'',
      ''hosts.txt'', ''passwords.txt'', ''users.txt'', ''ossh.crt'', ''ossh.key'']"

lemma initPath_nonempty [simp]: "initPath c p d \<noteq> []"
  by (simp add: initPath_def)

lemma initPath_keep [simp]: "p \<noteq> [] \<Longrightarrow> initPath c p d = p"
  by (simp add: initPath_def)

lemma initPath_cong: "c_PathData c = c_PathData c' \<Longrightarrow> initPath c p d = initPath c' p d"
  by (simp add: initPath_def)

lemma InitPaths_data: "c_PathData (InitPaths_assign c) = initPath c (c_PathData c) ''/etc/ossh''"
  by (simp add: InitPaths_assign_def Let_def)

lemma InitPaths_assign_paths:
  "conf_paths (InitPaths_assign c) =
     initPath c (c_PathData c) ''/etc/ossh'' #
     map2 (initPath (InitPaths_assign c)) (tl (conf_paths c)) (tl default_names)"
proof -
  let ?c = "c\<lparr>c_PathData := initPath c (c_PathData c) ''/etc/ossh''\<rparr>"
  have "initPath (InitPaths_assign c) = initPath ?c"
    by (intro ext initPath_cong) (simp add: InitPaths_data)
  then show ?thesis
    by (simp add: InitPaths_assign_def conf_paths_def default_names_def Let_def)
qed

lemma InitPaths_assign_idem: "InitPaths_assign (InitPaths_assign c) = InitPaths_assign c"
  by (simp add: InitPaths_assign_def Let_def)

text \<open>After start-up every configured path is kept and every missing one is the default name under
  the data directory; running the initialisation again changes nothing. The data directory itself
  defaults to \<open>//etc/ossh\<close> (a slash is put before the absolute default).\<close>

theorem InitPaths_defaults:
  "conf_paths (InitPaths_assign c) =
     (if c_PathData c = [] then ''//etc/ossh'' else c_PathData c) #
     map2 (\<lambda>p d. if p = [] then c_PathData (InitPaths_assign c) @ ''/'' @ d else p)
       (tl (conf_paths c)) (tl default_names) \<and>
   InitPaths_assign (InitPaths_assign c) = InitPaths_assign c"
proof -
  have "initPath (InitPaths_assign c) =
      (\<lambda>p d. if p = [] then c_PathData (InitPaths_assign c) @ ''/'' @ d else p)"
    by (intro ext) (simp add: initPath_def)
  moreover have "initPath c (c_PathData c) ''/etc/ossh'' =
      (if c_PathData c = [] then ''//etc/ossh'' else c_PathData c)"
    by (simp add: initPath_def)
  ultimately show ?thesis
    using InitPaths_assign_paths [of c] InitPaths_assign_idem [of c] by simp
qed

section \<open>A sample configuration\<close>

text \<open>Values of the kind \<^verbatim>\<open>config.example.yaml\<close> ships, for the examples of the other theories.\<close>

definition sample_commands :: command_conf where
  "sample_commands =
     \<lparr>cc_Rewriters = [], cc_Simple = [[''nproc'', ''128''], [''uname -a'', ''Linux'']],
      cc_Exit = [''exit'', ''logout''], cc_PermissionDenied = [''sudo'', ''chmod''],
      cc_DiskError = [''dd''], cc_CommandNotFound = [''date''], cc_FileNotFound = [''groups''],
      cc_NotImplemented = [''head''], cc_Bullshit = [''pkill'']\<rparr>"

definition sample_conf :: conf where
  "sample_conf =
     \<lparr>c_PathData = ''/etc/ossh'', c_PathPayloads = ''/etc/ossh/payloads.txt'',
      c_PathPasswords = ''/etc/ossh/passwords.txt'', c_PathUsers = ''/etc/ossh/users.txt'',
      c_PathHosts = ''/etc/ossh/hosts.txt'', c_PathCommands = ''/etc/ossh/commands'',
      c_PathWebinterface = ''/etc/ossh/webinterface'', c_PathCaptures = ''/etc/ossh/captures'',
      c_PathFFS = ''/etc/ossh/ffs'', c_HostName = ''nasty-pot'',
      c_IPWhitelist = [''127.0.0.1''],
      c_Servers = [\<lparr>srv_Host = ''0.0.0.0'', srv_Port = 2200\<rparr>],
      c_MaxSessionAge = 3600, c_InputDelay = 25, c_Ratelimit = 30, c_WebEnabled = True,
      c_WebHost = ''127.0.0.1'', c_WebPort = 443,
      c_WebCertFile = ''/etc/ossh/ossh.crt'', c_WebKeyFile = ''/etc/ossh/ossh.key'',
      c_SyncHost = ''127.0.0.1'', c_SyncPort = 1337, c_SyncNodes = [],
      c_Commands = sample_commands\<rparr>"

lemma sample_whitelist [simp]: "c_IPWhitelist sample_conf = [''127.0.0.1'']"
  by (simp add: sample_conf_def)

end
