(* ===== verification/Go_Base64.thy ===== *)
theory Go_Base64
  imports Go_Prelude
begin

text \<open>
  \<^verbatim>\<open>base64.RawStdEncoding\<close>: the standard alphabet without padding. The encoder packs three
  bytes into four letters and leaves two or three letters for a final group of one or two
  bytes; the decoder skips carriage returns and line feeds, rejects every other byte outside
  the alphabet and a final group of one letter, and (not being strict) ignores trailing bits.
\<close>

definition b64_alphabet :: string where
  "b64_alphabet = ''ABCDEFGHIJKLMNOPQRSTUVWXYZabcdefghijklmnopqrstuvwxyz0123456789+/''"

definition b64_letter :: "nat \<Rightarrow> char" where
  "b64_letter n = b64_alphabet ! n"

fun index_of :: "char \<Rightarrow> string \<Rightarrow> nat option" where
  "index_of c [] = None"
| "index_of c (x # xs) = (if x = c then Some 0 else map_option Suc (index_of c xs))"

definition b64_value :: "char \<Rightarrow> nat option" where
  "b64_value c = index_of c b64_alphabet"

definition byte_of :: "nat \<Rightarrow> char" where
  "byte_of n = char_of n"

fun b64_encode :: "string \<Rightarrow> string" where
  "b64_encode [] = []"
| "b64_encode [a] =
     (let x = of_char a :: nat in [b64_letter (x div 4), b64_letter (x mod 4 * 16)])"
| "b64_encode [a, b] =
     (let x = of_char a :: nat; y = of_char b :: nat
      in [b64_letter (x div 4), b64_letter (x mod 4 * 16 + y div 16),
          b64_letter (y mod 16 * 4)])"
| "b64_encode (a # b # c # rest) =
     (let x = of_char a :: nat; y = of_char b :: nat; z = of_char c :: nat
      in b64_letter (x div 4) # b64_letter (x mod 4 * 16 + y div 16)
         # b64_letter (y mod 16 * 4 + z div 64) # b64_letter (z mod 64)
         # b64_encode rest)"

fun b64_values :: "string \<Rightarrow> nat list option" where
  "b64_values [] = Some []"
| "b64_values (c # cs) =
     (if c = CHR 0x0A \<or> c = CHR 0x0D then b64_values cs
      else (case b64_value c of
              None \<Rightarrow> None
            | Some v \<Rightarrow> map_option ((#) v) (b64_values cs)))"

fun b64_unpack :: "nat list \<Rightarrow> string option" where
  "b64_unpack [] = Some []"
| "b64_unpack [p] = None"
| "b64_unpack [p, q] = Some [byte_of (p * 4 + q div 16)]"
| "b64_unpack [p, q, r] =
     Some [byte_of (p * 4 + q div 16), byte_of (q mod 16 * 16 + r div 4)]"
| "b64_unpack (p # q # r # s # rest) =
     map_option (\<lambda>t. byte_of (p * 4 + q div 16) # byte_of (q mod 16 * 16 + r div 4)
                     # byte_of (r mod 4 * 64 + s) # t) (b64_unpack rest)"

text \<open>\<open>None\<close> is the decoder's \<^verbatim>\<open>CorruptInputError\<close>.\<close>

definition b64_decode :: "string \<Rightarrow> string option" where
  "b64_decode s = (case b64_values s of None \<Rightarrow> None | Some vs \<Rightarrow> b64_unpack vs)"

section \<open>Decoding inverts encoding\<close>

lemma of_char_less: "of_char c < (256 :: nat)"
  by (cases c) (simp add: of_char_def)

lemma byte_of_of_char: "byte_of (of_char c) = c"
  by (simp add: byte_of_def)

lemma index_of_nth: "distinct xs \<Longrightarrow> n < length xs \<Longrightarrow> index_of (xs ! n) xs = Some n"
proof (induction xs arbitrary: n)
  case Nil
  then show ?case by simp
next
  case (Cons x xs)
  then show ?case by (cases n) auto
qed

lemma b64_alphabet_facts:
  "distinct b64_alphabet" "length b64_alphabet = 64"
  "CHR 0x0A \<notin> set b64_alphabet" "CHR 0x0D \<notin> set b64_alphabet"
  by (simp_all add: b64_alphabet_def)

lemma b64_value_letter: "n < 64 \<Longrightarrow> b64_value (b64_letter n) = Some n"
  by (simp add: b64_value_def b64_letter_def index_of_nth b64_alphabet_facts)

lemma b64_letter_not_newline: "n < 64 \<Longrightarrow> b64_letter n \<noteq> CHR 0x0A \<and> b64_letter n \<noteq> CHR 0x0D"
  using b64_alphabet_facts nth_mem unfolding b64_letter_def by metis

lemma b64_values_letter:
  "n < 64 \<Longrightarrow> b64_values (b64_letter n # cs) = map_option ((#) n) (b64_values cs)"
  by (simp add: b64_letter_not_newline b64_value_letter)

lemma sextets:
  fixes x y z :: nat
  assumes "x < 256" and "y < 256" and "z < 256"
  shows "x div 4 < 64" "x mod 4 * 16 < 64" "x mod 4 * 16 + y div 16 < 64"
    "y mod 16 * 4 < 64" "y mod 16 * 4 + z div 64 < 64" "z mod 64 < 64"
    "y div 16 div 16 = 0" "y div 16 mod 16 = y div 16"
    "z div 64 div 4 = 0" "z div 64 mod 4 = z div 64"
proof -
  have y: "y div 16 < 16" and z: "z div 64 < 4" and x: "x mod 4 \<le> 3" and y': "y mod 16 \<le> 15"
    using assms by (simp_all add: less_mult_imp_div_less)
  show "x div 4 < 64" using assms by (simp add: less_mult_imp_div_less)
  show "x mod 4 * 16 < 64" "x mod 4 * 16 + y div 16 < 64" using x y by linarith+
  show "y mod 16 * 4 < 64" "y mod 16 * 4 + z div 64 < 64" using y' z by linarith+
  show "z mod 64 < 64" by simp
  show "y div 16 div 16 = 0" "y div 16 mod 16 = y div 16" using y by simp_all
  show "z div 64 div 4 = 0" "z div 64 mod 4 = z div 64" using z by simp_all
qed

lemma b64_roundtrip: "b64_decode (b64_encode s) = Some s"
proof (induction s rule: b64_encode.induct)
  case 1
  show ?case by (simp add: b64_decode_def)
next
  case (2 a)
  note sx = sextets [OF of_char_less [of a] of_char_less [of a] of_char_less [of a]]
  show ?case
    by (simp add: b64_decode_def Let_def b64_values_letter sx byte_of_of_char del: b64_values.simps(2))
next
  case (3 a b)
  note sx = sextets [OF of_char_less [of a] of_char_less [of b] of_char_less [of a]]
  show ?case
    by (simp add: b64_decode_def Let_def b64_values_letter sx byte_of_of_char del: b64_values.simps(2))
next
  case (4 a b c rest)
  note sx = sextets [OF of_char_less [of a] of_char_less [of b] of_char_less [of c]]
  from "4.IH" [OF refl refl refl] obtain vs where vs: "b64_values (b64_encode rest) = Some vs" "b64_unpack vs = Some rest"
    by (auto simp: b64_decode_def split: option.splits)
  show ?case
    by (simp add: b64_decode_def Let_def b64_values_letter sx byte_of_of_char vs
        del: b64_values.simps(2))
qed

lemma b64_encode_length:
  "length (b64_encode s) = (4 * length s + 2) div 3"
  by (induction s rule: b64_encode.induct) (auto simp: Let_def)

lemma b64_encode_alphabet: "set (b64_encode s) \<subseteq> set b64_alphabet"
proof -
  have l: "n < 64 \<Longrightarrow> b64_letter n \<in> set b64_alphabet" for n
    using nth_mem [of n b64_alphabet] b64_alphabet_facts(2) by (simp add: b64_letter_def)
  show ?thesis
  proof (induction s rule: b64_encode.induct)
    case (2 a)
    note sx = sextets [OF of_char_less [of a] of_char_less [of a] of_char_less [of a]]
    show ?case by (simp add: Let_def l sx)
  next
    case (3 a b)
    note sx = sextets [OF of_char_less [of a] of_char_less [of b] of_char_less [of a]]
    show ?case by (simp add: Let_def l sx)
  next
    case (4 a b c rest)
    note sx = sextets [OF of_char_less [of a] of_char_less [of b] of_char_less [of c]]
    show ?case using 4 by (simp add: Let_def l sx)
  qed simp
qed

end
