(* ===== verification/Payloads.thy ===== *)
theory Payloads
  imports Config Go_Base64
begin

text \<open>
  \<^verbatim>\<open>ossh_payloads.go\<close> and \<^verbatim>\<open>utils/payload_hash.go\<close>: payload objects, their capture files and the
  register of known payloads. \<open>fileExists\<close> is \<^verbatim>\<open>gutils.FileExists\<close> (not part of the
  repository): its documented behaviour, that it holds exactly for regular files, is the
  hypothesis \<open>file_exists_ok\<close> where a property needs it.
\<close>

record payload =
  p_hash :: string
  p_file :: string
  p_payload :: string

datatype payload_error = PayloadNotFound string | PayloadReadError os_error

definition NewPayload :: payload where
  "NewPayload = \<lparr>p_hash = [], p_file = [], p_payload = []\<rparr>"

definition file_exists_ok :: "(fsys \<Rightarrow> string \<Rightarrow> bool) \<Rightarrow> bool" where
  "file_exists_ok fileExists \<longleftrightarrow> (\<forall>d p. fileExists d p = os_is_file d (path_comps p))"

definition payload_path :: "conf \<Rightarrow> string \<Rightarrow> string" where
  "payload_path c hash = c_PathCaptures c @ ''/payloads/'' @ hash @ ''.cast''"

definition SetHash :: "conf \<Rightarrow> string \<Rightarrow> payload \<Rightarrow> payload" where
  "SetHash c hash p = p\<lparr>p_hash := hash, p_file := payload_path c hash\<rparr>"

definition payload_Exists :: "(fsys \<Rightarrow> string \<Rightarrow> bool) \<Rightarrow> fsys \<Rightarrow> payload \<Rightarrow> bool" where
  "payload_Exists fileExists d p = fileExists d (p_file p)"

definition payload_Save :: "(fsys \<Rightarrow> string \<Rightarrow> bool) \<Rightarrow> payload \<Rightarrow> fsys \<Rightarrow> fsys" where
  "payload_Save fileExists p d =
     (if payload_Exists fileExists d p then d
      else if TrimSpace (p_payload p) = [] then d
      else case os_write_file d (path_comps (p_file p)) (p_payload p) of
             Inl e \<Rightarrow> d
           | Inr d' \<Rightarrow> d')"

definition payload_Read ::
  "(fsys \<Rightarrow> string \<Rightarrow> bool) \<Rightarrow> fsys \<Rightarrow> payload \<Rightarrow> payload_error + string" where
  "payload_Read fileExists d p =
     (if \<not> payload_Exists fileExists d p then Inl (PayloadNotFound (p_hash p))
      else case os_read_file d (path_comps (p_file p)) of
             Inl e \<Rightarrow> Inl (PayloadReadError e)
           | Inr s \<Rightarrow> Inr (TrimSpace s))"

definition DecodeFromString :: "string \<Rightarrow> payload \<Rightarrow> bool \<times> payload" where
  "DecodeFromString encoded p =
     (let enc = TrimSpace encoded
      in if enc = [] then (False, p)
         else (True, (case b64_decode enc of
                        None \<Rightarrow> p
                      | Some pd \<Rightarrow> p\<lparr>p_payload := TrimSpace pd\<rparr>)))"

definition EncodeToString :: "(fsys \<Rightarrow> string \<Rightarrow> bool) \<Rightarrow> fsys \<Rightarrow> payload \<Rightarrow> string" where
  "EncodeToString fileExists d p =
     (case payload_Read fileExists d p of
        Inl e \<Rightarrow> []
      | Inr pl \<Rightarrow>
          (let pl = TrimSpace pl in if pl = [] then [] else b64_encode pl))"

text \<open>\<open>signature\<close> is the MinHash signature of the pushed words, as strings, and \<open>sha1\<close> is
  \<^verbatim>\<open>gutils.StringToSha1\<close>; taking the first element of an empty signature panics.\<close>

definition payload_words :: "string \<Rightarrow> string list" where
  "payload_words pl = concat (map (Split (CHR '' '')) (Split (CHR 0x0A) pl))"

definition PayloadToHash ::
  "(string list \<Rightarrow> string list) \<Rightarrow> (string \<Rightarrow> string) \<Rightarrow> string \<Rightarrow> go_panic + string" where
  "PayloadToHash signature sha1 pl =
     (case signature (payload_words pl) of
        [] \<Rightarrow> Inl IndexOutOfRange
      | s # _ \<Rightarrow> Inr (s @ ''_'' @ sha1 pl))"

definition payload_Set ::
  "(string \<Rightarrow> go_panic + string) \<Rightarrow> conf \<Rightarrow> string \<Rightarrow> payload \<Rightarrow> go_panic + payload" where
  "payload_Set toHash c pl p =
     bind_res (toHash pl) (\<lambda>h. Inr ((SetHash c h p)\<lparr>p_payload := pl\<rparr>))"

section \<open>The register of payloads\<close>

type_synonym payloads = "(string, payload) gomap"

definition NewPayloads :: payloads where
  "NewPayloads = gm_empty"

definition Payloads_Has :: "string \<Rightarrow> payloads \<Rightarrow> bool" where
  "Payloads_Has h ps = gm_has h ps"

definition Payloads_Add :: "payload \<Rightarrow> payloads \<Rightarrow> payloads" where
  "Payloads_Add p ps = (if Payloads_Has (p_hash p) ps then ps else gm_put (p_hash p) p ps)"

definition Payloads_Get :: "string \<Rightarrow> payloads \<Rightarrow> string + payload" where
  "Payloads_Get h ps =
     (if \<not> Payloads_Has h ps then Inl ''not found''
      else case gm_get h ps of Some p \<Rightarrow> Inr p | None \<Rightarrow> Inl ''not found'')"

definition Payloads_GetKeys :: "string list \<Rightarrow> payloads \<Rightarrow> string list" where
  "Payloads_GetKeys ks ps = ks"

section \<open>Lemmas\<close>

lemma payload_words_parts: "w \<in> set (payload_words pl) \<Longrightarrow> CHR '' '' \<notin> set w \<and> CHR 0x0A \<notin> set w"
proof -
  assume "w \<in> set (payload_words pl)"
  then obtain l where l: "l \<in> set (Split (CHR 0x0A) pl)" and w: "w \<in> set (Split (CHR '' '') l)"
    by (auto simp: payload_words_def)
  have "set w \<subseteq> set l" using w
  proof (induction l arbitrary: w)
    case (Cons x xs)
    obtain y ys where y: "Split (CHR '' '') xs = y # ys" by (cases "Split (CHR '' '') xs") auto
    with Cons show ?case by (fastforce split: if_splits)
  qed simp
  with l w show ?thesis using Split_parts_no_sep by fastforce
qed

lemma payload_Save_reads:
  assumes "file_exists_ok fileExists" and "\<not> fileExists d (p_file p)"
    and "TrimSpace (p_payload p) \<noteq> []"
    and "os_write_file d (path_comps (p_file p)) (p_payload p) = Inr d'"
  shows "payload_Save fileExists p d = d' \<and>
    payload_Read fileExists d' p = Inr (TrimSpace (p_payload p)) \<and>
    payload_Exists fileExists d' p"
proof -
  have "payload_Save fileExists p d = d'"
    using assms by (simp add: payload_Save_def payload_Exists_def)
  moreover have "fileExists d' (p_file p)"
    using assms(1) os_write_then_read(2) [OF assms(4)] by (simp add: file_exists_ok_def)
  ultimately show ?thesis
    using os_write_then_read(1) [OF assms(4)] by (simp add: payload_Read_def payload_Exists_def)
qed

lemma space_bytes_not_alphabet: "c \<in> set b64_alphabet \<Longrightarrow> c \<notin> space_bytes"
proof -
  assume "c \<in> set b64_alphabet"
  moreover have "\<forall>c \<in> set b64_alphabet. \<forall>w \<in> set space_runes. hd w \<noteq> c \<and> last w \<noteq> c"
    unfolding b64_alphabet_def space_runes_def by code_simp
  ultimately show ?thesis by (auto simp: space_bytes_def)
qed

lemma TrimSpace_b64: "TrimSpace (b64_encode s) = b64_encode s"
proof (rule TrimSpace_fix)
  assume ne: "b64_encode s \<noteq> []"
  then have "hd (b64_encode s) \<in> set b64_alphabet" and "last (b64_encode s) \<in> set b64_alphabet"
    using b64_encode_alphabet [of s] by auto
  then show "hd (b64_encode s) \<notin> space_bytes \<and> last (b64_encode s) \<notin> space_bytes"
    by (simp add: space_bytes_not_alphabet)
qed

lemma b64_encode_Nil_iff [simp]: "b64_encode s = [] \<longleftrightarrow> s = []"
  by (cases s rule: b64_encode.cases) (simp_all add: Let_def)

text \<open>What \<open>EncodeToString\<close> produces of a readable payload, \<open>DecodeFromString\<close> restores.\<close>

lemma encode_decode_payload:
  assumes "payload_Read fileExists d p = Inr s" and "s \<noteq> []" and "TrimSpace s = s"
  shows "EncodeToString fileExists d p = b64_encode s \<and>
    DecodeFromString (EncodeToString fileExists d p) q = (True, q\<lparr>p_payload := s\<rparr>)"
  using assms
  by (simp add: EncodeToString_def DecodeFromString_def TrimSpace_b64 b64_roundtrip Let_def)

lemma Payloads_Add_inv: "gm_inv ps \<Longrightarrow> gm_inv (Payloads_Add p ps)"
  by (simp add: Payloads_Add_def gm.inv_put)

lemma Payloads_Has_Add: "Payloads_Has h (Payloads_Add p ps) \<longleftrightarrow> h = p_hash p \<or> Payloads_Has h ps"
  by (auto simp: Payloads_Add_def Payloads_Has_def gm_has_put)

definition sample_file_exists :: "fsys \<Rightarrow> string \<Rightarrow> bool" where
  "sample_file_exists d p = os_is_file d (path_comps p)"

lemma sample_file_exists_ok: "file_exists_ok sample_file_exists"
  by (simp add: file_exists_ok_def sample_file_exists_def)

end
