(* ===== verification/Fake_FS.thy ===== *)
theory Fake_FS
  imports Go_OS Payloads
begin

text \<open>
  \<^verbatim>\<open>fake_file_system.go\<close>: the manager of the overlay file systems and the operations of one of
  them. The merged directory is a directory of the host's file system; what the kernel mounts
  there is not part of the repository, so \<^verbatim>\<open>unix.Mount\<close> and \<^verbatim>\<open>unix.Unmount\<close> are arguments, as are
  \<^verbatim>\<open>gutils.DirExists\<close> and \<^verbatim>\<open>gutils.FileExists\<close>. What is written after the mount is read back from the
  merged directory; where the overlay keeps it, in the upper and the work directory, is not modelled,
  and what is stated of other paths leaves these two out. Relative paths are resolved in the root
  directory, where the service runs. Permissions, log output and delays are left out. The
  mutex guards single map accesses and is left out as well.
\<close>

section \<open>State\<close>

record fake_fs =
  ofs_mergedDir :: string
  ofs_upperDir :: string
  ofs_workDir :: string
  ofs_lowerDirs :: "string list"

record fs_manager =
  fm_baseDir :: string
  fm_activeOverlays :: "(string, bool) gomap"
  fm_overlays :: "(string, fake_fs) gomap"

text \<open>Errors of the manager: a wrapped error of the operating system, or a failed mount or unmount
  with its text.\<close>

datatype mgr_error =
    Wrapped string os_error
  | MountError string
  | NoMergedDir
  | UnmountError string

text \<open>Errors of a file system: \<^verbatim>\<open>errors.New("path outside root")\<close> or an \<^verbatim>\<open>*os.PathError\<close>.\<close>

datatype ofs_error = OutsideRoot | PathError os_error

definition dir_exists_ok :: "(fsys \<Rightarrow> string \<Rightarrow> bool) \<Rightarrow> bool" where
  "dir_exists_ok dirExists \<longleftrightarrow> (\<forall>d p. dirExists d p = os_is_dir d (path_comps p))"

definition wrap_err :: "string \<Rightarrow> os_error + 'a \<Rightarrow> mgr_error + 'a" where
  "wrap_err msg r = (case r of Inl e \<Rightarrow> Inl (Wrapped msg e) | Inr x \<Rightarrow> Inr x)"

section \<open>The manager\<close>

text \<open>The callback of \<^verbatim>\<open>fs.WalkDir\<close> on the entries of the embedded directory, in lexical order. A
  failing entry ends the walk; what was created before stays on the disk.\<close>

fun copy_embedded :: "string \<Rightarrow> (string \<times> node) list \<Rightarrow> fsys \<Rightarrow> os_error option \<times> fsys" where
  "copy_embedded dst [] d = (None, d)"
| "copy_embedded dst ((path, n) # es) d =
     (if HasPrefix path ''ffs/'' then
        (let target = path_comps (PathJoin [dst, TrimPrefix path ''ffs/''])
         in case (case n of DirN \<Rightarrow> os_mkdir d target
                  | FileN content \<Rightarrow> os_write_file d target content) of
              Inl e \<Rightarrow> (Some e, d)
            | Inr d' \<Rightarrow> copy_embedded dst es d')
      else copy_embedded dst es d)"

definition ensure_dir :: "(fsys \<Rightarrow> string \<Rightarrow> bool) \<Rightarrow> string \<Rightarrow> string \<Rightarrow> fsys \<Rightarrow> mgr_error option \<times> fsys" where
  "ensure_dir dirExists msg p d =
     (if dirExists d p then (None, d)
      else case os_mkdir d (path_comps p) of
             Inl e \<Rightarrow> (Some (Wrapped msg e), d)
           | Inr d' \<Rightarrow> (None, d'))"

definition install_defaultfs ::
  "(fsys \<Rightarrow> string \<Rightarrow> bool) \<Rightarrow> (string \<times> node) list \<Rightarrow> string \<Rightarrow> fsys \<Rightarrow> mgr_error option \<times> fsys" where
  "install_defaultfs dirExists embedded p d =
     (if dirExists d p then (None, d)
      else case os_mkdir d (path_comps p) of
             Inl e \<Rightarrow> (Some (Wrapped ''can't make defaultfs dir'' e), d)
           | Inr d' \<Rightarrow>
               (case copy_embedded p embedded d' of
                  (None, d2) \<Rightarrow> (None, d2)
                | (Some e, d2) \<Rightarrow> (Some (Wrapped ''can't walk embedded dir'' e), d2)))"

definition Init ::
  "(fsys \<Rightarrow> string \<Rightarrow> bool) \<Rightarrow> (string \<times> node) list \<Rightarrow> string \<Rightarrow> fsys \<Rightarrow> (mgr_error + fs_manager) \<times> fsys" where
  "Init dirExists embedded baseDir d0 =
     (case ensure_dir dirExists ''can't make baseDir'' baseDir d0 of
        (Some e, d1) \<Rightarrow> (Inl e, d1)
      | (None, d1) \<Rightarrow>
     (case install_defaultfs dirExists embedded (PathJoin [baseDir, ''defaultfs'']) d1 of
        (Some e, d2) \<Rightarrow> (Inl e, d2)
      | (None, d2) \<Rightarrow>
     (case ensure_dir dirExists ''can't make defaultfs dir'' (PathJoin [baseDir, ''sandboxes'']) d2 of
        (Some e, d3) \<Rightarrow> (Inl e, d3)
      | (None, d3) \<Rightarrow>
          (Inr \<lparr>fm_baseDir = baseDir, fm_activeOverlays = gm_empty, fm_overlays = gm_empty\<rparr>, d3))))"

text \<open>\<^verbatim>\<open>if !DirExists(p) { os.MkdirAll(p) }\<close> with the error wrapped.\<close>

definition ensure_dir_all ::
  "(fsys \<Rightarrow> string \<Rightarrow> bool) \<Rightarrow> string \<Rightarrow> string \<Rightarrow> fsys \<Rightarrow> mgr_error + fsys" where
  "ensure_dir_all dirExists msg p d =
     (if dirExists d p then Inr d else wrap_err msg (os_mkdir_all d (path_comps p)))"

definition sandbox_path :: "fs_manager \<Rightarrow> string \<Rightarrow> string" where
  "sandbox_path m key = PathJoin [fm_baseDir m, ''sandboxes'', key]"

definition session_fs :: "fs_manager \<Rightarrow> string \<Rightarrow> fake_fs" where
  "session_fs m key =
     \<lparr>ofs_mergedDir = PathJoin [sandbox_path m key, ''merge-data''],
      ofs_upperDir = PathJoin [sandbox_path m key, ''layers'', ''data''],
      ofs_workDir = PathJoin [sandbox_path m key, ''work-data''],
      ofs_lowerDirs = [PathJoin [fm_baseDir m, ''defaultfs'']]\<rparr>"

definition FS_NewSession ::
  "(fsys \<Rightarrow> string \<Rightarrow> bool) \<Rightarrow> string \<Rightarrow> fs_manager \<Rightarrow> fsys \<Rightarrow> mgr_error + fake_fs \<times> fs_manager \<times> fsys" where
  "FS_NewSession dirExists key m d =
     (let sandboxPath = sandbox_path m key
      in bind_res (ensure_dir_all dirExists ''make sandbox dir'' sandboxPath d) (\<lambda>d1.
         bind_res (ensure_dir_all dirExists ''make sandbox dir'' (PathJoin [sandboxPath, ''layers'']) d1) (\<lambda>d2.
           let ofs = session_fs m key; merged = ofs_mergedDir ofs
           in if gm_get merged (fm_activeOverlays m) = Some True \<and> gm_has merged (fm_overlays m)
              then Inr (the (gm_get merged (fm_overlays m)), m, d2)
              else Inr (ofs, m\<lparr>fm_activeOverlays := gm_put merged True (fm_activeOverlays m),
                               fm_overlays := gm_put merged ofs (fm_overlays m)\<rparr>, d2))))"

definition DeactivateOverlay :: "fake_fs \<Rightarrow> fs_manager \<Rightarrow> fs_manager" where
  "DeactivateOverlay ofs m =
     m\<lparr>fm_activeOverlays := gm_del (ofs_mergedDir ofs) (fm_activeOverlays m),
       fm_overlays := gm_del (ofs_mergedDir ofs) (fm_overlays m)\<rparr>"

section \<open>Mounting\<close>

definition mount_data :: "fake_fs \<Rightarrow> string" where
  "mount_data ofs =
     ''lowerdir='' @ Join '':'' (ofs_lowerDirs ofs) @ '',upperdir='' @ ofs_upperDir ofs @
     '',workdir='' @ ofs_workDir ofs"

definition Mount ::
  "(fsys \<Rightarrow> string \<Rightarrow> bool) \<Rightarrow> (string \<Rightarrow> string \<Rightarrow> fsys \<Rightarrow> string + fsys) \<Rightarrow> fake_fs \<Rightarrow> fsys \<Rightarrow> mgr_error + fsys" where
  "Mount dirExists mount ofs d =
     bind_res (ensure_dir_all dirExists ''mkdir merged'' (ofs_mergedDir ofs) d) (\<lambda>d1.
     bind_res (ensure_dir_all dirExists ''mkdir workdir'' (ofs_workDir ofs) d1) (\<lambda>d2.
     bind_res (ensure_dir_all dirExists ''mkdir upper'' (ofs_upperDir ofs) d2) (\<lambda>d3.
       if dirExists d3 (ofs_mergedDir ofs)
       then (case mount (ofs_mergedDir ofs) (mount_data ofs) d3 of
               Inl e \<Rightarrow> Inl (MountError e)
             | Inr d4 \<Rightarrow> Inr d4)
       else Inl NoMergedDir)))"

definition FS_Close :: "fake_fs \<Rightarrow> fs_manager \<Rightarrow> fs_manager" where
  "FS_Close ofs m = DeactivateOverlay ofs m"

definition Unmount ::
  "(string \<Rightarrow> fsys \<Rightarrow> string + fsys) \<Rightarrow> (string list \<Rightarrow> bool) \<Rightarrow> fake_fs \<Rightarrow> fsys \<Rightarrow>
   mgr_error option \<times> fsys" where
  "Unmount unmount busy ofs d =
     (case unmount (ofs_mergedDir ofs) d of
        Inl e \<Rightarrow> (Some (UnmountError e), d)
      | Inr d1 \<Rightarrow>
     (case (case os_remove busy d1 (path_comps (ofs_mergedDir ofs)) of
              Inl e \<Rightarrow> if e \<noteq> ENOENT then Inl e else Inr d1
            | Inr d2 \<Rightarrow> Inr d2) of
        Inl e \<Rightarrow> (Some (Wrapped ''remove mergedDir'' e), d1)
      | Inr d2 \<Rightarrow>
     (case os_remove_all busy d2 (path_comps (ofs_workDir ofs)) of
        (Some e, d3) \<Rightarrow> if e \<noteq> ENOENT then (Some (Wrapped ''remove workdir'' e), d3) else (None, d3)
      | (None, d3) \<Rightarrow> (None, d3))))"

section \<open>File operations\<close>

definition insideMerged :: "fake_fs \<Rightarrow> string \<Rightarrow> bool" where
  "insideMerged ofs path =
     (let mergedAbs = Abs ''/'' (ofs_mergedDir ofs);
          absPath = Abs ''/'' (PathJoin [mergedAbs, path])
      in HasPrefix absPath mergedAbs)"

text \<open>The host path an operation works on.\<close>

definition host_path :: "fake_fs \<Rightarrow> string \<Rightarrow> string list" where
  "host_path ofs path = path_comps (PathJoin [ofs_mergedDir ofs, path])"

definition path_err :: "os_error + 'a \<Rightarrow> ofs_error + 'a" where
  "path_err r = (case r of Inl e \<Rightarrow> Inl (PathError e) | Inr x \<Rightarrow> Inr x)"

text \<open>A recursive removal that fails may have removed a part.\<close>

definition RemoveFile ::
  "(string list \<Rightarrow> bool) \<Rightarrow> fake_fs \<Rightarrow> string \<Rightarrow> bool \<Rightarrow> fsys \<Rightarrow> ofs_error option \<times> fsys" where
  "RemoveFile busy ofs path recursive d =
     (if \<not> insideMerged ofs path then (Some OutsideRoot, d)
      else if recursive
      then (case os_remove_all busy d (host_path ofs path) of (e, d') \<Rightarrow> (map_option PathError e, d'))
      else (case os_remove busy d (host_path ofs path) of
              Inl e \<Rightarrow> (Some (PathError e), d)
            | Inr d' \<Rightarrow> (None, d')))"

definition FS_Mkdir :: "fake_fs \<Rightarrow> string \<Rightarrow> fsys \<Rightarrow> ofs_error + fsys" where
  "FS_Mkdir ofs path d =
     (if \<not> insideMerged ofs path then Inl OutsideRoot
      else path_err (os_mkdir d (host_path ofs path)))"

definition FS_MkdirAll :: "fake_fs \<Rightarrow> string \<Rightarrow> fsys \<Rightarrow> ofs_error + fsys" where
  "FS_MkdirAll ofs path d =
     (if \<not> insideMerged ofs path then Inl OutsideRoot
      else path_err (os_mkdir_all d (host_path ofs path)))"

text \<open>\<^verbatim>\<open>_ = op(...)\<close>: the error is dropped, a failed operation leaves the disk as it was.\<close>

definition ignore_err :: "('e + fsys) \<Rightarrow> fsys \<Rightarrow> fsys" where
  "ignore_err r d = (case r of Inl _ \<Rightarrow> d | Inr d' \<Rightarrow> d')"

text \<open>\<^verbatim>\<open>OpenFile\<close> creates the parent directories first. The handle is the host path; the disk may have
  changed even when opening fails. \<open>creat\<close> and \<open>wr\<close> are the flags \<^verbatim>\<open>O_CREATE\<close> and \<^verbatim>\<open>O_RDWR\<close>.\<close>

definition OpenFile ::
  "fake_fs \<Rightarrow> string \<Rightarrow> bool \<Rightarrow> bool \<Rightarrow> fsys \<Rightarrow> (ofs_error + string list) \<times> fsys" where
  "OpenFile ofs path creat wr d =
     (if \<not> insideMerged ofs path then (Inl OutsideRoot, d)
      else let d1 = ignore_err (FS_MkdirAll ofs (Dir path) d) d
           in case os_open d1 (host_path ofs path) creat wr of
                Inl e \<Rightarrow> (Inl (PathError e), d1)
              | Inr d2 \<Rightarrow> (Inr (host_path ofs path), d2))"

definition FS_DirExists :: "(fsys \<Rightarrow> string \<Rightarrow> bool) \<Rightarrow> fake_fs \<Rightarrow> fsys \<Rightarrow> string \<Rightarrow> bool" where
  "FS_DirExists dirExists ofs d path =
     (if \<not> insideMerged ofs path then False
      else dirExists d (PathJoin [ofs_mergedDir ofs, path]))"

definition FS_FileExists :: "(fsys \<Rightarrow> string \<Rightarrow> bool) \<Rightarrow> fake_fs \<Rightarrow> fsys \<Rightarrow> string \<Rightarrow> bool" where
  "FS_FileExists fileExists ofs d path =
     (if \<not> insideMerged ofs path then False
      else fileExists d (PathJoin [ofs_mergedDir ofs, path]))"

definition FS_ReadDir :: "fake_fs \<Rightarrow> fsys \<Rightarrow> string \<Rightarrow> ofs_error + string list" where
  "FS_ReadDir ofs d path =
     (if \<not> insideMerged ofs path then Inl OutsideRoot
      else path_err (os_read_dir d (host_path ofs path)))"

section \<open>What insideMerged admits\<close>

definition merged :: "fake_fs \<Rightarrow> string list" where
  "merged ofs = path_comps (ofs_mergedDir ofs)"

text \<open>The paths that pass: the merged directory, what is below it, and everything whose path string
  starts like it, that is, siblings whose names continue the name of the merged directory.\<close>

definition reach :: "fake_fs \<Rightarrow> string list \<Rightarrow> bool" where
  "reach ofs q \<longleftrightarrow>
     (let m = merged ofs
      in length m \<le> length q \<and> take (length m - 1) q = butlast m \<and>
         prefix (last m) (q ! (length m - 1)))"

definition fs_rooted :: "fake_fs \<Rightarrow> bool" where
  "fs_rooted ofs \<longleftrightarrow> IsAbs (ofs_mergedDir ofs) \<and> merged ofs \<noteq> []"

lemma reach_iff:
  assumes "merged ofs \<noteq> []"
  shows "reach ofs q \<longleftrightarrow> (\<exists>suf rest. q = butlast (merged ofs) @ (last (merged ofs) @ suf) # rest)"
    (is "?L \<longleftrightarrow> ?R")
proof
  assume l: ?L
  let ?n = "length (merged ofs) - 1"
  have n: "?n < length q" using l assms by (simp add: reach_def Let_def) (cases "merged ofs"; simp)
  obtain suf where "q ! ?n = last (merged ofs) @ suf"
    using l by (auto simp: reach_def Let_def prefix_def)
  with l n show ?R
    using id_take_nth_drop [OF n] by (auto simp: reach_def Let_def)
next
  assume ?R
  then obtain suf rest where q: "q = butlast (merged ofs) @ (last (merged ofs) @ suf) # rest" by auto
  have "length (merged ofs) = Suc (length (butlast (merged ofs)))"
    using assms by (cases "merged ofs") simp_all
  then show ?L unfolding q by (simp add: reach_def Let_def nth_append)
qed

lemma reach_below: "merged ofs \<noteq> [] \<Longrightarrow> reach ofs (merged ofs @ q)"
  using append_butlast_last_id [of "merged ofs"] reach_iff
  by (metis append.assoc append_Cons append_Nil append_Nil2)

lemma reach_not_prefix:
  assumes "merged ofs \<noteq> []" and "reach ofs q" and "prefix p q" and "\<not> reach ofs p"
  shows "strict_prefix p (merged ofs)"
proof -
  obtain suf rest where q: "q = butlast (merged ofs) @ (last (merged ofs) @ suf) # rest"
    using assms(1,2) reach_iff by blast
  have "prefix p (butlast (merged ofs))"
  proof (rule ccontr)
    assume np: "\<not> prefix p (butlast (merged ofs))"
    then obtain r where "p = butlast (merged ofs) @ (last (merged ofs) @ suf) # r"
      using assms(3) unfolding q by (auto simp: prefix_append prefix_Cons)
    with assms(1,4) reach_iff show False by blast
  qed
  moreover have "strict_prefix (butlast (merged ofs)) (merged ofs)"
    using assms(1) by (metis append_butlast_last_id strict_prefixI' )
  ultimately show ?thesis by (rule prefix_order.le_less_trans)
qed

lemma host_path_eq:
  "IsAbs (ofs_mergedDir ofs) \<Longrightarrow> host_path ofs path =
     rev (fold (clean_step True) (Split (CHR ''/'') path) (rev (merged ofs)))"
  by (simp add: host_path_def path_comps_PathJoin_abs merged_def)

lemma host_path_proper: "IsAbs (ofs_mergedDir ofs) \<Longrightarrow> list_all proper_comp (host_path ofs path)"
  unfolding host_path_def by (intro path_comps_proper PathJoin_abs(2))

lemma insideMerged_reach:
  assumes "fs_rooted ofs"
  shows "insideMerged ofs path \<longleftrightarrow> reach ofs (host_path ofs path)"
proof -
  have a: "IsAbs (ofs_mergedDir ofs)" and ne: "merged ofs \<noteq> []"
    using assms by (auto simp: fs_rooted_def)
  let ?M = "unsplit True (merged ofs)"
  have m: "Abs ''/'' (ofs_mergedDir ofs) = ?M"
    using a by (simp add: Abs_def Clean_unsplit merged_def)
  have pm: "list_all proper_comp (merged ofs)"
    using a by (simp add: merged_def path_comps_proper)
  then have c: "path_comps ?M = merged ofs" by (simp add: path_comps_unsplit)
  have "Abs ''/'' (PathJoin [?M, path]) = PathJoin [?M, path]"
    by (simp add: Abs_def PathJoin_abs(2) Clean_PathJoin_abs)
  also have "\<dots> = unsplit True (host_path ofs path)"
    using a by (simp add: PathJoin_abs(1) c host_path_eq)
  finally have "insideMerged ofs path \<longleftrightarrow> HasPrefix (unsplit True (host_path ofs path)) ?M"
    by (simp add: insideMerged_def m)
  also have "\<dots> \<longleftrightarrow> reach ofs (host_path ofs path)"
    using unsplit_prefix [OF host_path_proper [OF a] pm ne] reach_iff [OF ne] by simp
  finally show ?thesis .
qed

text \<open>A cleaned absolute path stays below the merged directory.\<close>

lemma host_path_clean:
  assumes "fs_rooted ofs" and "list_all proper_comp cs"
  shows "host_path ofs (unsplit True cs) = merged ofs @ cs"
proof -
  have s: "\<forall>x \<in> set cs. CHR ''/'' \<notin> set x"
    using assms(2) by (auto simp: list_all_iff proper_comp_def)
  have "fold (clean_step True) (Split (CHR ''/'') (unsplit True cs)) st = rev cs @ st" for st
    using s assms(2)
    by (cases "cs = []") (simp_all add: unsplit_def Split_Join fold_clean_step_id)
  with assms(1) show ?thesis by (simp add: host_path_eq fs_rooted_def)
qed

section \<open>Confinement of the operations\<close>

text \<open>The interface of an operation that works inside a part of the file system: it keeps the state
  ready for the next operation and leaves everything outside as it is.\<close>

locale confined =
  fixes ready :: "'d \<Rightarrow> bool"
    and look :: "'d \<Rightarrow> 'k \<Rightarrow> 'v"
    and inside :: "'k \<Rightarrow> bool"
    and act :: "'a \<Rightarrow> 'd \<Rightarrow> 'd"
  assumes keeps: "ready d \<Longrightarrow> ready (act a d)"
    and frame: "ready d \<Longrightarrow> \<not> inside q \<Longrightarrow> look (act a d) q = look d q"
begin

lemma keeps_all: "ready d \<Longrightarrow> ready (fold act xs d)"
  by (induction xs arbitrary: d) (simp_all add: keeps)

lemma frame_all: "ready d \<Longrightarrow> \<not> inside q \<Longrightarrow> look (fold act xs d) q = look d q"
  by (induction xs arbitrary: d) (simp_all add: keeps frame)

end

definition fs_ready :: "fake_fs \<Rightarrow> fsys \<Rightarrow> bool" where
  "fs_ready ofs d \<longleftrightarrow> fs_rooted ofs \<and> fs_wf d \<and> fs_get d (merged ofs) = Some DirN"

text \<open>What one step may do to the disk.\<close>

definition stays :: "fake_fs \<Rightarrow> fsys \<Rightarrow> fsys \<Rightarrow> bool" where
  "stays ofs d d' \<longleftrightarrow> fs_ready ofs d' \<and> (\<forall>q. \<not> reach ofs q \<longrightarrow> fs_get d' q = fs_get d q)"

lemma stays_refl [simp]: "fs_ready ofs d \<Longrightarrow> stays ofs d d"
  by (simp add: stays_def)

lemma stays_trans [trans]: "stays ofs d d1 \<Longrightarrow> stays ofs d1 d2 \<Longrightarrow> stays ofs d d2"
  by (simp add: stays_def)

lemma stays_ready: "stays ofs d d' \<Longrightarrow> fs_ready ofs d'"
  by (simp add: stays_def)

text \<open>An operation that changes one path within reach.\<close>

lemma stays_at:
  assumes "fs_ready ofs d" and "reach ofs h" and "fs_wf d'" and "fs_get d' (merged ofs) = Some DirN"
    and "\<And>q. q \<noteq> h \<Longrightarrow> fs_get d' q = fs_get d q"
  shows "stays ofs d d'"
proof -
  have "fs_get d' q = fs_get d q" if "\<not> reach ofs q" for q
    using assms(2,5) that by (cases "q = h") auto
  with assms(1,3,4) show ?thesis by (simp add: stays_def fs_ready_def)
qed

lemma mkdir_all_stays:
  assumes "fs_ready ofs d" and "reach ofs p" and "os_mkdir_all d p = Inr d'"
  shows "stays ofs d d'"
proof -
  have wf: "fs_wf d" and m: "fs_get d (merged ofs) = Some DirN" and ne: "merged ofs \<noteq> []"
    using assms(1) by (auto simp: fs_ready_def fs_rooted_def)
  have "fs_get d' q = fs_get d q" if nq: "\<not> reach ofs q" for q
  proof (rule ccontr)
    assume "fs_get d' q \<noteq> fs_get d q"
    then have q: "prefix q p" "fs_get d q = None"
      using os_mkdir_all_frame [OF assms(3)] by blast+
    from reach_not_prefix [OF ne assms(2) q(1) nq] have "fs_get d q = Some DirN"
      using fs_wf_ancestors [OF wf] m by auto
    with q(2) show False by simp
  qed
  moreover have "fs_get d' (merged ofs) = Some DirN"
    using os_mkdir_all_frame [OF assms(3), of "merged ofs"] m
    by (cases "fs_get d' (merged ofs) = fs_get d (merged ofs)") auto
  ultimately show ?thesis
    using assms(1) os_mkdir_all_wf [OF assms(3) wf] by (simp add: stays_def fs_ready_def)
qed

lemma FS_MkdirAll_stays:
  assumes "fs_ready ofs d" shows "stays ofs d (ignore_err (FS_MkdirAll ofs path d) d)"
  using assms mkdir_all_stays [OF assms]
  by (auto simp: ignore_err_def FS_MkdirAll_def path_err_def insideMerged_reach fs_ready_def
      split: sum.splits)

lemma FS_Mkdir_stays:
  assumes "fs_ready ofs d" shows "stays ofs d (ignore_err (FS_Mkdir ofs path d) d)"
proof (cases "FS_Mkdir ofs path d")
  case (Inr d')
  then have "insideMerged ofs path" and m: "os_mkdir d (host_path ofs path) = Inr d'"
    by (auto simp: FS_Mkdir_def path_err_def split: if_splits sum.splits)
  with assms have "reach ofs (host_path ofs path)" by (simp add: insideMerged_reach fs_ready_def)
  with m assms os_mkdir_wf [OF m] show ?thesis
    by (auto simp: stays_def fs_ready_def Inr ignore_err_def os_mkdir_frame [OF m])
qed (simp add: ignore_err_def assms)

lemma reach_extends: "merged ofs \<noteq> [] \<Longrightarrow> reach ofs p \<Longrightarrow> prefix p q \<Longrightarrow> reach ofs q"
  using reach_iff by (auto simp: prefix_def)

lemma RemoveFile_stays:
  assumes "fs_ready ofs d" and "busy (merged ofs)"
  shows "stays ofs d (snd (RemoveFile busy ofs path recursive d))"
proof (cases "insideMerged ofs path")
  case False
  with assms(1) show ?thesis by (simp add: RemoveFile_def)
next
  case True
  let ?h = "host_path ofs path"
  have wf: "fs_wf d" and ne: "merged ofs \<noteq> []" and m: "fs_get d (merged ofs) = Some DirN"
    using assms(1) by (auto simp: fs_ready_def fs_rooted_def)
  have reach: "reach ofs ?h" using True assms(1) by (simp add: insideMerged_reach fs_ready_def)
  show ?thesis
  proof (cases recursive)
    case True
    obtain e d' where r: "os_remove_all busy d ?h = (e, d')" by (meson surj_pair)
    note fr = os_remove_all_frame [OF r]
    have "merged ofs \<in> set (gm_keys d)"
      using m ne by (auto simp: fs_get_def set_gm_keys gm_has_def)
    then have "holds_mount busy d (merged ofs)" using assms(2) by (auto simp: holds_mount_def)
    with fr [of "merged ofs"] m have "fs_get d' (merged ofs) = Some DirN" by simp
    moreover have "fs_get d' q = fs_get d q" if "\<not> reach ofs q" for q
      using that fr [of q] reach_extends [OF ne reach, of q] by auto
    ultimately show ?thesis
      using True \<open>insideMerged ofs path\<close> r assms(1) os_remove_all_wf [OF r wf]
      by (simp add: RemoveFile_def stays_def fs_ready_def)
  next
    case False
    show ?thesis
    proof (cases "os_remove busy d ?h")
      case (Inr d')
      note fr = os_remove_frame [OF Inr wf]
      have "merged ofs \<noteq> ?h" using fr assms(2) by auto
      with fr reach assms(1) os_remove_wf [OF Inr wf] False Inr True show ?thesis
        by (auto simp: RemoveFile_def stays_def fs_ready_def)
    qed (use False True assms(1) in \<open>simp add: RemoveFile_def\<close>)
  qed
qed

lemma OpenFile_stays:
  assumes "fs_ready ofs d"
  shows "stays ofs d (snd (OpenFile ofs path creat wr d))"
    and "fst (OpenFile ofs path creat wr d) = Inr h \<Longrightarrow> reach ofs h"
proof -
  let ?d1 = "ignore_err (FS_MkdirAll ofs (Dir path) d) d"
  have d1: "stays ofs d ?d1" by (rule FS_MkdirAll_stays [OF assms])
  show "stays ofs d (snd (OpenFile ofs path creat wr d))"
  proof (cases "os_open ?d1 (host_path ofs path) creat wr")
    case (Inl e)
    with assms d1 show ?thesis by (simp add: OpenFile_def Let_def)
  next
    case (Inr d2)
    have "stays ofs ?d1 d2" if "insideMerged ofs path"
    proof -
      have "reach ofs (host_path ofs path)"
        using that assms by (simp add: insideMerged_reach fs_ready_def)
      then show ?thesis
        using os_open_frame [OF Inr] os_open_dirs [OF Inr] os_open_wf [OF Inr] stays_ready [OF d1]
        by (intro stays_at) (auto simp: fs_ready_def)
    qed
    with Inr assms d1 show ?thesis by (auto simp: OpenFile_def Let_def intro: stays_trans)
  qed
  show "fst (OpenFile ofs path creat wr d) = Inr h \<Longrightarrow> reach ofs h"
    using assms
    by (auto simp: OpenFile_def Let_def insideMerged_reach fs_ready_def split: if_splits sum.splits)
qed

lemma overwrite_stays:
  assumes "fs_ready ofs d" and "reach ofs h"
  shows "stays ofs d (os_overwrite d h s)"
  using assms os_overwrite_frame os_overwrite_dirs os_overwrite_wf
  by (intro stays_at [of _ _ h]) (auto simp: fs_ready_def)

text \<open>The calls that change something; an upload opens the file for writing and writes to the handle.\<close>

datatype fs_call =
    Call_Remove string bool
  | Call_Open string bool bool
  | Call_Mkdir string
  | Call_MkdirAll string
  | Call_Upload string string

fun fs_act :: "(string list \<Rightarrow> bool) \<Rightarrow> fake_fs \<Rightarrow> fs_call \<Rightarrow> fsys \<Rightarrow> fsys" where
  "fs_act busy ofs (Call_Remove p recursive) d = snd (RemoveFile busy ofs p recursive d)"
| "fs_act busy ofs (Call_Open p creat wr) d = snd (OpenFile ofs p creat wr d)"
| "fs_act busy ofs (Call_Mkdir p) d = ignore_err (FS_Mkdir ofs p d) d"
| "fs_act busy ofs (Call_MkdirAll p) d = ignore_err (FS_MkdirAll ofs p d) d"
| "fs_act busy ofs (Call_Upload p s) d =
     (case OpenFile ofs p True True d of
        (Inl e, d1) \<Rightarrow> d1
      | (Inr h, d1) \<Rightarrow> os_overwrite d1 h s)"

lemma fs_act_stays:
  assumes "fs_ready ofs d" and "busy (merged ofs)"
  shows "stays ofs d (fs_act busy ofs c d)"
proof (cases c)
  case (Call_Upload p s)
  note o = OpenFile_stays [OF assms(1), of p True True]
  show ?thesis
  proof (cases "OpenFile ofs p True True d")
    case (Pair r d1)
    then show ?thesis
      using Call_Upload o overwrite_stays [of ofs d1 _ s] stays_ready
      by (cases r) (auto intro: stays_trans)
  qed
qed (use assms RemoveFile_stays OpenFile_stays FS_Mkdir_stays FS_MkdirAll_stays in simp_all)

interpretation fs_calls: confined "\<lambda>d. fs_ready ofs d \<and> busy (merged ofs)" fs_get "reach ofs"
    "fs_act busy ofs" for ofs busy
proof (unfold_locales, goal_cases)
  case (1 d a)
  then show ?case using fs_act_stays stays_ready by blast
next
  case (2 d q a)
  then show ?case using fs_act_stays [of ofs d busy a] by (simp add: stays_def)
qed

text \<open>What the kernel keeps the changes of the merged directory in.\<close>

definition in_layers :: "fake_fs \<Rightarrow> string list \<Rightarrow> bool" where
  "in_layers ofs q \<longleftrightarrow> prefix (path_comps (ofs_upperDir ofs)) q \<or> prefix (path_comps (ofs_workDir ofs)) q"

text \<open>C18. The guard of the fake file system lets a path pass exactly when its host path is the merged
  directory, below it, or a sibling whose name continues the name of the merged directory. Whatever
  sequence of removals (recursive or not), openings, new directories and uploads runs, the merged
  directory stays, and so does every other path of the host, apart from the upper and the work
  directory, where the overlay file system keeps the changes. A path that is rejected is neither
  opened, nor removed, nor made, nor listed, nor seen.\<close>

theorem file_calls_confined:
  assumes "fs_ready ofs d" and "busy (merged ofs)"
  shows "(insideMerged ofs path \<longleftrightarrow> reach ofs (host_path ofs path)) \<and>
    fs_ready ofs (fold (fs_act busy ofs) calls d) \<and>
    (\<not> reach ofs q \<and> \<not> in_layers ofs q \<longrightarrow> fs_get (fold (fs_act busy ofs) calls d) q = fs_get d q) \<and>
    (\<not> reach ofs (host_path ofs path) \<longrightarrow>
      OpenFile ofs path creat wr d = (Inl OutsideRoot, d) \<and>
      RemoveFile busy ofs path recursive d = (Some OutsideRoot, d) \<and>
      FS_Mkdir ofs path d = Inl OutsideRoot \<and> FS_MkdirAll ofs path d = Inl OutsideRoot \<and>
      FS_ReadDir ofs d path = Inl OutsideRoot \<and>
      \<not> FS_DirExists dirExists ofs d path \<and> \<not> FS_FileExists fileExists ofs d path)"
proof -
  have "insideMerged ofs path \<longleftrightarrow> reach ofs (host_path ofs path)"
    using assms(1) by (simp add: insideMerged_reach fs_ready_def)
  moreover have "\<not> reach ofs q \<longrightarrow> fs_get (fold (fs_act busy ofs) calls d) q = fs_get d q"
    using assms by (simp add: fs_calls.frame_all)
  moreover have "fs_ready ofs (fold (fs_act busy ofs) calls d)"
    using fs_calls.keeps_all [of ofs d busy calls] assms by simp
  ultimately show ?thesis
    by (simp add: OpenFile_def RemoveFile_def FS_Mkdir_def FS_MkdirAll_def FS_ReadDir_def
        FS_DirExists_def FS_FileExists_def)
qed

definition sample_fs :: fake_fs where
  "sample_fs =
     \<lparr>ofs_mergedDir = ''/ffs/1/merge-data'', ofs_upperDir = ''/ffs/1/layers/data'',
      ofs_workDir = ''/ffs/1/work-data'', ofs_lowerDirs = [''/ffs/defaultfs'']\<rparr>"

definition sample_fs_disk :: fsys where
  "sample_fs_disk =
     [([''ffs''], DirN), ([''ffs'', ''1''], DirN), ([''ffs'', ''1'', ''merge-data''], DirN),
      ([''ffs'', ''1'', ''merge-data'', ''home''], DirN)]"

lemma sample_merged: "merged sample_fs = [''ffs'', ''1'', ''merge-data'']"
  unfolding merged_def sample_fs_def by code_simp

lemma fs_wf_check:
  assumes "gm_inv fs \<and> \<not> gm_has [] fs \<and> (\<forall>p \<in> set (gm_keys fs). fs_get fs (butlast p) = Some DirN)"
  shows "fs_wf fs"
proof -
  have "p \<in> set (gm_keys fs)" if "p \<noteq> []" "fs_get fs p \<noteq> None" for p
    using that by (simp add: fs_get_def set_gm_keys gm_has_def)
  with assms show ?thesis unfolding fs_wf_def by blast
qed

lemma sample_fs_ready: "fs_ready sample_fs sample_fs_disk"
proof -
  have "fs_wf sample_fs_disk"
    by (rule fs_wf_check) (unfold sample_fs_disk_def, code_simp)
  moreover have "fs_get sample_fs_disk (merged sample_fs) = Some DirN"
    unfolding sample_merged sample_fs_disk_def by code_simp
  ultimately show ?thesis
    by (simp add: fs_ready_def fs_rooted_def sample_merged) (simp add: sample_fs_def)
qed

theorem file_calls_confined_witness:
  "fs_get (fold (fs_act (\<lambda>p. p = merged sample_fs) sample_fs) [Call_Remove ''/'' True, Call_Upload ''/../x'' ''a'']
     sample_fs_disk) [''ffs'', ''1'', ''x''] = None"
proof -
  have "\<not> reach sample_fs [''ffs'', ''1'', ''x'']"
    unfolding reach_def sample_merged by code_simp
  moreover have "\<not> in_layers sample_fs [''ffs'', ''1'', ''x'']"
    unfolding in_layers_def sample_fs_def by code_simp
  moreover have "fs_get sample_fs_disk [''ffs'', ''1'', ''x''] = None"
    unfolding sample_fs_disk_def by code_simp
  ultimately show ?thesis
    using file_calls_confined [OF sample_fs_ready, where busy = "\<lambda>p. p = merged sample_fs" and
        q = "[''ffs'', ''1'', ''x'']" and calls = "[Call_Remove ''/'' True, Call_Upload ''/../x'' ''a'']"]
    by (simp del: fold.simps fs_act.simps)
qed

section \<open>Installing the default file system\<close>

text \<open>What \<^verbatim>\<open>go:embed\<close> and \<^verbatim>\<open>fs.WalkDir\<close> guarantee of the entries: proper relative paths, each once,
  every directory before its contents.\<close>

definition emb_comps :: "string \<Rightarrow> string list" where
  "emb_comps p = Split (CHR ''/'') (TrimPrefix p ''ffs/'')"

fun emb_ok :: "string list list \<Rightarrow> string list list \<Rightarrow> (string \<times> node) list \<Rightarrow> bool" where
  "emb_ok dirs seen [] = True"
| "emb_ok dirs seen ((p, n) # es) =
     (if HasPrefix p ''ffs/'' then
        list_all proper_comp (emb_comps p) \<and> emb_comps p \<notin> set seen \<and>
        butlast (emb_comps p) \<in> set dirs \<and>
        emb_ok (if n = DirN then emb_comps p # dirs else dirs) (emb_comps p # seen) es
      else emb_ok dirs seen es)"

definition installed :: "string list \<Rightarrow> (string \<times> node) list \<Rightarrow> (string list, node) gomap" where
  "installed D es = map (\<lambda>(p, n). (D @ emb_comps p, n)) (filter (\<lambda>(p, n). HasPrefix p ''ffs/'') es)"

lemma emb_comps_nonempty [simp]: "emb_comps p \<noteq> []"
  by (simp add: emb_comps_def)

lemma emb_target:
  assumes "IsAbs dst" and "list_all proper_comp (emb_comps p)"
  shows "path_comps (PathJoin [dst, TrimPrefix p ''ffs/'']) = path_comps dst @ emb_comps p"
  using assms by (simp add: path_comps_PathJoin_abs emb_comps_def fold_clean_step_id)

lemma walk_child:
  assumes "fs_wf d" and "p \<noteq> []" and "fs_get d (butlast p) = Some DirN"
  shows "walk d [] p = None"
proof -
  have "fs_get d q = Some DirN" if "strict_prefix q p" for q
  proof -
    have "prefix q (butlast p)"
      using that assms(2) by (metis append_butlast_last_id prefix_snoc strict_prefix_def)
    then show ?thesis
      using assms(3) fs_wf_ancestors [OF assms(1), of "butlast p" q] by (cases "q = butlast p") auto
  qed
  then show ?thesis by (simp add: walk_None_iff)
qed

lemma installed_simps [simp]:
  "installed D [] = []"
  "installed D ((p, n) # es) =
     (if HasPrefix p ''ffs/'' then (D @ emb_comps p, n) # installed D es else installed D es)"
  by (simp_all add: installed_def)

lemma installed_seen: "emb_ok dirs seen es \<Longrightarrow> cs \<in> set seen \<Longrightarrow> map_of (installed D es) (D @ cs) = None"
  by (induction dirs seen es rule: emb_ok.induct) (auto split: if_splits)

text \<open>One entry: the directory is made, or the file written, at its place.\<close>

lemma copy_one:
  assumes "fs_wf d" and "t \<noteq> []" and "fs_get d t = None" and "fs_get d (butlast t) = Some DirN"
  obtains d' where
    "(case n of DirN \<Rightarrow> os_mkdir d t | FileN content \<Rightarrow> os_write_file d t content) = Inr d'"
    and "fs_wf d'" and "\<And>q. fs_get d' q = (if q = t then Some n else fs_get d q)"
proof (cases n)
  case DirN
  have "os_mkdir d t = Inr (fs_put t DirN d)"
    using assms walk_child [OF assms(1,2,4)] by (simp add: os_mkdir_def)
  with DirN that assms show thesis by (auto intro!: fs_wf_put)
next
  case (FileN s)
  have "writable d t" using assms walk_child [OF assms(1,2,4)] by (simp add: writable_def)
  then obtain d' where w: "os_write_file d t s = Inr d'" using os_write_file_iff by metis
  with FileN that os_write_file_get [OF w] os_write_file_wf [OF w assms(1)] show thesis by auto
qed

lemma copy_embedded_installs:
  assumes "IsAbs dst" and "fs_wf d" and "emb_ok dirs seen es"
    and "\<forall>cs \<in> set dirs. fs_get d (path_comps dst @ cs) = Some DirN"
    and "\<forall>cs. cs \<noteq> [] \<and> cs \<notin> set seen \<longrightarrow> fs_get d (path_comps dst @ cs) = None"
  shows "\<exists>d'. copy_embedded dst es d = (None, d') \<and> fs_wf d' \<and>
    (\<forall>q. fs_get d' q = (case map_of (installed (path_comps dst) es) q of
                          Some n \<Rightarrow> Some n | None \<Rightarrow> fs_get d q))"
  using assms(2-)
proof (induction dirs seen es arbitrary: d rule: emb_ok.induct)
  case (1 dirs seen)
  then show ?case by simp
next
  case (2 dirs seen p n es)
  show ?case
  proof (cases "HasPrefix p ''ffs/''")
    case True
    let ?cs = "emb_comps p" and ?D = "path_comps dst"
    have e: "list_all proper_comp ?cs" "?cs \<notin> set seen" "butlast ?cs \<in> set dirs"
      "emb_ok (if n = DirN then ?cs # dirs else dirs) (?cs # seen) es"
      using "2.prems"(2) True by simp_all
    obtain d1 where d1: "(case n of DirN \<Rightarrow> os_mkdir d (?D @ ?cs)
        | FileN content \<Rightarrow> os_write_file d (?D @ ?cs) content) = Inr d1" "fs_wf d1"
      "\<And>q. fs_get d1 q = (if q = ?D @ ?cs then Some n else fs_get d q)"
      using copy_one [of d "?D @ ?cs" n] "2.prems" e by (auto simp: butlast_append)
    have "\<forall>cs \<in> set (if n = DirN then ?cs # dirs else dirs). fs_get d1 (?D @ cs) = Some DirN"
      using "2.prems"(3) "2.prems"(4) d1(3) e(2) by auto
    moreover have "\<forall>cs. cs \<noteq> [] \<and> cs \<notin> set (?cs # seen) \<longrightarrow> fs_get d1 (?D @ cs) = None"
      using "2.prems"(4) d1(3) by auto
    ultimately obtain d' where d': "copy_embedded dst es d1 = (None, d')" "fs_wf d'"
      "\<forall>q. fs_get d' q = (case map_of (installed ?D es) q of Some n \<Rightarrow> Some n | None \<Rightarrow> fs_get d1 q)"
      using "2.IH"(1) [OF True d1(2) e(4)] by blast
    have "map_of (installed ?D es) (?D @ ?cs) = None"
      by (rule installed_seen [OF e(4)]) simp
    with d' d1(1,3) True show ?thesis
      by (simp add: emb_target [OF assms(1) e(1)]) (auto split: option.splits)
  next
    case False
    with 2 show ?thesis by simp
  qed
qed

lemma os_is_dir_iff: "fs_wf d \<Longrightarrow> os_is_dir d p \<longleftrightarrow> fs_get d p = Some DirN"
proof (cases "p = []")
  case False
  assume wf: "fs_wf d"
  have "walk d [] p = None" if "fs_get d p = Some DirN"
    using walk_child [OF wf False] wf that False by (simp add: fs_wf_def)
  then show ?thesis
    by (auto simp: os_is_dir_def os_stat_def split: option.splits)
qed (simp add: os_is_dir_def os_stat_def)

lemma ensure_dir_new:
  assumes "dir_exists_ok dirExists" and "fs_wf d" and "path_comps p = t" and "t \<noteq> []"
    and "fs_get d t = None" and "fs_get d (butlast t) = Some DirN"
  shows "ensure_dir dirExists msg p d = (None, fs_put t DirN d)" and "fs_wf (fs_put t DirN d)"
proof -
  have "\<not> dirExists d p" using assms by (simp add: dir_exists_ok_def os_is_dir_iff)
  moreover have "os_mkdir d t = Inr (fs_put t DirN d)"
    using assms walk_child [OF assms(2,4,6)] by (simp add: os_mkdir_def)
  ultimately show "ensure_dir dirExists msg p d = (None, fs_put t DirN d)"
    using assms(3) by (simp add: ensure_dir_def)
  show "fs_wf (fs_put t DirN d)" using assms by (intro fs_wf_put) auto
qed

lemma ensure_dir_old:
  "dir_exists_ok dirExists \<Longrightarrow> fs_wf d \<Longrightarrow> fs_get d (path_comps p) = Some DirN \<Longrightarrow>
     ensure_dir dirExists msg p d = (None, d)"
  "dir_exists_ok dirExists \<Longrightarrow> fs_wf d \<Longrightarrow> fs_get d (path_comps p) = Some DirN \<Longrightarrow>
     install_defaultfs dirExists embedded p d = (None, d)"
  by (simp_all add: ensure_dir_def install_defaultfs_def dir_exists_ok_def os_is_dir_iff)

lemma path_comps_Join_name:
  "IsAbs base \<Longrightarrow> proper_comp x \<Longrightarrow> path_comps (PathJoin [base, x]) = path_comps base @ [x]"
  by (simp add: path_comps_PathJoin_abs proper_comp_def Split_no_sep fold_clean_step_id)
    (simp add: clean_step_def)

text \<open>C25. On a disk without the base directory, but with its parent, \<^verbatim>\<open>Init\<close> creates it, the directory of the sandboxes and
  the default file system with exactly the embedded files and directories, contents included, and
  touches nothing else; a later \<^verbatim>\<open>Init\<close> changes nothing, whatever has been embedded by then.\<close>

theorem Init_installs:
  assumes "dir_exists_ok dirExists" and "IsAbs baseDir" and "fs_wf d"
    and "b = path_comps baseDir" and "b \<noteq> []" and "fs_get d (butlast b) = Some DirN"
    and "fs_get d b = None" and "emb_ok [[]] [] embedded"
  shows "\<exists>m d'. Init dirExists embedded baseDir d = (Inr m, d') \<and> fs_wf d' \<and>
    (\<forall>q. fs_get d' q =
       (if q \<in> {b, b @ [''defaultfs''], b @ [''sandboxes'']} then Some DirN
        else case map_of (installed (b @ [''defaultfs'']) embedded) q of
               Some n \<Rightarrow> Some n | None \<Rightarrow> fs_get d q)) \<and>
    (\<forall>embedded'. Init dirExists embedded' baseDir d' = (Inr m, d'))"
proof -
  let ?D = "b @ [''defaultfs'']" and ?S = "b @ [''sandboxes'']"
  let ?pd = "PathJoin [baseDir, ''defaultfs'']" and ?ps = "PathJoin [baseDir, ''sandboxes'']"
  have D: "path_comps ?pd = ?D" and S: "path_comps ?ps = ?S"
    using assms(2,4) by (simp_all add: path_comps_Join_name proper_comp_def)
  have none: "fs_get d (b @ q) = None" for q
  proof (rule ccontr)
    assume "fs_get d (b @ q) \<noteq> None"
    then have "q \<noteq> [] \<longrightarrow> fs_get d b = Some DirN"
      using fs_wf_ancestors [OF assms(3), of "b @ q" b] by (auto simp: strict_prefix_def)
    with assms(7) \<open>fs_get d (b @ q) \<noteq> None\<close> show False by (cases "q = []") simp_all
  qed
  define d1 where "d1 = fs_put b DirN d"
  have 1: "ensure_dir dirExists ''can't make baseDir'' baseDir d = (None, d1)" "fs_wf d1"
    using ensure_dir_new [OF assms(1,3) assms(4) [symmetric] assms(5,7,6)] by (simp_all add: d1_def)
  have g1: "fs_get d1 (b @ q) = (if q = [] then Some DirN else None)" for q
    using none assms(5) by (simp add: d1_def)
  define d2 where "d2 = fs_put ?D DirN d1"
  have w2: "fs_wf d2" unfolding d2_def using 1(2) g1 [of "[]"] by (intro fs_wf_put) (simp_all add: butlast_append)
  have m2: "os_mkdir d1 ?D = Inr d2"
    using walk_child [OF 1(2), of ?D] g1 [of "[]"] g1 [of "[''defaultfs'']"]
    by (simp add: os_mkdir_def d2_def butlast_append)
  have g2: "fs_get d2 (b @ q) = (if q = [] \<or> q = [''defaultfs''] then Some DirN else None)" for q
    using g1 [of q] g1 [of "[]"] by (auto simp: d2_def)
  have ab: "IsAbs ?pd" using assms(2) by (simp add: PathJoin_abs(2))
  have "fs_get d2 (?D @ cs) = (if cs = [] then Some DirN else None)" for cs
    using g2 [of "''defaultfs'' # cs"] by simp
  then obtain d3 where d3: "copy_embedded ?pd embedded d2 = (None, d3)" "fs_wf d3"
    "\<forall>q. fs_get d3 q = (case map_of (installed ?D embedded) q of Some n \<Rightarrow> Some n | None \<Rightarrow> fs_get d2 q)"
    using copy_embedded_installs [OF ab w2 assms(8)] D by auto
  have "\<not> dirExists d1 ?pd"
    using assms(1) 1(2) g1 [of "[''defaultfs'']"] D by (simp add: dir_exists_ok_def os_is_dir_iff)
  then have 2: "install_defaultfs dirExists embedded ?pd d1 = (None, d3)"
    using m2 d3(1) D by (simp add: install_defaultfs_def)
  have far: "map_of (installed ?D embedded) q = None" if "\<not> strict_prefix ?D q" for q
    using that emb_comps_nonempty [symmetric]
    by (auto simp: map_of_eq_None_iff installed_def strict_prefix_def prefix_def)
  have b3: "fs_get d3 ?D = Some DirN" "fs_get d3 b = Some DirN" "fs_get d3 ?S = None"
    using d3(3) far [of ?D] far [of b] far [of ?S] g2 [of "[]"] g2 [of "[''defaultfs'']"]
      g2 [of "[''sandboxes'']"]
    by (simp_all add: strict_prefix_def prefix_def)
  define d4 where "d4 = fs_put ?S DirN d3"
  have 3: "ensure_dir dirExists ''can't make defaultfs dir'' ?ps d3 = (None, d4)" "fs_wf d4"
    using ensure_dir_new [OF assms(1) d3(2) S] b3 by (simp_all add: d4_def butlast_append)
  have g4: "fs_get d4 b = Some DirN" "fs_get d4 ?D = Some DirN" "fs_get d4 ?S = Some DirN"
    using b3 by (simp_all add: d4_def)
  let ?m = "\<lparr>fm_baseDir = baseDir, fm_activeOverlays = gm_empty, fm_overlays = gm_empty\<rparr>"
  have "Init dirExists embedded baseDir d = (Inr ?m, d4)"
    using 1(1) 2 3(1) by (simp add: Init_def)
  moreover have "Init dirExists e baseDir d4 = (Inr ?m, d4)" for e
    using assms(4) D S g4 by (simp add: Init_def ensure_dir_old assms(1) 3(2))
  moreover have "fs_get d4 q = (if q \<in> {b, ?D, ?S} then Some DirN
      else case map_of (installed ?D embedded) q of Some n \<Rightarrow> Some n | None \<Rightarrow> fs_get d q)" for q
    using g4 d3(3) far by (auto simp: d4_def d2_def d1_def split: option.splits)
  ultimately show ?thesis using 3(2) by blast
qed

definition sample_dir_exists :: "fsys \<Rightarrow> string \<Rightarrow> bool" where
  "sample_dir_exists d p = os_is_dir d (path_comps p)"

lemma sample_dir_exists_ok: "dir_exists_ok sample_dir_exists"
  by (simp add: dir_exists_ok_def sample_dir_exists_def)

definition sample_embedded :: "(string \<times> node) list" where
  "sample_embedded =
     [(''.'', DirN), (''ffs'', DirN), (''ffs/etc'', DirN), (''ffs/etc/motd'', FileN ''hi''),
      (''ffs/home'', DirN)]"

theorem Init_installs_witness:
  "\<exists>m d'. Init sample_dir_exists sample_embedded ''/ffs'' [] = (Inr m, d') \<and>
     fs_get d' [''ffs'', ''defaultfs'', ''etc'', ''motd''] = Some (FileN ''hi'')"
proof -
  have e: "emb_ok [[]] [] sample_embedded" unfolding sample_embedded_def by code_simp
  have c: "path_comps ''/ffs'' = [''ffs'']" by code_simp
  have i: "map_of (installed [''ffs'', ''defaultfs''] sample_embedded)
      [''ffs'', ''defaultfs'', ''etc'', ''motd''] = Some (FileN ''hi'')"
    unfolding sample_embedded_def by code_simp
  obtain m d' where "Init sample_dir_exists sample_embedded ''/ffs'' [] = (Inr m, d')"
    "\<forall>q. fs_get d' q = (if q \<in> {[''ffs''], [''ffs''] @ [''defaultfs''], [''ffs''] @ [''sandboxes'']}
       then Some DirN else case map_of (installed ([''ffs''] @ [''defaultfs'']) sample_embedded) q of
         Some n \<Rightarrow> Some n | None \<Rightarrow> fs_get [] q)"
    using Init_installs [OF sample_dir_exists_ok _ fs_wf_empty c [symmetric] _ _ _ e]
    by (auto simp: fs_get_def)
  then show ?thesis using i by (auto intro!: exI)
qed

end
