(* ===== verification/Recording.thy ===== *)
theory Recording
  imports Go_OS Complex_Main
begin

text \<open>
  \<^verbatim>\<open>utils/asciicastv2.go\<close> (session recordings) and \<^verbatim>\<open>utils/slow_writer.go\<close> (the rate-limited
  output of the fake shell). Instants are nanoseconds, event times are rationals where the code has
  \<^verbatim>\<open>float64\<close>. The JSON encoder and decoder are arguments, in one record. The token bucket of the
  slow writer only delays: what is written is appended to the output of the terminal.
\<close>

section \<open>State\<close>

record cast_theme =
  th_FG :: string
  th_BG :: string
  th_Palette :: string

record cast_header =
  ch_Version :: int
  ch_Width :: int
  ch_Height :: int
  ch_Timestamp :: int
  ch_Duration :: rat
  ch_IdleTimeLimit :: rat
  ch_Command :: string
  ch_Title :: string
  ch_Env :: "(string, string) gomap"
  ch_Theme :: cast_theme

record cast_event =
  ev_Time :: rat
  ev_Type :: string
  ev_Data :: string

record cast =
  ca_Header :: cast_header
  ca_EventStream :: "cast_event list"

text \<open>A decoded element of a JSON array.\<close>

datatype json_value = JNum rat | JStr string | JOther

text \<open>\<^verbatim>\<open>encoding/json\<close>: encoding a header or an event, decoding a line into a header (over the old
  one) or into an array; encoding fails with \<^term>\<open>None\<close>, decoding with the text of the error.\<close>

record json =
  js_header :: "cast_header \<Rightarrow> string option"
  js_event :: "json_value list \<Rightarrow> string option"
  ju_header :: "string \<Rightarrow> cast_header \<Rightarrow> string + cast_header"
  ju_event :: "string \<Rightarrow> string + json_value list"

section \<open>Rendering\<close>

definition header_String :: "json \<Rightarrow> cast_header \<Rightarrow> string" where
  "header_String js h = (case js_header js h of None \<Rightarrow> [] | Some s \<Rightarrow> s)"

definition event_String :: "json \<Rightarrow> cast_event \<Rightarrow> string" where
  "event_String js e =
     (if ev_Type e \<noteq> ''o'' \<and> ev_Type e \<noteq> ''i'' then []
      else case js_event js [JNum (ev_Time e), JStr (ev_Type e), JStr (ev_Data e)] of
             None \<Rightarrow> [] | Some s \<Rightarrow> s)"

definition cast_String :: "json \<Rightarrow> cast \<Rightarrow> string" where
  "cast_String js ac =
     Join [newline] (header_String js (ca_Header ac) # map (event_String js) (ca_EventStream ac))"

section \<open>Recording\<close>

definition addEventRaw :: "string \<Rightarrow> string \<Rightarrow> rat \<Rightarrow> cast \<Rightarrow> cast" where
  "addEventRaw t d time ac =
     ac\<lparr>ca_EventStream := ca_EventStream ac @ [\<lparr>ev_Time = time, ev_Type = t, ev_Data = d\<rparr>]\<rparr>"

definition seconds_since :: "int \<Rightarrow> int \<Rightarrow> rat" where
  "seconds_since start now = of_int (now - start * 1000000000) / 1000000000"

definition addEvent :: "int \<Rightarrow> string \<Rightarrow> string \<Rightarrow> cast \<Rightarrow> cast" where
  "addEvent now t d ac =
     (let secs = seconds_since (ch_Timestamp (ca_Header ac)) now
      in addEventRaw t d secs (ac\<lparr>ca_Header := (ca_Header ac)\<lparr>ch_Duration := secs\<rparr>\<rparr>))"

text \<open>\<^verbatim>\<open>\r\n\u001b[?2004l\r\<close>, the end of an output event.\<close>

definition output_end :: string where
  "output_end = [CHR 0x0D, CHR 0x0A, CHR 0x1B] @ ''[?2004l'' @ [CHR 0x0D]"

text \<open>The clock is read once for each of the two events.\<close>

definition AddInputEvent :: "int \<Rightarrow> int \<Rightarrow> string \<Rightarrow> cast \<Rightarrow> cast" where
  "AddInputEvent now1 now2 d ac =
     addEvent now2 ''o'' (d @ output_end) (addEvent now1 ''i'' (d @ [CHR 0x0D]) ac)"

definition AddOutputEvent :: "int \<Rightarrow> string \<Rightarrow> cast \<Rightarrow> cast" where
  "AddOutputEvent now d ac = addEvent now ''o'' (d @ output_end) ac"

definition NewASCIICastV2 :: "int \<Rightarrow> int \<Rightarrow> int \<Rightarrow> cast" where
  "NewASCIICastV2 now width height =
     \<lparr>ca_Header = \<lparr>ch_Version = 2, ch_Width = width, ch_Height = height,
        ch_Timestamp = now div 1000000000, ch_Duration = 0, ch_IdleTimeLimit = 0, ch_Command = [],
        ch_Title = [], ch_Env = gm_empty, ch_Theme = \<lparr>th_FG = [], th_BG = [], th_Palette = []\<rparr>\<rparr>,
      ca_EventStream = []\<rparr>"

section \<open>Files\<close>

definition cast_Save :: "json \<Rightarrow> string \<Rightarrow> cast \<Rightarrow> fsys \<Rightarrow> os_error option \<times> fsys" where
  "cast_Save js file ac d =
     (case os_write_file d (path_comps file) (cast_String js ac) of
        Inl e \<Rightarrow> (Some e, d)
      | Inr d' \<Rightarrow> (None, d'))"

datatype load_error =
    LoadFailed os_error
  | HeaderFailed string
  | EventFailed string string

text \<open>The loop over the lines. The recording is changed in place, so the events loaded before an error
  stay; an array with fewer than three elements or with other types panics.\<close>

fun load_events :: "json \<Rightarrow> string list \<Rightarrow> cast \<Rightarrow> go_panic + load_error option \<times> cast" where
  "load_events js [] ac = Inr (None, ac)"
| "load_events js (line # ls) ac =
     (case ju_event js line of
        Inl e \<Rightarrow> Inr (Some (EventFailed e line), ac)
      | Inr ed \<Rightarrow>
          (if length ed < 3 then Inl IndexOutOfRange
           else case (ed ! 1, ed ! 2, ed ! 0) of
                  (JStr t, JStr d, JNum time) \<Rightarrow> load_events js ls (addEventRaw t d time ac)
                | _ \<Rightarrow> Inl (PanicValue ''interface conversion'')))"

definition cast_Load :: "json \<Rightarrow> string \<Rightarrow> fsys \<Rightarrow> cast \<Rightarrow> go_panic + load_error option \<times> cast" where
  "cast_Load js file d ac =
     (case os_read_file d (path_comps file) of
        Inl e \<Rightarrow> Inr (Some (LoadFailed e), ac)
      | Inr s \<Rightarrow>
          (case Split newline s of
             [] \<Rightarrow> Inr (None, ac)
           | meta # ls \<Rightarrow>
               (case ju_header js meta (ca_Header ac) of
                  Inl e \<Rightarrow> Inr (Some (HeaderFailed e), ac)
                | Inr h \<Rightarrow> load_events js ls (ac\<lparr>ca_Header := h, ca_EventStream := []\<rparr>))))"

section \<open>The slow writer\<close>

record slow_writer =
  sw_ratelimit :: rat
  sw_w :: string

definition NewSlowWriter :: "rat \<Rightarrow> string \<Rightarrow> slow_writer" where
  "NewSlowWriter limit w = \<lparr>sw_ratelimit = limit, sw_w = w\<rparr>"

definition SetRatelimit :: "rat \<Rightarrow> slow_writer \<Rightarrow> slow_writer" where
  "SetRatelimit limit sw = sw\<lparr>sw_ratelimit := limit\<rparr>"

definition sw_Write :: "string \<Rightarrow> slow_writer \<Rightarrow> slow_writer" where
  "sw_Write s sw = sw\<lparr>sw_w := sw_w sw @ s\<rparr>"

definition sw_WriteLn :: "string \<Rightarrow> slow_writer \<Rightarrow> slow_writer" where
  "sw_WriteLn s sw = sw_Write (s @ [newline]) sw"

definition WriteLnUnlimited :: "string \<Rightarrow> slow_writer \<Rightarrow> slow_writer" where
  "WriteLnUnlimited s sw = sw\<lparr>sw_w := sw_w sw @ s @ [newline]\<rparr>"

section \<open>Recordings keep time\<close>

text \<open>At instant \<open>now\<close>: the event times do not decrease, the duration is the time of the last event, none
  lies in the future, and every event is input or output.\<close>

definition cast_inv :: "int \<Rightarrow> cast \<Rightarrow> bool" where
  "cast_inv now ac \<longleftrightarrow>
     sorted (map ev_Time (ca_EventStream ac)) \<and>
     (\<forall>e \<in> set (ca_EventStream ac). ev_Type e \<in> {''i'', ''o''} \<and>
        ev_Time e \<le> seconds_since (ch_Timestamp (ca_Header ac)) now) \<and>
     (ca_EventStream ac \<noteq> [] \<longrightarrow> ch_Duration (ca_Header ac) = ev_Time (last (ca_EventStream ac)))"

lemma seconds_since_mono: "a \<le> b \<Longrightarrow> seconds_since t a \<le> seconds_since t b"
  by (simp add: seconds_since_def divide_right_mono)

lemma cast_inv_mono: "cast_inv a ac \<Longrightarrow> a \<le> b \<Longrightarrow> cast_inv b ac"
  unfolding cast_inv_def using seconds_since_mono order_trans by blast

lemma addEvent_inv:
  assumes "cast_inv a ac" and "a \<le> b" and "t \<in> {''i'', ''o''}"
  shows "cast_inv b (addEvent b t d ac)"
  using cast_inv_mono [OF assms(1,2)] assms(3)
  by (auto simp: cast_inv_def addEvent_def addEventRaw_def sorted_append Let_def)

lemma NewASCIICastV2_inv: "cast_inv now (NewASCIICastV2 now w h)"
  by (simp add: cast_inv_def NewASCIICastV2_def)

lemma addEvent_stream:
  "ca_EventStream (addEvent now t d ac) = ca_EventStream ac @
     [\<lparr>ev_Time = seconds_since (ch_Timestamp (ca_Header ac)) now, ev_Type = t, ev_Data = d\<rparr>]"
  "ch_Timestamp (ca_Header (addEvent now t d ac)) = ch_Timestamp (ca_Header ac)"
  by (simp_all add: addEvent_def addEventRaw_def Let_def)

lemma AddInputEvent_inv:
  assumes "cast_inv a ac" and "a \<le> b" and "b \<le> c" shows "cast_inv c (AddInputEvent b c d ac)"
  unfolding AddInputEvent_def using addEvent_inv [OF addEvent_inv [OF assms(1,2)] assms(3)] by simp

lemma AddOutputEvent_inv:
  assumes "cast_inv a ac" and "a \<le> b" shows "cast_inv b (AddOutputEvent b d ac)"
  unfolding AddOutputEvent_def using addEvent_inv [OF assms] by simp

section \<open>Saving and loading\<close>

text \<open>The documented behaviour of the JSON package on the values of a recording: encoding succeeds and
  gives one line, from which decoding, into a fresh value, gives the value back. (The package leaves
  out empty optional fields and replaces bytes that are not UTF-8, so this is a condition on the
  recording.) \<open>cast_zero\<close> is the zero value of the type.\<close>

definition cast_zero :: cast where
  "cast_zero =
     \<lparr>ca_Header = \<lparr>ch_Version = 0, ch_Width = 0, ch_Height = 0, ch_Timestamp = 0, ch_Duration = 0,
        ch_IdleTimeLimit = 0, ch_Command = [], ch_Title = [], ch_Env = gm_empty,
        ch_Theme = \<lparr>th_FG = [], th_BG = [], th_Palette = []\<rparr>\<rparr>, ca_EventStream = []\<rparr>"

definition event_ok :: "json \<Rightarrow> cast_event \<Rightarrow> bool" where
  "event_ok js e \<longleftrightarrow> ev_Type e \<in> {''i'', ''o''} \<and>
     (let v = [JNum (ev_Time e), JStr (ev_Type e), JStr (ev_Data e)]
      in case js_event js v of None \<Rightarrow> False | Some s \<Rightarrow> newline \<notin> set s \<and> ju_event js s = Inr v)"

definition json_ok :: "json \<Rightarrow> cast \<Rightarrow> bool" where
  "json_ok js ac \<longleftrightarrow>
     (case js_header js (ca_Header ac) of
        None \<Rightarrow> False
      | Some s \<Rightarrow> newline \<notin> set s \<and> ju_header js s (ca_Header cast_zero) = Inr (ca_Header ac)) \<and>
     (\<forall>e \<in> set (ca_EventStream ac). event_ok js e)"

lemma event_String_ok:
  assumes "event_ok js e"
  shows "newline \<notin> set (event_String js e) \<and>
    ju_event js (event_String js e) = Inr [JNum (ev_Time e), JStr (ev_Type e), JStr (ev_Data e)]"
  using assms by (auto simp: event_ok_def event_String_def split: option.splits)

lemma load_events_map:
  assumes "\<forall>e \<in> set es. event_ok js e"
  shows "load_events js (map (event_String js) es) ac =
    Inr (None, ac\<lparr>ca_EventStream := ca_EventStream ac @ es\<rparr>)"
  using assms by (induction es arbitrary: ac) (simp_all add: event_String_ok addEventRaw_def)

text \<open>C24. A recording whose values survive JSON encoding is restored exactly when it is saved to a
  writable path and loaded into a fresh one, header included.\<close>

theorem recording_roundtrip:
  assumes "json_ok js ac" and "writable d (path_comps file)"
  shows "\<exists>d'. cast_Save js file ac d = (None, d') \<and> cast_Load js file d' cast_zero = Inr (None, ac)"
proof -
  obtain d' where w: "os_write_file d (path_comps file) (cast_String js ac) = Inr d'"
    using assms(2) os_write_file_iff by metis
  obtain s where h: "header_String js (ca_Header ac) = s" "newline \<notin> set s"
    "ju_header js s (ca_Header cast_zero) = Inr (ca_Header ac)"
    using assms(1) by (auto simp: json_ok_def header_String_def split: option.splits)
  let ?ls = "map (event_String js) (ca_EventStream ac)"
  have "\<forall>x \<in> set (s # ?ls). newline \<notin> set x"
    using h(2) assms(1) event_String_ok by (auto simp: json_ok_def)
  then have "Split newline (cast_String js ac) = s # ?ls"
    unfolding cast_String_def h(1) by (intro Split_Join) simp_all
  then have "cast_Load js file d' cast_zero =
      load_events js ?ls (cast_zero\<lparr>ca_Header := ca_Header ac, ca_EventStream := []\<rparr>)"
    using os_write_then_read(1) [OF w] h(3) by (simp add: cast_Load_def)
  also have "\<dots> = Inr (None, ac)"
    using assms(1) by (simp add: load_events_map json_ok_def)
  finally show ?thesis using w by (auto simp: cast_Save_def)
qed

definition sample_cast :: cast where
  "sample_cast = AddOutputEvent 8000000000 ''uid=0'' (AddInputEvent 6000000000 7000000000 ''id''
     (NewASCIICastV2 5000000000 80 24))"

text \<open>An encoder that writes an event as its three parts, with the time as a number of seconds.\<close>

definition sample_json :: json where
  "sample_json =
     \<lparr>js_header = (\<lambda>h. Some ''{}''),
      js_event = (\<lambda>v. case v of [JNum t, JStr k, JStr d] \<Rightarrow>
         Some (int_dec \<lfloor>t\<rfloor> @ k @ concat (map (\<lambda>c. int_dec (of_char c) @ '','') d)) | _ \<Rightarrow> None),
      ju_header = (\<lambda>s h. Inr (ca_Header sample_cast)),
      ju_event = (\<lambda>s. Inr (case filter (\<lambda>e. hd (int_dec \<lfloor>ev_Time e\<rfloor>) = hd s) (ca_EventStream sample_cast) of
         [] \<Rightarrow> [] | e # _ \<Rightarrow> [JNum (ev_Time e), JStr (ev_Type e), JStr (ev_Data e)]))\<rparr>"

theorem recording_roundtrip_witness:
  "\<exists>d'. cast_Save sample_json ''/a.cast'' sample_cast [] = (None, d') \<and>
     cast_Load sample_json ''/a.cast'' d' cast_zero = Inr (None, sample_cast)"
proof -
  have "list_all (event_ok sample_json) (ca_EventStream sample_cast)" by code_simp
  then have "json_ok sample_json sample_cast"
    by (simp add: json_ok_def list_all_iff) (simp add: sample_json_def newline_def)
  moreover have "writable [] (path_comps ''/a.cast'')" unfolding writable_def by code_simp
  ultimately show ?thesis by (rule recording_roundtrip)
qed

end
