(* ===== verification/Templater.thy ===== *)
theory Templater
  imports Config Complex_Main
begin

text \<open>
  \<^verbatim>\<open>templater_text.go\<close> and \<^verbatim>\<open>templater_html.go\<close>: finding, executing and trimming templates. The
  template engines (\<^verbatim>\<open>text/template\<close>, \<^verbatim>\<open>html/template\<close>) are
  arguments: the text a template has written when it ends, and its error if it failed.
\<close>

section \<open>Data and engine\<close>

text \<open>The data of a shell command's template.\<close>

record tdata =
  td_User :: string
  td_IP :: string
  td_IPLocal :: string
  td_Port :: int
  td_PortLocal :: int
  td_HostName :: string
  td_InputRaw :: string
  td_Command :: string
  td_Arguments :: "string list"

text \<open>\<open>en_string\<close> parses and executes a template string (\<^term>\<open>Inl\<close>: it does not parse), \<open>en_files\<close> parses
  the given files and executes the named template. Executing gives the output so far and, on
  failure, the error.\<close>

record 'd engine =
  en_string :: "string \<Rightarrow> 'd \<Rightarrow> string + string \<times> string option"
  en_files :: "(string list \<times> string) list \<Rightarrow> string \<Rightarrow> 'd \<Rightarrow> string + string \<times> string option"

section \<open>Templates in files\<close>

text \<open>\<^verbatim>\<open>filepath.Walk\<close>: every file below the directory, in lexical order, with its content.\<close>

definition template_files :: "fsys \<Rightarrow> string list \<Rightarrow> (string list \<times> string) list" where
  "template_files d dir =
     (let ps = sort (filter (\<lambda>p. prefix dir p) (gm_keys d))
      in concat (map (\<lambda>p. case fs_get d p of Some (FileN s) \<Rightarrow> [(p, s)] | _ \<Rightarrow> []) ps))"

text \<open>\<^verbatim>\<open>ParseTemplate\<close> and \<^verbatim>\<open>ParseTemplateHTML\<close> differ in the directory and the engine. The result is
  what was written, and the error.\<close>

definition run_template ::
  "'d engine \<Rightarrow> string \<Rightarrow> fsys \<Rightarrow> string \<Rightarrow> 'd \<Rightarrow> string \<times> string option" where
  "run_template en dir d name data =
     (case os_stat d (path_comps dir) of
        Inl e \<Rightarrow> ([], Some (''stat '' @ dir @ '': '' @ os_error_text e))
      | Inr _ \<Rightarrow>
          (case en_files en (template_files d (path_comps dir)) name data of
             Inl e \<Rightarrow> ([], Some e)
           | Inr r \<Rightarrow> r))"

definition ParseTemplate :: "'d engine \<Rightarrow> conf \<Rightarrow> fsys \<Rightarrow> string \<Rightarrow> 'd \<Rightarrow> string \<times> string option" where
  "ParseTemplate en c d name data = run_template en (c_PathCommands c) d name data"

definition ParseTemplateHTML :: "'d engine \<Rightarrow> conf \<Rightarrow> fsys \<Rightarrow> string \<Rightarrow> 'd \<Rightarrow> string \<times> string option" where
  "ParseTemplateHTML en c d name data = run_template en (c_PathWebinterface c) d name data"

definition blanks :: string where
  "blanks = '' '' @ [CHR 0x0D, CHR 0x0A]"

definition ParseTemplateToString :: "'d engine \<Rightarrow> conf \<Rightarrow> fsys \<Rightarrow> string \<Rightarrow> 'd \<Rightarrow> string" where
  "ParseTemplateToString en c d name data =
     (case ParseTemplate en c d name data of
        (out, Some e) \<Rightarrow> name @ '': command not found''
      | (out, None) \<Rightarrow> Trim out blanks)"

section \<open>Template strings\<close>

definition parseTemplateString :: "'d engine \<Rightarrow> string \<Rightarrow> 'd \<Rightarrow> string \<times> string option" where
  "parseTemplateString en t data =
     (case en_string en t data of Inl e \<Rightarrow> ([], Some e) | Inr r \<Rightarrow> r)"

definition ParseTemplateFromString :: "'d engine \<Rightarrow> string \<Rightarrow> 'd \<Rightarrow> string" where
  "ParseTemplateFromString en t data =
     (case parseTemplateString en t data of
        (out, Some e) \<Rightarrow> []
      | (out, None) \<Rightarrow> Trim out blanks)"

section \<open>Facts\<close>

text \<open>The documented behaviour of the engine on a template that is \<^verbatim>\<open>{{ .Command }}\<close> between plain texts:
  the command word is filled in.\<close>

definition engine_ok :: "tdata engine \<Rightarrow> bool" where
  "engine_ok en \<longleftrightarrow>
     (\<forall>pre t data. CHR ''{'' \<notin> set pre \<longrightarrow> CHR ''{'' \<notin> set t \<longrightarrow>
        en_string en (pre @ ''{{ .Command }}'' @ t) data = Inr (pre @ td_Command data @ t, None))"

lemma ParseTemplateFromString_command:
  assumes "engine_ok en" and "CHR ''{'' \<notin> set pre" and "CHR ''{'' \<notin> set t"
  shows "ParseTemplateFromString en (pre @ ''{{ .Command }}'' @ t) data = Trim (pre @ td_Command data @ t) blanks"
  using assms by (simp add: engine_ok_def ParseTemplateFromString_def parseTemplateString_def)

end
