(* ===== verification/Shell_Commands.thy ===== *)
theory Shell_Commands
  imports Fake_FS Recording Templater
begin

text \<open>
  The state of a fake shell (\<^verbatim>\<open>fake_shell.go\<close>, \<^verbatim>\<open>fake_shell_stats.go\<close>), its input and output, and the
  commands implemented in Go (\<^verbatim>\<open>fake_shell_commands.go\<close>). The SSH session is a record of what the
  client sends: the bytes \<^verbatim>\<open>Read\<close> delivers, then an error; the lines \<^verbatim>\<open>ReadLine\<close> of the terminal
  delivers, then an error; the error of a write, if writing fails. A command returns its result or the panic that ended it, always with
  the state it left, because the session handler recovers. Time is a sequence of clock
  readings, of which the state counts those used. Log output and delays are left out.
\<close>

section \<open>State\<close>

record ssh_session =
  se_User :: string
  se_RemoteHost :: string
  se_RemotePort :: int
  se_LocalHost :: string
  se_LocalPort :: int
  se_RawCommand :: string
  se_in :: string
  se_in_err :: string
  se_lines :: "string list"
  se_lines_err :: string
  se_write_err :: "string option"
  se_closed :: bool

record shell_stats =
  fss_Host :: string
  fss_User :: string
  fss_CommandsExecuted :: uint64
  fss_CommandHistory :: "string list"
  fss_recording :: cast

record shell =
  sh_session :: ssh_session
  sh_writer :: slow_writer
  sh_stats :: shell_stats
  sh_prompt :: string
  sh_cwd :: string
  sh_tick :: nat

text \<open>Errors as \<^verbatim>\<open>gutils.GetLastError\<close> gets them: from a file operation, or the bare error number.\<close>

datatype go_error = FsError ofs_error | Errno os_error

text \<open>What is not part of the repository: the clock, functions of \<^verbatim>\<open>gutils\<close>, the mount points, the
  template engine and regular expressions (a compiled one matches and replaces). Random texts
  depend on the number of clock readings.\<close>

record shell_lib =
  sl_clk :: "nat \<Rightarrow> int"
  sl_DirExists :: "fsys \<Rightarrow> string \<Rightarrow> bool"
  sl_FileExists :: "fsys \<Rightarrow> string \<Rightarrow> bool"
  sl_busy :: "string list \<Rightarrow> bool"
  sl_GetLastError :: "go_error \<Rightarrow> string"
  sl_RemoveCommandFlags :: "string list \<Rightarrow> string list"
  sl_GeneratePseudoEmptyString :: "nat \<Rightarrow> string"
  sl_GenerateGarbageString :: "nat \<Rightarrow> nat \<Rightarrow> string"
  sl_BytesToInt :: "string \<Rightarrow> int \<Rightarrow> int"
  sl_engine :: "tdata engine"
  sl_regexp :: "string \<Rightarrow> ((string \<Rightarrow> bool) \<times> (string \<Rightarrow> string \<Rightarrow> string)) option"

type_synonym 'a shell_res = "(go_panic + 'a) \<times> shell \<times> fsys"

section \<open>Statistics\<close>

definition AddCommandToHistory :: "string \<Rightarrow> shell_stats \<Rightarrow> shell_stats" where
  "AddCommandToHistory cmd s =
     s\<lparr>fss_CommandHistory := fss_CommandHistory s @ [cmd],
       fss_CommandsExecuted := fss_CommandsExecuted s + 1\<rparr>"

text \<open>The payload is hashed from the commands, but its content is the recording.\<close>

definition ToPayload ::
  "(string \<Rightarrow> go_panic + string) \<Rightarrow> json \<Rightarrow> conf \<Rightarrow> shell_stats \<Rightarrow> go_panic + payload" where
  "ToPayload toHash js c s =
     bind_res (payload_Set toHash c (Join [newline] (fss_CommandHistory s)) NewPayload) (\<lambda>p.
       Inr (p\<lparr>p_payload := cast_String js (fss_recording s)\<rparr>))"

section \<open>Output\<close>

definition UpdatePrompt :: "conf \<Rightarrow> string \<Rightarrow> shell \<Rightarrow> shell" where
  "UpdatePrompt c path sh =
     sh\<lparr>sh_prompt := se_User (sh_session sh) @ ''@'' @ c_HostName c @ '':'' @ path @ ''# ''\<rparr>"

definition record_output :: "shell_lib \<Rightarrow> string \<Rightarrow> shell \<Rightarrow> shell" where
  "record_output lib s sh =
     sh\<lparr>sh_stats := (sh_stats sh)\<lparr>fss_recording :=
          AddOutputEvent (sl_clk lib (sh_tick sh)) s (fss_recording (sh_stats sh))\<rparr>,
        sh_tick := Suc (sh_tick sh)\<rparr>"

definition record_input :: "shell_lib \<Rightarrow> string \<Rightarrow> shell \<Rightarrow> shell" where
  "record_input lib s sh =
     sh\<lparr>sh_stats := (sh_stats sh)\<lparr>fss_recording :=
          AddInputEvent (sl_clk lib (sh_tick sh)) (sl_clk lib (Suc (sh_tick sh))) s
            (fss_recording (sh_stats sh))\<rparr>,
        sh_tick := Suc (Suc (sh_tick sh))\<rparr>"

definition on_writer :: "(slow_writer \<Rightarrow> slow_writer) \<Rightarrow> shell \<Rightarrow> shell" where
  "on_writer f sh = sh\<lparr>sh_writer := f (sh_writer sh)\<rparr>"

definition RecordWriteLn :: "shell_lib \<Rightarrow> string \<Rightarrow> shell \<Rightarrow> shell" where
  "RecordWriteLn lib s sh = record_output lib s (on_writer (sw_WriteLn s) sh)"

definition RecordWrite :: "shell_lib \<Rightarrow> string \<Rightarrow> shell \<Rightarrow> shell" where
  "RecordWrite lib s sh = record_output lib s (on_writer (sw_Write s) sh)"

definition RecordExec :: "shell_lib \<Rightarrow> string \<Rightarrow> string \<Rightarrow> shell \<Rightarrow> shell" where
  "RecordExec lib input s sh =
     record_output lib s (on_writer (sw_WriteLn s) (record_input lib (sh_prompt sh @ input) sh))"

text \<open>\<^verbatim>\<open>string(val)\<close> is the character with that code; the only value written is zero.\<close>

definition WriteBinary :: "char \<Rightarrow> shell \<Rightarrow> shell" where
  "WriteBinary b sh = on_writer (sw_Write [b]) sh"

definition WriteBinaryLn :: "char \<Rightarrow> shell \<Rightarrow> shell" where
  "WriteBinaryLn b sh = on_writer (sw_WriteLn [b]) sh"

section \<open>Input\<close>

text \<open>Each reader takes the bytes that are left and returns what is left after it. A reader that runs
  into the end has consumed everything.\<close>

fun ReadBytes1 :: "string \<Rightarrow> char option \<times> string" where
  "ReadBytes1 [] = (None, [])"
| "ReadBytes1 (b # bs) = (Some b, bs)"

fun ReadBytesUntil :: "char \<Rightarrow> string \<Rightarrow> string option \<times> string" where
  "ReadBytesUntil sep [] = (None, [])"
| "ReadBytesUntil sep (b # bs) =
     (if b \<noteq> sep
      then (case ReadBytesUntil sep bs of (r, rest) \<Rightarrow> (map_option ((#) b) r, rest))
      else (Some [], bs))"

text \<open>\<^verbatim>\<open>EOF\<close> ends the data, any other error (\<open>err\<close>) loses it.\<close>

fun ReadBytesUntilEOF :: "nat \<Rightarrow> string \<Rightarrow> string \<Rightarrow> string option \<times> string" where
  "ReadBytesUntilEOF 0 err bs = (Some [], bs)"
| "ReadBytesUntilEOF (Suc n) err [] = (if err = ''EOF'' then Some [] else None, [])"
| "ReadBytesUntilEOF (Suc n) err (b # bs) =
     (case ReadBytesUntilEOF n err bs of (r, rest) \<Rightarrow> (map_option ((#) b) r, rest))"

lemma ReadBytesUntil_length: "length (snd (ReadBytesUntil sep bs)) \<le> length bs"
  by (induction sep bs rule: ReadBytesUntil.induct) (auto split: prod.splits)

lemma ReadBytesUntilEOF_length: "length (snd (ReadBytesUntilEOF n err bs)) \<le> length bs"
  by (induction n err bs rule: ReadBytesUntilEOF.induct) (auto split: prod.splits)

section \<open>Commands\<close>

definition toAbs :: "shell \<Rightarrow> string \<Rightarrow> string" where
  "toAbs sh path = (if \<not> HasPrefix path ''/'' then Clean (PathJoin [sh_cwd sh, path]) else path)"

definition home_path :: "shell \<Rightarrow> string list \<Rightarrow> string" where
  "home_path sh ps = PathJoin (''/home'' # se_User (sh_session sh) # ps)"

text \<open>Every use of \<^verbatim>\<open>activeFS\<close> but the guarded ones of \<^verbatim>\<open>cmdScp\<close> dereferences it.\<close>

definition with_fs :: "fake_fs option \<Rightarrow> shell \<Rightarrow> fsys \<Rightarrow> (fake_fs \<Rightarrow> 'a shell_res) \<Rightarrow> 'a shell_res" where
  "with_fs afs sh d k = (case afs of None \<Rightarrow> (Inl NilDeref, sh, d) | Some ofs \<Rightarrow> k ofs)"

definition cmdCd :: "shell_lib \<Rightarrow> conf \<Rightarrow> fake_fs option \<Rightarrow> string \<Rightarrow> shell \<Rightarrow> fsys \<Rightarrow> bool shell_res" where
  "cmdCd lib c afs line sh d =
     (let parts0 = Split (CHR '' '') line;
          parts = (if length parts0 = 1 then parts0 @ [''~''] else parts0);
          path0 = (if length parts < 2 then home_path sh [] else parts ! 1);
          path1 = (if HasPrefix (parts ! 1) ''~'' then home_path sh [TrimPrefix path0 ''~''] else path0);
          path = toAbs sh path1
      in with_fs afs sh d (\<lambda>ofs.
           if \<not> FS_DirExists (sl_DirExists lib) ofs d path
           then (Inr False,
                 RecordWriteLn lib (''cd: '' @ parts ! 1 @ '': no such file or directory'') sh, d)
           else let sh1 = sh\<lparr>sh_cwd := path\<rparr>;
                    sh2 = UpdatePrompt c (if path = home_path sh [] then ''~'' else Base path) sh1
                in (Inr False, RecordWriteLn lib (sl_GeneratePseudoEmptyString lib (sh_tick sh2)) sh2, d)))"

fun rm_loop :: "shell_lib \<Rightarrow> fake_fs option \<Rightarrow> string list \<Rightarrow> shell \<Rightarrow> fsys \<Rightarrow> bool shell_res" where
  "rm_loop lib afs [] sh d =
     (Inr False, RecordWriteLn lib (sl_GeneratePseudoEmptyString lib (sh_tick sh)) sh, d)"
| "rm_loop lib afs (pt0 # pts) sh d =
     (let pt = (if HasPrefix pt0 ''~'' then home_path sh [TrimPrefix pt0 ''~''] else pt0);
          path = toAbs sh pt
      in with_fs afs sh d (\<lambda>ofs.
           if \<not> FS_DirExists (sl_DirExists lib) ofs d path \<and> \<not> FS_FileExists (sl_FileExists lib) ofs d path
           then (Inr False, RecordWriteLn lib (''rm: '' @ pt @ '': no such file or directory'') sh, d)
           else rm_loop lib afs pts sh (snd (RemoveFile (sl_busy lib) ofs path False d))))"

text \<open>\<^verbatim>\<open>parts[1:]\<close> of an empty slice panics.\<close>

definition cmdRm :: "shell_lib \<Rightarrow> conf \<Rightarrow> fake_fs option \<Rightarrow> string \<Rightarrow> shell \<Rightarrow> fsys \<Rightarrow> bool shell_res" where
  "cmdRm lib c afs line sh d =
     (let parts = Split (CHR '' '') line
      in if length parts < 2
         then (Inr False, RecordWriteLn lib (''Try '' @ [CHR 0x27] @ ''rm --help'' @ [CHR 0x27] @ '' for more information.'')
                 (RecordWriteLn lib ''rm: missing operand'' sh), d)
         else case sl_RemoveCommandFlags lib parts of
                [] \<Rightarrow> (Inl SliceBounds, sh, d)
              | _ # pts \<Rightarrow> rm_loop lib afs pts sh d)"

definition cmdLs :: "shell_lib \<Rightarrow> conf \<Rightarrow> fake_fs option \<Rightarrow> string \<Rightarrow> shell \<Rightarrow> fsys \<Rightarrow> bool shell_res" where
  "cmdLs lib c afs line sh d =
     (let parts = sl_RemoveCommandFlags lib (Split (CHR '' '') line);
          dir = (if length parts < 2 then sh_cwd sh else toAbs sh (parts ! 1))
      in with_fs afs sh d (\<lambda>ofs.
           case FS_ReadDir ofs d dir of
             Inl OutsideRoot \<Rightarrow> (Inl (PanicValue ''interface conversion''), sh, d)
           | Inl (PathError e) \<Rightarrow>
               (if os_error_text e \<noteq> ''not a directory''
                then (Inr False, RecordWriteLn lib (''ls: cannot access '' @ [CHR 0x27] @ dir @
                        [CHR 0x27] @ '': '' @ sl_GetLastError lib (Errno e)) sh, d)
                else if length parts < 2 then (Inl IndexOutOfRange, sh, d)
                else (Inr False, RecordWriteLn lib (parts ! 1) sh, d))
           | Inr names \<Rightarrow>
               (Inr False, RecordWrite lib [newline]
                  (fold (\<lambda>n sh. RecordWrite lib '' '' (RecordWrite lib n sh)) names sh), d)))"

definition cmdPwd :: "shell_lib \<Rightarrow> conf \<Rightarrow> fake_fs option \<Rightarrow> string \<Rightarrow> shell \<Rightarrow> fsys \<Rightarrow> bool shell_res" where
  "cmdPwd lib c afs line sh d = (Inr False, RecordWriteLn lib (sh_cwd sh) sh, d)"

text \<open>\<^verbatim>\<open>file.Stat\<close> and \<^verbatim>\<open>io.ReadAll\<close> on an open handle do not fail in the model.\<close>

definition cmdCat :: "shell_lib \<Rightarrow> conf \<Rightarrow> fake_fs option \<Rightarrow> string \<Rightarrow> shell \<Rightarrow> fsys \<Rightarrow> bool shell_res" where
  "cmdCat lib c afs line sh d =
     (let parts0 = Split (CHR '' '') line
      in if length parts0 < 2 then (Inr False, RecordWriteLn lib ''cat: specify file'' sh, d)
         else let parts = sl_RemoveCommandFlags lib parts0
              in if length parts < 2 then (Inl IndexOutOfRange, sh, d)
                 else with_fs afs sh d (\<lambda>ofs.
                   case OpenFile ofs (toAbs sh (parts ! 1)) False False d of
                     (Inl e, d1) \<Rightarrow>
                       (Inr False, RecordWriteLn lib (''cat: '' @ parts ! 1 @ '': '' @
                          sl_GetLastError lib (FsError e)) sh, d1)
                   | (Inr h, d1) \<Rightarrow>
                       (case fs_get d1 h of
                          Some (FileN s) \<Rightarrow> (Inr False, RecordWrite lib s sh, d1)
                        | _ \<Rightarrow> (Inr False, RecordWriteLn lib
                                 (''cat: '' @ parts ! 1 @ '': Is a directory'') sh, d1))))"

definition cmdTouch :: "shell_lib \<Rightarrow> conf \<Rightarrow> fake_fs option \<Rightarrow> string \<Rightarrow> shell \<Rightarrow> fsys \<Rightarrow> bool shell_res" where
  "cmdTouch lib c afs line sh d =
     (let parts0 = Split (CHR '' '') line
      in if length parts0 < 2 then (Inr False, RecordWriteLn lib ''touch: specify file'' sh, d)
         else let parts = sl_RemoveCommandFlags lib parts0
              in if length parts < 2 then (Inl IndexOutOfRange, sh, d)
                 else with_fs afs sh d (\<lambda>ofs.
                   case OpenFile ofs (toAbs sh (parts ! 1)) True False d of
                     (Inl e, d1) \<Rightarrow>
                       (Inr False, RecordWriteLn lib (''touch: '' @ parts ! 1 @ '': '' @
                          sl_GetLastError lib (FsError e)) sh, d1)
                   | (Inr h, d1) \<Rightarrow> (Inr False, sh, d1)))"

section \<open>scp\<close>

definition quotes :: string where
  "quotes = [CHR 0x22, CHR 0x27]"

definition is_sink :: "string list \<Rightarrow> bool" where
  "is_sink parts \<longleftrightarrow> list_ex (\<lambda>p. HasPrefix p ''-'' \<and> Contains p ''t'') (tl parts)"

text \<open>Where an upload is kept on the host, and how: only if the file does not exist yet, whatever happens.\<close>

definition upload_path :: "conf \<Rightarrow> string \<Rightarrow> string" where
  "upload_path c full = Clean (c_PathCaptures c @ ''/scp-uploads/'' @ full)"

definition save_upload :: "shell_lib \<Rightarrow> conf \<Rightarrow> string \<Rightarrow> string \<Rightarrow> fsys \<Rightarrow> fsys" where
  "save_upload lib c full s d =
     (let fpath = upload_path c full
      in if sl_FileExists lib d fpath then d
         else let d1 = (case os_mkdir_all d (path_comps (Dir fpath)) of Inl _ \<Rightarrow> d | Inr d1 \<Rightarrow> d1)
              in (case os_write_file d1 (path_comps fpath) s of Inl _ \<Rightarrow> d1 | Inr d2 \<Rightarrow> d2))"

text \<open>The three fields of a file or directory message. A missing one ends the loop.\<close>

definition read_header :: "string \<Rightarrow> (string \<times> string \<times> string) option \<times> string" where
  "read_header bs =
     (case ReadBytesUntil (CHR '' '') bs of
        (None, r) \<Rightarrow> (None, r)
      | (Some mode, r) \<Rightarrow>
     (case ReadBytesUntil (CHR '' '') r of
        (None, r) \<Rightarrow> (None, r)
      | (Some len, r) \<Rightarrow>
     (case ReadBytesUntil newline r of
        (None, r) \<Rightarrow> (None, r)
      | (Some name, r) \<Rightarrow> (Some (mode, len, name), r))))"

text \<open>A file message after its header: whether the loop goes on, with the bytes that are left.\<close>

definition recv_file ::
  "shell_lib \<Rightarrow> conf \<Rightarrow> fake_fs option \<Rightarrow> string \<Rightarrow> string list \<Rightarrow> string \<Rightarrow> string \<Rightarrow> string \<Rightarrow>
   shell \<Rightarrow> fsys \<Rightarrow> bool \<times> string \<times> shell \<times> fsys" where
  "recv_file lib c afs err dirs len name bs sh d =
     (let full = Join ''/'' dirs @ ''/'' @ Trim name quotes;
          sh1 = WriteBinary (CHR 0x00) sh
      in case afs of
           None \<Rightarrow> (False, bs, sh1, d)
         | Some ofs \<Rightarrow>
             (case OpenFile ofs (toAbs sh1 full) True True d of (h, d1) \<Rightarrow>
                if (case h of Inl e \<Rightarrow> sl_GetLastError lib (FsError e) \<noteq> ''is a directory'' | Inr _ \<Rightarrow> False)
                then (False, bs, sh1, d1)
                else (case ReadBytesUntilEOF (nat (sl_BytesToInt lib len 0)) err bs of
                        (None, r) \<Rightarrow> (False, r, sh1, d1)
                      | (Some s, r) \<Rightarrow>
                          (let d2 = (case h of Inl _ \<Rightarrow> d1 | Inr p \<Rightarrow> os_overwrite d1 p s);
                               d3 = save_upload lib c full s d2
                           in (True, r, WriteBinary (CHR 0x00) sh1, d3)))))"

text \<open>A directory message after its header; without file system the command returns.\<close>

definition recv_dir :: "fake_fs option \<Rightarrow> string list \<Rightarrow> shell \<Rightarrow> fsys \<Rightarrow> bool \<times> shell \<times> fsys" where
  "recv_dir afs dirs sh d =
     (case afs of
        None \<Rightarrow> (False, sh, d)
      | Some ofs \<Rightarrow> (True, WriteBinary (CHR 0x00) sh, ignore_err (FS_MkdirAll ofs (Join ''/'' dirs) d) d))"

text \<open>The message loop: every iteration consumes at least one byte of the input. The result ends with the
  bytes left.\<close>

lemma ReadBytesUntil_shorter: "(x, r) = ReadBytesUntil sep bs \<Longrightarrow> length r \<le> length bs"
  using ReadBytesUntil_length [of sep bs] by (metis snd_conv)

lemma read_header_shorter: "(x, r) = read_header bs \<Longrightarrow> length r \<le> length bs"
  unfolding read_header_def
  by (auto split: prod.splits option.splits dest!: sym [THEN ReadBytesUntil_shorter])

lemma recv_file_shorter:
  assumes "(go, r, sh', d') = recv_file lib c afs err dirs len name bs sh d"
  shows "length r \<le> length bs"
proof -
  have "length r' \<le> length bs" if "ReadBytesUntilEOF n err bs = (x, r')" for n x r'
    using ReadBytesUntilEOF_length [of n err bs] that by simp
  with assms show ?thesis
    by (auto simp: recv_file_def Let_def split: option.splits prod.splits sum.splits if_splits)
qed

function scp_loop ::
  "shell_lib \<Rightarrow> conf \<Rightarrow> fake_fs option \<Rightarrow> string \<Rightarrow> string list \<Rightarrow> string \<Rightarrow> shell \<Rightarrow> fsys \<Rightarrow>
   go_panic option \<times> string \<times> shell \<times> fsys" where
  "scp_loop lib c afs err dirs [] sh d = (None, [], sh, d)"
| "scp_loop lib c afs err dirs (mt # bs) sh d =
     (if mt = CHR ''C'' then
        (case read_header bs of
           (None, r) \<Rightarrow> (None, r, sh, d)
         | (Some (mode, len, name), r) \<Rightarrow>
             (case recv_file lib c afs err dirs len name r sh d of (go, r', sh', d') \<Rightarrow>
                if go then scp_loop lib c afs err dirs r' sh' d'
                else (None, r', sh', d')))
      else if mt = CHR ''D'' then
        (case read_header bs of
           (None, r) \<Rightarrow> (None, r, sh, d)
         | (Some (mode, len, name), r) \<Rightarrow>
             (let dirs' = dirs @ [Trim name quotes]
              in case recv_dir afs dirs' sh d of (go, sh', d') \<Rightarrow>
                   if go then scp_loop lib c afs err dirs' r sh' d'
                   else (None, r, sh', d')))
      else if mt = CHR ''E'' then
        (if dirs = [] then (Some SliceBounds, bs, sh, d)
         else scp_loop lib c afs err (butlast dirs) bs (WriteBinary (CHR 0x00) sh) d)
      else if mt = CHR ''T'' then
        (case ReadBytesUntil newline bs of (_, r) \<Rightarrow>
           scp_loop lib c afs err dirs r (WriteBinary (CHR 0x00) sh) d)
      else scp_loop lib c afs err dirs bs sh d)"
  by pat_completeness auto
termination
  by (relation "measure (\<lambda>(lib, c, afs, err, dirs, bs, sh, d). length bs)")
    (auto dest!: read_header_shorter recv_file_shorter ReadBytesUntil_shorter)

definition cmdScp :: "shell_lib \<Rightarrow> conf \<Rightarrow> fake_fs option \<Rightarrow> string \<Rightarrow> shell \<Rightarrow> fsys \<Rightarrow> bool shell_res" where
  "cmdScp lib c afs line sh d =
     (let parts = Split (CHR '' '') line
      in if length parts < 2 then
           (Inr False,
            RecordWriteLn lib ''[-S program] source ... target''
              (RecordWriteLn lib ''[-J destination] [-l limit] [-o ssh_option] [-P port]''
                (RecordWriteLn lib
                  ''usage: scp [-346ABCpqrTv] [-c cipher] [-F ssh_config] [-i identity_file]'' sh)), d)
         else if is_sink parts then
           (let se = sh_session sh; dname = Trim (last parts) quotes
            in case scp_loop lib c afs (se_in_err se) [dname] (se_in se) (WriteBinary (CHR 0x00) sh) d of
                 (p, r, sh', d') \<Rightarrow>
                   (case p of None \<Rightarrow> Inr False | Some e \<Rightarrow> Inl e,
                    sh'\<lparr>sh_session := (sh_session sh')\<lparr>se_in := r\<rparr>\<rparr>, d'))
         else (Inr False, sh, d))"

type_synonym command =
  "shell_lib \<Rightarrow> conf \<Rightarrow> fake_fs option \<Rightarrow> string \<Rightarrow> shell \<Rightarrow> fsys \<Rightarrow> bool shell_res"

definition CmdLookup :: "(string, command) gomap" where
  "CmdLookup =
     [(''cd'', cmdCd), (''ls'', cmdLs), (''dir'', cmdLs), (''pwd'', cmdPwd), (''cat'', cmdCat),
      (''touch'', cmdTouch), (''rm'', cmdRm), (''scp'', cmdScp)]"

section \<open>What the commands keep\<close>

text \<open>Shell facts no command changes: the session but for its input, the history, the rate limit. Time
  only goes forward and the recording keeps it.\<close>

definition clk_ok :: "shell_lib \<Rightarrow> bool" where
  "clk_ok lib \<longleftrightarrow> (\<forall>m n. m \<le> n \<longrightarrow> sl_clk lib m \<le> sl_clk lib n)"

definition sh_inv :: "shell_lib \<Rightarrow> shell \<Rightarrow> bool" where
  "sh_inv lib sh \<longleftrightarrow> cast_inv (sl_clk lib (sh_tick sh)) (fss_recording (sh_stats sh))"

definition same_client :: "shell \<Rightarrow> shell \<Rightarrow> bool" where
  "same_client sh sh' \<longleftrightarrow>
     (sh_session sh')\<lparr>se_in := []\<rparr> = (sh_session sh)\<lparr>se_in := []\<rparr> \<and>
     fss_CommandHistory (sh_stats sh') = fss_CommandHistory (sh_stats sh) \<and>
     fss_CommandsExecuted (sh_stats sh') = fss_CommandsExecuted (sh_stats sh) \<and>
     fss_Host (sh_stats sh') = fss_Host (sh_stats sh) \<and>
     fss_User (sh_stats sh') = fss_User (sh_stats sh) \<and>
     sw_ratelimit (sh_writer sh') = sw_ratelimit (sh_writer sh) \<and>
     prefix (sw_w (sh_writer sh)) (sw_w (sh_writer sh')) \<and>
     prefix (ca_EventStream (fss_recording (sh_stats sh))) (ca_EventStream (fss_recording (sh_stats sh')))"

text \<open>One step of the shell: the client facts stay, and the invariant is kept.\<close>

definition shell_step_ok :: "shell_lib \<Rightarrow> shell \<Rightarrow> shell \<Rightarrow> bool" where
  "shell_step_ok lib sh sh' \<longleftrightarrow> same_client sh sh' \<and> (sh_inv lib sh \<longrightarrow> sh_inv lib sh')"

named_theorems shell_ok "the shell operations keep the client facts and the invariant"

lemma step_ok_refl [shell_ok]: "shell_step_ok lib sh sh"
  by (simp add: shell_step_ok_def same_client_def)

lemma step_ok_trans: "shell_step_ok lib a b \<Longrightarrow> shell_step_ok lib b c \<Longrightarrow> shell_step_ok lib a c"
  unfolding shell_step_ok_def same_client_def by (auto intro: prefix_order.trans)

lemma record_output_ok: "clk_ok lib \<Longrightarrow> shell_step_ok lib sh (record_output lib s sh)"
  using AddOutputEvent_inv [of "sl_clk lib (sh_tick sh)" "fss_recording (sh_stats sh)"
      "sl_clk lib (sh_tick sh)" s] cast_inv_mono [of "sl_clk lib (sh_tick sh)" _ "sl_clk lib (Suc (sh_tick sh))"]
  by (auto simp: shell_step_ok_def same_client_def record_output_def sh_inv_def clk_ok_def
      AddOutputEvent_def addEvent_stream)

lemma record_input_ok: "clk_ok lib \<Longrightarrow> shell_step_ok lib sh (record_input lib s sh)"
  using AddInputEvent_inv [of "sl_clk lib (sh_tick sh)" "fss_recording (sh_stats sh)"
      "sl_clk lib (sh_tick sh)" "sl_clk lib (Suc (sh_tick sh))" s]
    cast_inv_mono [of "sl_clk lib (Suc (sh_tick sh))" _ "sl_clk lib (Suc (Suc (sh_tick sh)))"]
  by (auto simp: shell_step_ok_def same_client_def record_input_def sh_inv_def clk_ok_def
      AddInputEvent_def addEvent_stream)

lemma on_writer_ok [shell_ok]:
  "shell_step_ok lib sh (on_writer (sw_Write s) sh)" "shell_step_ok lib sh (on_writer (sw_WriteLn s) sh)"
  by (simp_all add: shell_step_ok_def same_client_def on_writer_def sw_Write_def sw_WriteLn_def sh_inv_def)

lemma Record_ok [shell_ok]:
  assumes "clk_ok lib"
  shows "shell_step_ok lib sh (RecordWriteLn lib s sh)" "shell_step_ok lib sh (RecordWrite lib s sh)"
    "shell_step_ok lib sh (RecordExec lib i s sh)"
  unfolding RecordWriteLn_def RecordWrite_def RecordExec_def
  using on_writer_ok record_output_ok [OF assms] record_input_ok [OF assms] step_ok_trans by meson+

lemma WriteBinary_ok [shell_ok]: "shell_step_ok lib sh (WriteBinary b sh)"
  unfolding WriteBinary_def by (rule on_writer_ok)

lemma shell_fields_ok [shell_ok]:
  "shell_step_ok lib sh (sh\<lparr>sh_cwd := p\<rparr>)" "shell_step_ok lib sh (UpdatePrompt c p sh)"
  "shell_step_ok lib sh (sh\<lparr>sh_session := (sh_session sh)\<lparr>se_in := r\<rparr>\<rparr>)"
  by (simp_all add: shell_step_ok_def same_client_def sh_inv_def UpdatePrompt_def)

section \<open>The contract of a command\<close>

text \<open>What a command may do to the host: outside the fake file system nothing that exists is changed or
  removed (an upload can only add).\<close>

definition host_kept :: "fake_fs \<Rightarrow> fsys \<Rightarrow> fsys \<Rightarrow> bool" where
  "host_kept ofs d d' \<longleftrightarrow> fs_ready ofs d' \<and>
     (\<forall>q n. \<not> reach ofs q \<longrightarrow> fs_get d q = Some n \<longrightarrow> fs_get d' q = Some n)"

lemma stays_host_kept: "stays ofs d d' \<Longrightarrow> host_kept ofs d d'"
  by (simp add: stays_def host_kept_def)

lemma host_kept_refl: "fs_ready ofs d \<Longrightarrow> host_kept ofs d d"
  by (simp add: host_kept_def)

lemma host_kept_trans: "host_kept ofs d d1 \<Longrightarrow> host_kept ofs d1 d2 \<Longrightarrow> host_kept ofs d d2"
  by (simp add: host_kept_def)

lemma host_kept_ready: "host_kept ofs d d' \<Longrightarrow> fs_ready ofs d'"
  by (simp add: host_kept_def)

lemma added_only:
  assumes "fs_ready ofs d" and "fs_wf d'" and "\<And>q n. fs_get d q = Some n \<Longrightarrow> fs_get d' q = Some n"
  shows "host_kept ofs d d'"
  using assms by (simp add: host_kept_def fs_ready_def)

lemma save_upload_kept:
  assumes "fs_ready ofs d" and "file_exists_ok (sl_FileExists lib)"
  shows "host_kept ofs d (save_upload lib c full s d)"
proof (cases "sl_FileExists lib d (upload_path c full)")
  case True
  with assms show ?thesis by (simp add: save_upload_def host_kept_refl)
next
  case False
  let ?p = "path_comps (upload_path c full)"
  define d1 where "d1 = (case os_mkdir_all d (path_comps (Dir (upload_path c full))) of
      Inl _ \<Rightarrow> d | Inr d1 \<Rightarrow> d1)"
  have wf: "fs_wf d" using assms(1) by (simp add: fs_ready_def)
  have keep: "fs_get d1 q = Some n" if "fs_get d q = Some n" for q n
    using that os_mkdir_all_frame [of d _ d1 q] by (fastforce simp: d1_def split: sum.splits)
  have wf1: "fs_wf d1"
    using wf os_mkdir_all_wf [of d _ d1] by (auto simp: d1_def split: sum.splits)
  have k1: "host_kept ofs d d1" using assms(1) wf1 keep by (rule added_only)
  have s: "save_upload lib c full s d =
      (case os_write_file d1 ?p s of Inl _ \<Rightarrow> d1 | Inr d2 \<Rightarrow> d2)"
    using False by (simp add: save_upload_def Let_def flip: d1_def)
  show ?thesis
  proof (cases "os_write_file d1 ?p s")
    case (Inl e)
    with k1 s show ?thesis by simp
  next
    case (Inr d2)
    note w = os_write_file_get [OF Inr]
    have "writable d1 ?p" using Inr os_write_file_iff by blast
    then have wr: "walk d1 [] ?p = None" "fs_get d1 ?p \<noteq> Some DirN" by (auto simp: writable_def)
    have "fs_get d2 q = Some n" if "fs_get d q = Some n" for q n
    proof (cases "q = ?p")
      case True
      with that keep wr have "n \<noteq> DirN" by auto
      moreover have "walk d [] ?p = None"
        using wf that True w walk_child [OF wf, of ?p] by (auto simp: fs_wf_def)
      ultimately have "os_is_file d ?p"
        using that True by (cases n) (simp_all add: os_is_file_def os_stat_def)
      with assms(2) False show ?thesis by (simp add: file_exists_ok_def)
    next
      case False
      with that keep w show ?thesis by simp
    qed
    then have "host_kept ofs d d2"
      using assms(1) os_write_file_wf [OF Inr wf1] by (intro added_only)
    with Inr s show ?thesis by simp
  qed
qed

definition lib_ok :: "shell_lib \<Rightarrow> bool" where
  "lib_ok lib \<longleftrightarrow> clk_ok lib \<and> file_exists_ok (sl_FileExists lib)"

text \<open>The interface between the dispatcher and the commands.\<close>

locale shell_command =
  fixes cmd :: command
  assumes client: "clk_ok lib \<Longrightarrow> cmd lib c afs line sh d = (r, sh', d') \<Longrightarrow> shell_step_ok lib sh sh'"
    and host: "cmd lib c (Some ofs) line sh d = (r, sh', d') \<Longrightarrow> lib_ok lib \<Longrightarrow> fs_ready ofs d \<Longrightarrow>
      sl_busy lib (merged ofs) \<Longrightarrow> host_kept ofs d d'"
    and no_exit: "cmd lib c afs line sh d = (r, sh', d') \<Longrightarrow> r \<noteq> Inr True"

lemma fold_names_ok:
  "clk_ok lib \<Longrightarrow> shell_step_ok lib sh (fold (\<lambda>n sh. RecordWrite lib '' '' (RecordWrite lib n sh)) names sh)"
proof (induction names arbitrary: sh)
  case Nil
  show ?case by (simp add: step_ok_refl)
next
  case (Cons n names)
  have "shell_step_ok lib sh (RecordWrite lib '' '' (RecordWrite lib n sh))"
    using Record_ok(2) [OF Cons.prems] step_ok_trans by blast
  with Cons show ?case using step_ok_trans by fastforce
qed

lemma rm_loop_ok:
  assumes "rm_loop lib afs pts sh d = (r, sh', d')"
  shows "clk_ok lib \<Longrightarrow> shell_step_ok lib sh sh'" and "r \<noteq> Inr True"
    and "afs = Some ofs \<Longrightarrow> fs_ready ofs d \<Longrightarrow> sl_busy lib (merged ofs) \<Longrightarrow> stays ofs d d'"
proof -
  have "(clk_ok lib \<longrightarrow> shell_step_ok lib sh sh') \<and> r \<noteq> Inr True \<and>
    (afs = Some ofs \<longrightarrow> fs_ready ofs d \<longrightarrow> sl_busy lib (merged ofs) \<longrightarrow> stays ofs d d')"
    using assms
  proof (induction lib afs pts sh d rule: rm_loop.induct)
    case (1 lib afs sh d)
    then show ?case by (auto simp: Record_ok)
  next
    case (2 lib afs pt0 pts sh d)
    show ?case
    proof (cases afs)
      case None
      with 2 show ?thesis by (auto simp: with_fs_def Let_def step_ok_refl)
    next
      case (Some ofs')
      define pt where "pt = (if HasPrefix pt0 ''~'' then home_path sh [TrimPrefix pt0 ''~''] else pt0)"
      define d1 where "d1 = snd (RemoveFile (sl_busy lib) ofs' (toAbs sh pt) False d)"
      show ?thesis
      proof (cases "\<not> FS_DirExists (sl_DirExists lib) ofs' d (toAbs sh pt) \<and>
          \<not> FS_FileExists (sl_FileExists lib) ofs' d (toAbs sh pt)")
        case True
        with 2(2) Some show ?thesis by (auto simp: with_fs_def Let_def Record_ok simp flip: pt_def)
      next
        case False
        with 2(2) Some have "rm_loop lib afs pts sh d1 = (r, sh', d')"
          by (simp add: with_fs_def Let_def d1_def flip: pt_def)
        note ih = "2.IH" [OF pt_def refl, where xb = ofs', folded d1_def, OF False this]
        have "stays ofs' d d1" if "fs_ready ofs' d" "sl_busy lib (merged ofs')"
          unfolding d1_def using that by (rule RemoveFile_stays)
        with ih Some show ?thesis using stays_ready stays_trans by blast
      qed
    qed
  qed
  then show "clk_ok lib \<Longrightarrow> shell_step_ok lib sh sh'" and "r \<noteq> Inr True"
    and "afs = Some ofs \<Longrightarrow> fs_ready ofs d \<Longrightarrow> sl_busy lib (merged ofs) \<Longrightarrow> stays ofs d d'"
    by blast+
qed

lemma recv_file_ok:
  assumes "recv_file lib c afs err dirs len name bs sh d = (go, r, sh', d')"
  shows "shell_step_ok lib sh sh'"
    and "afs = Some ofs \<Longrightarrow> lib_ok lib \<Longrightarrow> fs_ready ofs d \<Longrightarrow> host_kept ofs d d'"
proof -
  show "shell_step_ok lib sh sh'"
    using assms WriteBinary_ok step_ok_trans [OF WriteBinary_ok WriteBinary_ok]
    by (auto simp: recv_file_def Let_def split: option.splits prod.splits if_splits)
next
  assume afs: "afs = Some ofs" and lib: "lib_ok lib" and ready: "fs_ready ofs d"
  let ?p = "toAbs (WriteBinary (CHR 0x00) sh) (Join ''/'' dirs @ ''/'' @ Trim name quotes)"
  let ?full = "Join ''/'' dirs @ ''/'' @ Trim name quotes"
  obtain h d1 where o: "OpenFile ofs ?p True True d = (h, d1)" by (cases "OpenFile ofs ?p True True d")
  note st = OpenFile_stays [OF ready, of ?p True True, unfolded o, simplified]
  have k1: "host_kept ofs d d1" using st(1) by (rule stays_host_kept)
  have k2: "host_kept ofs d (save_upload lib c ?full s (case h of Inl _ \<Rightarrow> d1 | Inr q \<Rightarrow> os_overwrite d1 q s))" for s
  proof -
    have "host_kept ofs d (case h of Inl _ \<Rightarrow> d1 | Inr q \<Rightarrow> os_overwrite d1 q s)"
      using k1 st(2) overwrite_stays [of ofs d1 _ s] stays_host_kept host_kept_ready [OF k1]
        host_kept_trans by (cases h) fastforce+
    then show ?thesis
      using save_upload_kept [of ofs _ lib c ?full s] lib host_kept_ready host_kept_trans
      unfolding lib_ok_def by blast
  qed
  show "host_kept ofs d d'"
    using assms afs o k1 k2
    by (auto simp: recv_file_def Let_def split: option.splits prod.splits if_splits)
qed

lemma recv_dir_ok:
  assumes "recv_dir afs dirs sh d = (go, sh', d')"
  shows "shell_step_ok lib sh sh'"
    and "afs = Some ofs \<Longrightarrow> fs_ready ofs d \<Longrightarrow> host_kept ofs d d'"
  using assms WriteBinary_ok step_ok_refl stays_host_kept [OF FS_MkdirAll_stays]
  by (auto simp: recv_dir_def split: option.splits)

definition scp_ok :: "shell_lib \<Rightarrow> fake_fs option \<Rightarrow> fake_fs \<Rightarrow> shell \<times> fsys \<Rightarrow> shell \<times> fsys \<Rightarrow> bool" where
  "scp_ok lib afs ofs s t \<longleftrightarrow> shell_step_ok lib (fst s) (fst t) \<and>
     (afs = Some ofs \<longrightarrow> lib_ok lib \<longrightarrow> fs_ready ofs (snd s) \<longrightarrow> host_kept ofs (snd s) (snd t))"

lemma scp_ok_trans: "scp_ok lib afs ofs a b \<Longrightarrow> scp_ok lib afs ofs b c \<Longrightarrow> scp_ok lib afs ofs a c"
  unfolding scp_ok_def using step_ok_trans host_kept_trans host_kept_ready by blast

lemma scp_ok_parts:
  "recv_file lib c afs err dirs len name bs sh d = (go, r, sh', d') \<Longrightarrow> scp_ok lib afs ofs (sh, d) (sh', d')"
  "recv_dir afs dirs sh d = (go, sh', d') \<Longrightarrow> scp_ok lib afs ofs (sh, d) (sh', d')"
  "scp_ok lib afs ofs (sh, d) (WriteBinary b sh, d)"
  "scp_ok lib afs ofs (sh, d) (sh, d)"
  using recv_file_ok recv_dir_ok WriteBinary_ok step_ok_refl host_kept_refl
  unfolding scp_ok_def by fastforce+

lemma scp_loop_scp_ok:
  assumes "scp_loop lib c afs err dirs bs sh d = (p, r, sh', d')"
  shows "scp_ok lib afs ofs (sh, d) (sh', d')"
  using assms
proof (induction lib c afs err dirs bs sh d arbitrary: p r sh' d' rule: scp_loop.induct)
  case (1 lib c afs err dirs sh d)
  then show ?case by (simp add: scp_ok_parts)
next
  case (2 lib c afs err dirs mt bs sh d)
  note wb = scp_ok_trans [OF scp_ok_parts(3)]
  consider "mt = CHR ''C''" | "mt = CHR ''D''" | "mt = CHR ''E''" | "mt = CHR ''T''"
    | "mt \<notin> {CHR ''C'', CHR ''D'', CHR ''E'', CHR ''T''}" by blast
  then show ?case
  proof cases
    case 1
    show ?thesis
    proof (cases "read_header bs")
      case (Pair x r0)
      show ?thesis
      proof (cases x)
        case None
        with 1 2(6) Pair show ?thesis by (simp add: scp_ok_parts)
      next
        case (Some t)
        obtain mode len name where t: "t = (mode, len, name)" by (cases t)
        obtain go r1 sh1 d1 where f: "recv_file lib c afs err dirs len name r0 sh d = (go, r1, sh1, d1)"
          by (cases "recv_file lib c afs err dirs len name r0 sh d") auto
        note fo = scp_ok_parts(1) [OF f, of ofs]
        show ?thesis
        proof (cases go)
          case True
          with 1 2(6) Pair Some t f have "scp_loop lib c afs err dirs r1 sh1 d1 = (p, r, sh', d')" by simp
          from 2(1) [OF 1 Pair [symmetric] Some t [symmetric] refl f [symmetric] refl refl True this] fo
          show ?thesis by (rule scp_ok_trans [rotated])
        next
          case False
          with 1 2(6) Pair Some t f fo show ?thesis by auto
        qed
      qed
    qed
  next
    case d: 2
    show ?thesis
    proof (cases "read_header bs")
      case (Pair x r0)
      show ?thesis
      proof (cases x)
        case None
        with d 2(6) Pair show ?thesis by (simp add: scp_ok_parts)
      next
        case (Some t)
        obtain mode len name where t: "t = (mode, len, name)" by (cases t)
        let ?ds = "dirs @ [Trim name quotes]"
        obtain go sh1 d1 where f: "recv_dir afs ?ds sh d = (go, sh1, d1)"
          by (cases "recv_dir afs ?ds sh d") auto
        note fo = scp_ok_parts(2) [OF f, of lib ofs]
        show ?thesis
        proof (cases go)
          case True
          have nc: "mt \<noteq> CHR ''C''" using d by simp
          from d 2(6) Pair Some t f True have "scp_loop lib c afs err ?ds r0 sh1 d1 = (p, r, sh', d')"
            by simp
          from 2(2) [OF nc d Pair [symmetric] Some t [symmetric] refl refl f [symmetric] refl True this] fo
          show ?thesis by (rule scp_ok_trans [rotated])
        next
          case False
          with d 2(6) Pair Some t f fo show ?thesis by auto
        qed
      qed
    qed
  next
    case 3
    with 2 show ?thesis by (cases "dirs = []") (auto simp: scp_ok_parts intro: wb)
  next
    case 4
    obtain x r0 where u: "ReadBytesUntil newline bs = (x, r0)" by (cases "ReadBytesUntil newline bs")
    with 4 2(4) [OF _ _ _ 4 u [symmetric]] 2(6) show ?thesis by (auto intro: wb)
  next
    case 5
    with 2(5,6) show ?thesis by auto
  qed
qed

lemma scp_loop_ok:
  "scp_loop lib c afs err dirs bs sh d = (p, r, sh', d') \<Longrightarrow> shell_step_ok lib sh sh' \<and>
    (afs = Some ofs \<longrightarrow> lib_ok lib \<longrightarrow> fs_ready ofs d \<longrightarrow> host_kept ofs d d')"
  using scp_loop_scp_ok unfolding scp_ok_def by fastforce

text \<open>Results that change the shell only by output: what is left to show is that the disk stays.\<close>

lemmas cmd_frame = Record_ok step_ok_refl host_kept_refl

interpretation pwd: shell_command cmdPwd
  by unfold_locales (auto simp: cmdPwd_def cmd_frame)

interpretation cd: shell_command cmdCd
proof (unfold_locales, goal_cases)
  case (1 lib c afs line sh d r sh' d')
  note s1 = step_ok_trans [OF shell_fields_ok(1) step_ok_trans [OF shell_fields_ok(2) Record_ok(1) [OF 1(1)]]]
  from 1(2) show ?case
    by (auto simp: cmdCd_def Let_def with_fs_def cmd_frame 1(1) s1 split: option.splits if_splits)
next
  case (2 lib c ofs line sh d r sh' d')
  then show ?case by (auto simp: cmdCd_def Let_def with_fs_def host_kept_refl split: if_splits)
next
  case (3 lib c afs line sh d r sh' d')
  then show ?case by (auto simp: cmdCd_def Let_def with_fs_def split: option.splits if_splits)
qed

interpretation rm: shell_command cmdRm
proof (unfold_locales, goal_cases)
  case (1 lib c afs line sh d r sh' d')
  then show ?case
    by (auto simp: cmdRm_def Let_def cmd_frame split: if_splits list.splits
        intro: rm_loop_ok(1) step_ok_trans [OF Record_ok(1) Record_ok(1)])
next
  case (2 lib c ofs line sh d r sh' d')
  then show ?case
    by (auto simp: cmdRm_def Let_def host_kept_refl split: if_splits list.splits
        intro: stays_host_kept rm_loop_ok(3))
next
  case (3 lib c afs line sh d r sh' d')
  then show ?case by (auto simp: cmdRm_def Let_def split: if_splits list.splits dest: rm_loop_ok(2))
qed

interpretation ls: shell_command cmdLs
proof (unfold_locales, goal_cases)
  case (1 lib c afs line sh d r sh' d')
  from 1(2) show ?case
    by (auto simp: cmdLs_def Let_def with_fs_def cmd_frame 1(1) fold_names_ok
        split: option.splits if_splits sum.splits ofs_error.splits
        intro: step_ok_trans [OF fold_names_ok Record_ok(2)])
next
  case (2 lib c ofs line sh d r sh' d')
  then show ?case
    by (auto simp: cmdLs_def Let_def with_fs_def host_kept_refl
        split: if_splits sum.splits ofs_error.splits)
next
  case (3 lib c afs line sh d r sh' d')
  then show ?case
    by (auto simp: cmdLs_def Let_def with_fs_def split: option.splits if_splits sum.splits ofs_error.splits)
qed

interpretation cat: shell_command cmdCat
proof (unfold_locales, goal_cases)
  case (1 lib c afs line sh d r sh' d')
  then show ?case
    by (auto simp: cmdCat_def Let_def with_fs_def cmd_frame
        split: option.splits if_splits sum.splits prod.splits node.splits)
next
  case (2 lib c ofs line sh d r sh' d')
  have "host_kept ofs d (snd (OpenFile ofs p cr w d))" for p cr w
    using OpenFile_stays(1) [OF 2(3)] by (rule stays_host_kept)
  with 2 show ?case
    by (auto simp: cmdCat_def Let_def with_fs_def host_kept_refl
        split: option.splits if_splits sum.splits prod.splits node.splits) (metis snd_conv)+
next
  case (3 lib c afs line sh d r sh' d')
  then show ?case
    by (auto simp: cmdCat_def Let_def with_fs_def
        split: option.splits if_splits sum.splits prod.splits node.splits)
qed

interpretation touch: shell_command cmdTouch
proof (unfold_locales, goal_cases)
  case (1 lib c afs line sh d r sh' d')
  then show ?case
    by (auto simp: cmdTouch_def Let_def with_fs_def cmd_frame
        split: option.splits if_splits sum.splits prod.splits)
next
  case (2 lib c ofs line sh d r sh' d')
  have "host_kept ofs d (snd (OpenFile ofs p cr w d))" for p cr w
    using OpenFile_stays(1) [OF 2(3)] by (rule stays_host_kept)
  with 2 show ?case
    by (auto simp: cmdTouch_def Let_def with_fs_def host_kept_refl
        split: option.splits if_splits sum.splits prod.splits) (metis snd_conv)+
next
  case (3 lib c afs line sh d r sh' d')
  then show ?case
    by (auto simp: cmdTouch_def Let_def with_fs_def split: option.splits if_splits sum.splits prod.splits)
qed

interpretation scp: shell_command cmdScp
proof (unfold_locales, goal_cases)
  case (1 lib c afs line sh d r sh' d')
  show ?case
  proof (cases "2 \<le> length (Split (CHR '' '') line) \<and> is_sink (Split (CHR '' '') line)")
    case True
    then obtain p rest sh1 where
      "scp_loop lib c afs (se_in_err (sh_session sh)) [Trim (last (Split (CHR '' '') line)) quotes]
         (se_in (sh_session sh)) (WriteBinary (CHR 0x00) sh) d = (p, rest, sh1, d')"
      and sh': "sh' = sh1\<lparr>sh_session := (sh_session sh1)\<lparr>se_in := rest\<rparr>\<rparr>"
      using 1(2) by (auto simp: cmdScp_def Let_def split: prod.splits)
    then show ?thesis
      using scp_loop_ok step_ok_trans WriteBinary_ok shell_fields_ok(3) by meson
  next
    case False
    with 1(2) show ?thesis
      by (auto simp: cmdScp_def Let_def cmd_frame split: if_splits prod.splits
          intro!: step_ok_trans [OF step_ok_trans [OF Record_ok(1) Record_ok(1)] Record_ok(1)] 1(1))
  qed
next
  case (2 lib c ofs line sh d r sh' d')
  then show ?case
    by (auto simp: cmdScp_def Let_def host_kept_refl split: if_splits prod.splits
        dest!: scp_loop_ok [where ofs = ofs])
next
  case (3 lib c afs line sh d r sh' d')
  then show ?case by (auto simp: cmdScp_def Let_def split: if_splits prod.splits option.splits)
qed

lemma CmdLookup_ok: "gm_get k CmdLookup = Some f \<Longrightarrow> shell_command f"
  using cd.shell_command_axioms ls.shell_command_axioms pwd.shell_command_axioms
    cat.shell_command_axioms touch.shell_command_axioms rm.shell_command_axioms
    scp.shell_command_axioms
  by (auto simp: CmdLookup_def gm_get_def split: if_splits)

section \<open>What an upload does to the host\<close>

lemma ReadBytesUntil_found: "sep \<notin> set xs \<Longrightarrow> ReadBytesUntil sep (xs @ sep # ys) = (Some xs, ys)"
  by (induction xs) auto

lemma ReadBytesUntilEOF_all: "ReadBytesUntilEOF (length s) err s = (Some s, [])"
  by (induction s) auto

lemma mkdir_all_from_existing:
  "\<forall>q. prefix q xs \<longrightarrow> fs_get d (acc @ q) = Some DirN \<Longrightarrow> mkdir_all_from d acc xs = Inr d"
proof (induction xs arbitrary: acc)
  case (Cons x xs)
  have "\<forall>q. prefix q xs \<longrightarrow> fs_get d ((acc @ [x]) @ q) = Some DirN"
    using Cons.prems by (metis Cons_prefix_Cons append.assoc append_Cons append_Nil)
  moreover have "fs_get d (acc @ [x]) = Some DirN"
    using Cons.prems by (metis Cons_prefix_Cons Nil_prefix)
  ultimately show ?case using Cons.IH by simp
qed simp

lemma os_mkdir_all_existing:
  assumes "fs_wf d" and "fs_get d p = Some DirN" shows "os_mkdir_all d p = Inr d"
proof -
  have "fs_get d q = Some DirN" if "prefix q p" for q
    using that assms fs_wf_ancestors [OF assms(1), of p q] by (cases "q = p") auto
  then show ?thesis unfolding os_mkdir_all_def by (intro mkdir_all_from_existing) simp
qed

lemma path_comps_Dir:
  assumes "list_all proper_comp t" and "t \<noteq> []"
  shows "path_comps (Dir (unsplit True t)) = butlast t"
proof -
  let ?b = "butlast t" and ?l = "last t"
  have l: "CHR ''/'' \<notin> set ?l" using assms by (auto simp: list_all_iff proper_comp_def)
  have b: "list_all proper_comp ?b" using assms(1) by (auto simp: list_all_iff dest: in_set_butlastD)
  have dw: "dropWhile (\<lambda>c. c \<noteq> CHR ''/'') (rev ?l @ CHR ''/'' # r) = CHR ''/'' # r" for r
    using l by (subst dropWhile_append2) auto
  show ?thesis
  proof (cases "?b = []")
    case True
    then have "t = [?l]" using assms(2) by (metis append_Nil append_butlast_last_id)
    then have u: "unsplit True t = CHR ''/'' # ?l" by (metis Join.simps(2) unsplit_def)
    have "Dir (unsplit True t) = Clean ''/''" unfolding Dir_def u using dw [of "[]"] by simp
    then show ?thesis using True by (simp add: path_comps_Clean) code_simp
  next
    case False
    have "Join ''/'' t = Join ''/'' ?b @ ''/'' @ ?l"
    proof -
      have "Join ''/'' (xs @ [x]) = Join ''/'' xs @ ''/'' @ x" if "xs \<noteq> []" for xs x
        using that by (induction xs rule: list_nonempty_induct) (simp_all add: Join_Cons)
      with False show ?thesis using assms(2) by (metis append_butlast_last_id)
    qed
    then have u: "rev (unsplit True t) = rev ?l @ CHR ''/'' # rev (unsplit True ?b)"
      by (simp add: unsplit_def)
    have "Dir (unsplit True t) = Clean (unsplit True ?b @ ''/'')" unfolding Dir_def u dw by simp
    moreover have "path_comps (unsplit True ?b @ CHR ''/'' # []) = ?b"
      using b by (simp add: path_comps_child path_comps_unsplit clean_step_def)
    ultimately show ?thesis by (simp add: path_comps_Clean IsAbs_append)
  qed
qed

definition climb :: "conf \<Rightarrow> string list \<Rightarrow> string" where
  "climb c dir = Join ''/'' (replicate (Suc (length (path_comps (c_PathCaptures c)))) ''..'' @ dir)"

lemma fold_climb:
  "list_all proper_comp st \<Longrightarrow> fold (clean_step True) (replicate n ''..'') st = drop n st"
proof (induction n arbitrary: st)
  case (Suc n)
  have "clean_step True ''..'' st = tl st"
    using Suc.prems by (cases st) (auto simp: clean_step_def proper_comp_def)
  moreover have "list_all proper_comp (tl st)" using Suc.prems by (cases st) auto
  ultimately show ?case using Suc.IH by (simp add: drop_Suc del: fold_replicate)
qed simp

lemma upload_path_climb:
  assumes "IsAbs (c_PathCaptures c)" and "list_all proper_comp t" and "t \<noteq> []"
  shows "upload_path c (climb c (butlast t) @ ''/'' @ last t) = unsplit True t"
proof -
  let ?cc = "path_comps (c_PathCaptures c)" and ?up = "replicate (Suc (length (path_comps (c_PathCaptures c)))) ''..''"
  have tp: "\<forall>x \<in> set t. CHR ''/'' \<notin> set x" using assms(2) by (auto simp: list_all_iff proper_comp_def)
  have "climb c (butlast t) @ ''/'' @ last t = Join ''/'' (?up @ t)"
  proof -
    have "Join ''/'' (xs @ [x]) = Join ''/'' xs @ ''/'' @ x" if "xs \<noteq> []" for xs x
      using that by (induction xs rule: list_nonempty_induct) (simp_all add: Join_Cons)
    from this [of "?up @ butlast t" "last t"] show ?thesis
      using assms(3) by (simp add: climb_def del: replicate_Suc)
  qed
  moreover have "Split (CHR ''/'') (Join ''/'' (?up @ t)) = ?up @ t"
    using tp by (intro Split_Join) (auto simp del: replicate_Suc)
  ultimately have s: "Split (CHR ''/'') (climb c (butlast t) @ ''/'' @ last t) = ?up @ t" by simp
  let ?p = "c_PathCaptures c @ ''/scp-uploads/'' @ climb c (butlast t) @ ''/'' @ last t"
  have p: "?p = c_PathCaptures c @ CHR ''/'' # (''scp-uploads'' @ CHR ''/'' # (climb c (butlast t) @ ''/'' @ last t))"
    by simp
  have st: "list_all proper_comp (''scp-uploads'' # rev ?cc)"
    using path_comps_proper [OF assms(1)] by (simp add: proper_comp_def list_all_rev)
  have "path_comps ?p = rev (fold (clean_step True) (?up @ t) (''scp-uploads'' # rev ?cc))"
    unfolding p path_comps_child [OF assms(1)] Split_append_slash s
    by (simp add: Split_no_sep clean_step_def)
  also have "\<dots> = t"
    using fold_climb [OF st, of "Suc (length ?cc)"] assms(2)
    by (simp add: fold_clean_step_id del: replicate_Suc fold_replicate)
  finally show ?thesis using assms(1) by (simp add: upload_path_def Clean_unsplit IsAbs_append)
qed

lemma save_upload_new:
  assumes "lib_ok lib" and "fs_wf d" and "upload_path c full = unsplit True t" and "list_all proper_comp t"
    and "t \<noteq> []" and "fs_get d t = None" and "fs_get d (butlast t) = Some DirN"
  shows "fs_get (save_upload lib c full s d) t = Some (FileN s)"
proof -
  have t: "path_comps (unsplit True t) = t" using assms(4) by (rule path_comps_unsplit)
  have "\<not> sl_FileExists lib d (unsplit True t)"
    using assms(1,6) t by (auto simp: lib_ok_def file_exists_ok_def os_is_file_def os_stat_def
        split: option.splits)
  moreover have "os_mkdir_all d (path_comps (Dir (unsplit True t))) = Inr d"
    using path_comps_Dir [OF assms(4,5)] os_mkdir_all_existing [OF assms(2,7)] by simp
  moreover have "writable d t"
    using assms walk_child [OF assms(2,5,7)] by (simp add: writable_def)
  then obtain d' where "os_write_file d t s = Inr d'" using os_write_file_iff by metis
  ultimately show ?thesis
    using os_write_file_get [of d t s d'] t by (simp add: save_upload_def Let_def assms(3))
qed

text \<open>C26. An upload with \<open>scp -t\<close> into a directory that climbs out of the captures creates any file of the
  host that does not exist yet and whose directory does, with the content the client sends; the fake
  file system does not contain it.\<close>

theorem scp_escapes:
  assumes "lib_ok lib" and "fs_ready ofs d" and "IsAbs (c_PathCaptures c)"
    and "list_all proper_comp t" and "t \<noteq> []" and "fs_get d t = None"
    and "fs_get d (butlast t) = Some DirN" and "\<not> reach ofs t"
    and "dname = climb c (butlast t)" and "CHR '' '' \<notin> set dname" and "Trim dname quotes = dname"
    and "Trim (last t) quotes = last t" and "newline \<notin> set (last t)"
    and "CHR '' '' \<notin> set len" and "sl_BytesToInt lib len 0 = int (length s)"
    and "se_in (sh_session sh) = ''C0644 '' @ len @ '' '' @ last t @ [newline] @ s"
    and "OpenFile ofs (toAbs sh (dname @ ''/'' @ last t)) True True d = (Inr h, d1)"
  shows "\<exists>sh' d'. cmdScp lib c (Some ofs) (''scp -t '' @ dname) sh d = (Inr False, sh', d') \<and>
    se_in (sh_session sh') = [] \<and> fs_get d' t = Some (FileN s)"
proof -
  let ?full = "dname @ ''/'' @ last t" and ?sh1 = "WriteBinary (CHR 0x00) sh"
  let ?d2 = "os_overwrite d1 h s"
  have parts: "Split (CHR '' '') (''scp -t '' @ dname) = [''scp'', ''-t'', dname]"
    using assms(10) by (simp add: Split_no_sep)
  have sink: "is_sink [''scp'', ''-t'', dname]"
    by (simp add: is_sink_def HasPrefix_def Contains_def) (simp add: sublist_Cons_right)
  have hd: "read_header (''0644 '' @ len @ '' '' @ last t @ [newline] @ s) = (Some (''0644'', len, last t), s)"
    using assms(13,14) ReadBytesUntil_found [of "CHR '' ''" "''0644''" "len @ '' '' @ last t @ [newline] @ s"]
      ReadBytesUntil_found [of "CHR '' ''" len "last t @ [newline] @ s"]
      ReadBytesUntil_found [of newline "last t" s]
    by (simp add: read_header_def)
  have cwd: "toAbs (WriteBinary (CHR 0x00) x) = toAbs x" for x
    by (simp add: toAbs_def WriteBinary_def on_writer_def fun_eq_iff)
  have recv: "recv_file lib c (Some ofs) err [dname] len (last t) s (WriteBinary (CHR 0x00) sh) d =
      (True, [], WriteBinary (CHR 0x00) (WriteBinary (CHR 0x00) ?sh1), save_upload lib c ?full s ?d2)" for err
    using assms(12,15,17) by (simp add: recv_file_def Let_def cwd ReadBytesUntilEOF_all)
  have "stays ofs d d1" "reach ofs h"
    using OpenFile_stays [OF assms(2), of "toAbs sh ?full" True True] assms(17) by simp_all
  then have st: "stays ofs d ?d2" using overwrite_stays stays_ready stays_trans by blast
  have nb: "\<not> reach ofs (butlast t)"
  proof
    have ne: "merged ofs \<noteq> []" using assms(2) by (simp add: fs_ready_def fs_rooted_def)
    assume "reach ofs (butlast t)"
    then have "reach ofs (butlast t @ [last t])" using reach_iff [OF ne] by fastforce
    with assms(5,8) show False by simp
  qed
  have g: "fs_get ?d2 t = None" "fs_get ?d2 (butlast t) = Some DirN" "fs_wf ?d2"
    using st assms(6,7,8) nb by (simp_all add: stays_def fs_ready_def)
  have "fs_get (save_upload lib c ?full s ?d2) t = Some (FileN s)"
    using save_upload_new [OF assms(1) g(3) _ assms(4,5) g(1,2)] upload_path_climb [OF assms(3,4,5)]
      assms(9) by simp
  then show ?thesis
    using parts sink hd recv assms(11,16) by (simp add: cmdScp_def Let_def)
qed

definition sample_lib :: shell_lib where
  "sample_lib =
     \<lparr>sl_clk = (\<lambda>n. 1000000000 * int n), sl_DirExists = sample_dir_exists,
      sl_FileExists = sample_file_exists, sl_busy = (\<lambda>p. p = merged sample_fs),
      sl_GetLastError = (\<lambda>e. case e of FsError OutsideRoot \<Rightarrow> ''path outside root''
        | FsError (PathError x) \<Rightarrow> os_error_text x | Errno x \<Rightarrow> os_error_text x),
      sl_RemoveCommandFlags = filter (\<lambda>p. \<not> HasPrefix p ''-''),
      sl_GeneratePseudoEmptyString = (\<lambda>n. []), sl_GenerateGarbageString = (\<lambda>n k. ''%''),
      sl_BytesToInt = (\<lambda>s x. int (dec_value s)),
      sl_engine = \<lparr>en_string = (\<lambda>t data.
          let pre = takeWhile (\<lambda>x. x \<noteq> CHR ''{'') t; rest = dropWhile (\<lambda>x. x \<noteq> CHR ''{'') t
          in if HasPrefix rest ''{{ .Command }}''
             then Inr (pre @ td_Command data @ TrimPrefix rest ''{{ .Command }}'', None) else Inr (t, None)),
        en_files = (\<lambda>fs name data. Inl ''no template'')\<rparr>,
      sl_regexp = (\<lambda>re. None)\<rparr>"

lemma sample_engine_ok: "engine_ok (sl_engine sample_lib)"
  by (auto simp: engine_ok_def sample_lib_def Let_def HasPrefix_def TrimPrefix_def takeWhile_tail
      takeWhile_append dropWhile_append)

definition sample_shell :: "string \<Rightarrow> shell" where
  "sample_shell input =
     \<lparr>sh_session = \<lparr>se_User = ''root'', se_RemoteHost = ''6.6.6.6'', se_RemotePort = 22,
        se_LocalHost = ''10.0.0.1'', se_LocalPort = 2200, se_RawCommand = [], se_in = input,
        se_in_err = ''EOF'', se_lines = [], se_lines_err = ''EOF'', se_write_err = None, se_closed = False\<rparr>,
      sh_writer = NewSlowWriter 30 [],
      sh_stats = \<lparr>fss_Host = ''6.6.6.6'', fss_User = ''root'', fss_CommandsExecuted = 0,
        fss_CommandHistory = [], fss_recording = NewASCIICastV2 0 80 24\<rparr>,
      sh_prompt = ''root@nasty-pot:~# '', sh_cwd = ''/home/root'', sh_tick = 0\<rparr>"

lemma sample_shell_in [simp]: "se_in (sh_session (sample_shell i)) = i"
  by (simp add: sample_shell_def)

lemma sample_captures: "IsAbs (c_PathCaptures sample_conf)"
  by (simp add: sample_conf_def)

lemma sample_lib_ok: "lib_ok sample_lib"
  using sample_file_exists_ok by (simp add: lib_ok_def clk_ok_def sample_lib_def)

definition sample_host :: fsys where
  "sample_host = ([''root''], DirN) # sample_fs_disk"

lemma sample_host_ready: "fs_ready sample_fs sample_host"
proof -
  have "fs_wf sample_host" by (rule fs_wf_check) (unfold sample_host_def sample_fs_disk_def, code_simp)
  moreover have "fs_get sample_host (merged sample_fs) = Some DirN"
    unfolding sample_merged sample_host_def sample_fs_disk_def by code_simp
  ultimately show ?thesis
    by (simp add: fs_ready_def fs_rooted_def sample_merged) (simp add: sample_fs_def)
qed

theorem scp_escapes_witness:
  "\<exists>sh' d'. cmdScp sample_lib sample_conf (Some sample_fs) ''scp -t ../../../../root''
      (sample_shell (''C0644 2 key'' @ [newline] @ ''AB'')) sample_host = (Inr False, sh', d') \<and>
    fs_get d' [''root'', ''key''] = Some (FileN ''AB'')"
proof -
  have cl: "climb sample_conf [''root''] = ''../../../../root''"
    unfolding climb_def by (simp add: sample_conf_def) code_simp
  have lib: "sl_BytesToInt sample_lib ''2'' 0 = int (length ''AB'')"
    by (simp add: sample_lib_def) code_simp
  have abs: "toAbs (sample_shell i) ''../../../../root/key'' = ''/root/key''" for i
    by (simp add: toAbs_def sample_shell_def) code_simp
  have n: "fs_get sample_host [''root'', ''key''] = None" "fs_get sample_host [''root''] = Some DirN"
    unfolding sample_host_def sample_fs_disk_def by code_simp+
  have r: "\<not> reach sample_fs [''root'', ''key'']" unfolding reach_def sample_merged by code_simp
  have q: "Trim ''../../../../root'' quotes = ''../../../../root''" "Trim ''key'' quotes = ''key''"
    by code_simp+
  have o: "\<exists>d1. OpenFile sample_fs ''/root/key'' True True sample_host =
      (Inr [''ffs'', ''1'', ''merge-data'', ''root'', ''key''], d1)"
    unfolding sample_host_def sample_fs_disk_def sample_fs_def by (rule exI) code_simp
  then obtain d1 where "OpenFile sample_fs ''/root/key'' True True sample_host =
      (Inr [''ffs'', ''1'', ''merge-data'', ''root'', ''key''], d1)" by blast
  with abs have "OpenFile sample_fs (toAbs (sample_shell (''C0644 2 key'' @ [newline] @ ''AB''))
      (''../../../../root'' @ ''/'' @ ''key'')) True True sample_host =
      (Inr [''ffs'', ''1'', ''merge-data'', ''root'', ''key''], d1)" by simp
  then show ?thesis
    using scp_escapes [OF sample_lib_ok sample_host_ready, of sample_conf "[''root'', ''key'']"
        "''../../../../root''" "''2''" "''AB''" "sample_shell (''C0644 2 key'' @ [newline] @ ''AB'')"]
      cl lib n r q
    by (simp add: proper_comp_def sample_captures newline_def) blast
qed

end
