(* ===== verification/Metrics.thy ===== *)
theory Metrics
  imports Complex_Main Go_Prelude
begin

text \<open>
  \<^verbatim>\<open>metrics_server.go\<close>: the shadow counters of \<^verbatim>\<open>MetricsServer.last\<close> and the calls made to the
  Prometheus client. The client library is not part of the repository, so a call to it is
  recorded, in order, in the field \<open>prom\<close>; what the library does with it is not modelled.
  The counters are of type \<^verbatim>\<open>int\<close> and wrap around. A \<^verbatim>\<open>float64\<close> is an exact rational here, with the infinities and NaN that a division by
  zero gives; rounding is not modelled.
\<close>

section \<open>State\<close>

datatype gofloat = Fin rat | PosInf | NegInf | NaN

definition fdiv :: "rat \<Rightarrow> rat \<Rightarrow> gofloat" where
  "fdiv a b =
     (if b \<noteq> 0 then Fin (a / b) else if 0 < a then PosInf else if a < 0 then NegInf else NaN)"

datatype prom_metric =
    P_logins | P_loginsPerSecond | P_loginsFailed | P_loginsSuccessful
  | P_commandsExecuted | P_commandsExecutedPerSecond | P_knownHosts | P_knownPasswords
  | P_knownUsers | P_knownPayloads | P_activeSessions | P_timeOnline | P_timeWasted
  | P_timeWastedPerSecond

datatype prom_call =
    PInc prom_metric
  | PDec prom_metric
  | PAdd prom_metric rat
  | PSet prom_metric gofloat
  | PHostAdd string string rat

record metrics =
  l_logins :: goint
  l_loginsFailed :: goint
  l_loginsSuccessful :: goint
  l_commandsExecuted :: goint
  l_knownHosts :: goint
  l_knownUsers :: goint
  l_knownPasswords :: goint
  l_knownPayloads :: goint
  l_activeSessions :: goint
  l_timeOnline :: rat
  l_timeWasted :: rat
  prom :: "prom_call list"

definition prom_emit :: "prom_call list \<Rightarrow> metrics \<Rightarrow> metrics" where
  "prom_emit cs m = m\<lparr>prom := prom m @ cs\<rparr>"

section \<open>Operations\<close>

definition IncrementLogins :: "metrics \<Rightarrow> metrics" where
  "IncrementLogins m =
     (let m1 = (prom_emit [PInc P_logins] m)\<lparr>l_logins := l_logins m + 1\<rparr>
      in prom_emit [PSet P_loginsPerSecond (fdiv (of_int (sint (l_logins m1))) (l_timeOnline m1))] m1)"

definition IncrementFailedLogins :: "metrics \<Rightarrow> metrics" where
  "IncrementFailedLogins m =
     (prom_emit [PInc P_loginsFailed] m)\<lparr>l_loginsFailed := l_loginsFailed m + 1\<rparr>"

definition IncrementSuccessfulLogins :: "metrics \<Rightarrow> metrics" where
  "IncrementSuccessfulLogins m =
     (prom_emit [PInc P_loginsSuccessful] m)\<lparr>l_loginsSuccessful := l_loginsSuccessful m + 1\<rparr>"

definition IncrementKnownHosts :: "metrics \<Rightarrow> metrics" where
  "IncrementKnownHosts m =
     (prom_emit [PInc P_knownHosts] m)\<lparr>l_knownHosts := l_knownHosts m + 1\<rparr>"

definition IncrementKnownPasswords :: "metrics \<Rightarrow> metrics" where
  "IncrementKnownPasswords m =
     (prom_emit [PInc P_knownPasswords] m)\<lparr>l_knownPasswords := l_knownPasswords m + 1\<rparr>"

definition IncrementKnownUsers :: "metrics \<Rightarrow> metrics" where
  "IncrementKnownUsers m =
     (prom_emit [PInc P_knownUsers] m)\<lparr>l_knownUsers := l_knownUsers m + 1\<rparr>"

definition IncrementKnownPayloads :: "metrics \<Rightarrow> metrics" where
  "IncrementKnownPayloads m =
     (prom_emit [PInc P_knownPayloads] m)\<lparr>l_knownPayloads := l_knownPayloads m + 1\<rparr>"

definition IncrementExecutedCommands :: "metrics \<Rightarrow> metrics" where
  "IncrementExecutedCommands m =
     (let m1 = (prom_emit [PInc P_commandsExecuted] m)
                 \<lparr>l_commandsExecuted := l_commandsExecuted m + 1\<rparr>
      in prom_emit [PSet P_commandsExecutedPerSecond
                      (fdiv (of_int (sint (l_commandsExecuted m1))) (l_timeOnline m1))] m1)"

definition IncrementSessions :: "metrics \<Rightarrow> metrics" where
  "IncrementSessions m =
     (prom_emit [PInc P_activeSessions] m)\<lparr>l_activeSessions := l_activeSessions m + 1\<rparr>"

definition DecrementSessions :: "metrics \<Rightarrow> metrics" where
  "DecrementSessions m =
     (prom_emit [PDec P_activeSessions] m)\<lparr>l_activeSessions := l_activeSessions m - 1\<rparr>"

definition SetTimeOnline :: "rat \<Rightarrow> metrics \<Rightarrow> metrics" where
  "SetTimeOnline seconds m =
     (let m1 = (prom_emit [PSet P_timeOnline (Fin seconds)] m)\<lparr>l_timeOnline := seconds\<rparr>
      in prom_emit [PSet P_timeWastedPerSecond (fdiv (l_timeWasted m1) (l_timeOnline m1))] m1)"

definition AddTimeWasted :: "rat \<Rightarrow> metrics \<Rightarrow> metrics" where
  "AddTimeWasted seconds m =
     (prom_emit [PAdd P_timeWasted seconds] m)\<lparr>l_timeWasted := l_timeWasted m + seconds\<rparr>"

definition SetHostInfo :: "string \<Rightarrow> string list \<Rightarrow> metrics \<Rightarrow> metrics" where
  "SetHostInfo hostName serverHosts m =
     prom_emit [PHostAdd hostName (Join '', '' serverHosts) 1] m"

definition metrics_zero :: metrics where
  "metrics_zero =
     \<lparr>l_logins = 0, l_loginsFailed = 0, l_loginsSuccessful = 0, l_commandsExecuted = 0,
      l_knownHosts = 0, l_knownUsers = 0, l_knownPasswords = 0, l_knownPayloads = 0,
      l_activeSessions = 0, l_timeOnline = 0, l_timeWasted = 0, prom = []\<rparr>"

definition NewMetricsServer :: "string \<Rightarrow> string list \<Rightarrow> metrics" where
  "NewMetricsServer hostName serverHosts = SetHostInfo hostName serverHosts metrics_zero"

lemmas metrics_defs =
  IncrementLogins_def IncrementFailedLogins_def IncrementSuccessfulLogins_def
  IncrementKnownHosts_def IncrementKnownPasswords_def IncrementKnownUsers_def
  IncrementKnownPayloads_def IncrementExecutedCommands_def IncrementSessions_def
  DecrementSessions_def SetTimeOnline_def AddTimeWasted_def SetHostInfo_def prom_emit_def

section \<open>Registration\<close>

text \<open>The metrics \<^verbatim>\<open>NewMetricsServer\<close> registers: the field, the kind with its labels, the name and the help
  text. Registering a name twice makes \<^verbatim>\<open>promauto\<close> panic.\<close>

datatype metric_kind = Counter | Gauge | GaugeVec "string list"

definition metric_opts :: "(string \<times> metric_kind \<times> string \<times> string) list" where
  "metric_opts =
     [(''logins'', Counter, ''ossh_logins'',
        ''The total number of logins''),
      (''loginsPerSecond'', Gauge, ''ossh_logins_per_second'',
        ''The number of logins to this instance per second of online time''),
      (''loginsFailed'', Counter, ''ossh_logins_failed'',
        ''The total number of failed logins''),
      (''loginsSuccessful'', Counter, ''ossh_logins_successful'',
        ''The total number of successful logins''),
      (''commandsExecuted'', Counter, ''ossh_commands_executed'',
        ''The total number of commands executed in SSH sessions''),
      (''commandsExecutedPerSecond'', Gauge, ''ossh_commands_executed_per_second'',
        ''The number of commands this instance has executed per second of online time''),
      (''knownHosts'', Gauge, ''ossh_known_hosts'',
        ''The number of hosts known to this instance''),
      (''knownPasswords'', Gauge, ''ossh_known_passwords'',
        ''The number of passwords known to this instance''),
      (''knownUsers'', Gauge, ''ossh_known_users'',
        ''The number of user names known to this instance''),
      (''knownPayloads'', Gauge, ''ossh_known_payloads'',
        ''The number of payloads known to this instance''),
      (''activeSessions'', Gauge, ''ossh_active_sessions'',
        ''The number of SSH session currently open on this instance''),
      (''timeOnline'', Gauge, ''ossh_time_online'',
        ''The number of seconds this instance has been running''),
      (''timeWasted'', Gauge, ''ossh_time_wasted'',
        ''The number of bot seconds this instance has wasted''),
      (''timeWastedPerSecond'', Gauge, ''ossh_time_wasted_per_second'',
        ''The number of bot seconds this instance has wasted per second of online time''),
      (''host'', GaugeVec [''name'', ''ip''], ''ossh_host_info'',
        ''Info about the host oSSH runs on'')]"

fun register_metrics :: "(string \<times> metric_kind \<times> string \<times> string) list \<Rightarrow> string list \<Rightarrow> go_panic + string list" where
  "register_metrics [] names = Inr names"
| "register_metrics ((fld, k, name, help) # ms) names =
     (if List.member names name then Inl (PanicValue ''duplicate metrics collector registration attempted'')
      else register_metrics ms (names @ [name]))"

text \<open>All names differ, so a single metrics server can always be made; a second one panics.\<close>

lemma register_metrics_once: "register_metrics metric_opts [] = Inr (map (\<lambda>(f, k, n, h). n) metric_opts)"
  by code_simp

lemma register_metrics_twice:
  "register_metrics (metric_opts @ metric_opts) [] =
     Inl (PanicValue ''duplicate metrics collector registration attempted'')"
  by code_simp

section \<open>The shadow counters agree with the calls made to Prometheus\<close>

fun prom_balance :: "prom_metric \<Rightarrow> prom_call list \<Rightarrow> int" where
  "prom_balance p [] = 0"
| "prom_balance p (PInc q # cs) = (if p = q then 1 else 0) + prom_balance p cs"
| "prom_balance p (PDec q # cs) = (if p = q then -1 else 0) + prom_balance p cs"
| "prom_balance p (_ # cs) = prom_balance p cs"

fun prom_sum :: "prom_metric \<Rightarrow> prom_call list \<Rightarrow> rat" where
  "prom_sum p [] = 0"
| "prom_sum p (PAdd q x # cs) = (if p = q then x else 0) + prom_sum p cs"
| "prom_sum p (_ # cs) = prom_sum p cs"

lemma prom_balance_append [simp]:
  "prom_balance p (cs @ ds) = prom_balance p cs + prom_balance p ds"
  by (induction p cs rule: prom_balance.induct) simp_all

lemma prom_sum_append [simp]: "prom_sum p (cs @ ds) = prom_sum p cs + prom_sum p ds"
  by (induction p cs rule: prom_sum.induct) simp_all

text \<open>The shadow counter of a metric, if it has one.\<close>

fun shadow :: "prom_metric \<Rightarrow> metrics \<Rightarrow> goint option" where
  "shadow P_logins m = Some (l_logins m)"
| "shadow P_loginsFailed m = Some (l_loginsFailed m)"
| "shadow P_loginsSuccessful m = Some (l_loginsSuccessful m)"
| "shadow P_commandsExecuted m = Some (l_commandsExecuted m)"
| "shadow P_knownHosts m = Some (l_knownHosts m)"
| "shadow P_knownUsers m = Some (l_knownUsers m)"
| "shadow P_knownPasswords m = Some (l_knownPasswords m)"
| "shadow P_knownPayloads m = Some (l_knownPayloads m)"
| "shadow P_activeSessions m = Some (l_activeSessions m)"
| "shadow _ m = None"

definition metrics_synced :: "metrics \<Rightarrow> bool" where
  "metrics_synced m \<longleftrightarrow>
     (\<forall>p. shadow p m = None \<or> shadow p m = Some (of_int (prom_balance p (prom m)))) \<and>
     l_timeWasted m = prom_sum P_timeWasted (prom m)"

datatype metrics_op =
    MLogin | MFailed | MSuccessful | MHost | MPassword | MUser | MPayload | MCommand
  | MSessionUp | MSessionDown | MOnline rat | MWasted rat

fun metrics_step :: "metrics_op \<Rightarrow> metrics \<Rightarrow> metrics" where
  "metrics_step MLogin = IncrementLogins"
| "metrics_step MFailed = IncrementFailedLogins"
| "metrics_step MSuccessful = IncrementSuccessfulLogins"
| "metrics_step MHost = IncrementKnownHosts"
| "metrics_step MPassword = IncrementKnownPasswords"
| "metrics_step MUser = IncrementKnownUsers"
| "metrics_step MPayload = IncrementKnownPayloads"
| "metrics_step MCommand = IncrementExecutedCommands"
| "metrics_step MSessionUp = IncrementSessions"
| "metrics_step MSessionDown = DecrementSessions"
| "metrics_step (MOnline t) = SetTimeOnline t"
| "metrics_step (MWasted t) = AddTimeWasted t"

lemma shadow_None: "shadow p m = None \<longleftrightarrow> shadow p m' = None"
  by (cases p) simp_all

lemma metrics_step_shadow:
  "shadow p m = Some (of_int (prom_balance p (prom m))) \<Longrightarrow>
     shadow p (metrics_step op m) = Some (of_int (prom_balance p (prom (metrics_step op m))))"
  by (cases p; cases op) (simp_all add: metrics_defs Let_def)

lemma metrics_step_synced:
  assumes "metrics_synced m" shows "metrics_synced (metrics_step op m)"
proof -
  have "l_timeWasted (metrics_step op m) = prom_sum P_timeWasted (prom (metrics_step op m))"
    using assms by (cases op) (simp_all add: metrics_synced_def metrics_defs Let_def)
  with assms metrics_step_shadow shadow_None show ?thesis unfolding metrics_synced_def by blast
qed

lemma metrics_run_synced: "metrics_synced m \<Longrightarrow> metrics_synced (fold metrics_step ops m)"
  by (induction ops arbitrary: m) (simp_all add: metrics_step_synced)

lemma NewMetricsServer_synced: "metrics_synced (NewMetricsServer name hosts)"
proof -
  have "shadow p m = None \<or> shadow p m = Some (of_int (prom_balance p (prom m)))"
    if "m = NewMetricsServer name hosts" for p m
    using that by (cases p) (simp_all add: NewMetricsServer_def metrics_zero_def metrics_defs)
  then show ?thesis
    by (simp add: metrics_synced_def) (simp add: NewMetricsServer_def metrics_zero_def metrics_defs)
qed

text \<open>C36. However the program calls the metrics server after start-up, each shadow counter, read as the
  signed 64-bit integer it is, equals the increments minus the decrements sent to its Prometheus
  metric, wrapped around to 64 bits; the shadow of the wasted time equals the sum of the amounts
  sent.\<close>

theorem metrics_shadow_agrees:
  "let m = fold metrics_step ops (NewMetricsServer name hosts)
   in (\<forall>p. map_option sint (shadow p m) = map_option (\<lambda>_. wrap64 (prom_balance p (prom m))) (shadow p m)) \<and>
      l_timeWasted m = prom_sum P_timeWasted (prom m)"
proof -
  let ?m = "fold metrics_step ops (NewMetricsServer name hosts)"
  have s: "metrics_synced ?m" by (intro metrics_run_synced NewMetricsServer_synced)
  have "map_option sint (shadow p ?m) = map_option (\<lambda>_. wrap64 (prom_balance p (prom ?m))) (shadow p ?m)" for p
  proof (cases "shadow p ?m")
    case (Some l)
    moreover have "shadow p ?m = None \<or> shadow p ?m = Some (of_int (prom_balance p (prom ?m)))"
      using s unfolding metrics_synced_def by blast
    ultimately have "l = of_int (prom_balance p (prom ?m))" by simp
    with Some show ?thesis by (simp add: sint_of_int)
  qed simp
  with s show ?thesis by (simp add: metrics_synced_def Let_def)
qed

text \<open>A login counted before the first statistics update, while the online time is still zero, sets the
  logins-per-second gauge to positive infinity; once a positive online time is set, the gauge is
  the finite quotient.\<close>

theorem logins_per_second_gauge:
  assumes "0 < sint (l_logins m + 1)" and "0 \<le> l_timeOnline m"
  shows "last (prom (IncrementLogins m)) =
    PSet P_loginsPerSecond
      (if l_timeOnline m = 0 then PosInf else Fin (of_int (sint (l_logins m + 1)) / l_timeOnline m))"
proof -
  have "(of_int (sint (l_logins m + 1)) :: rat) > 0" using assms(1) by (simp only: of_int_0_less_iff)
  then show ?thesis by (simp add: metrics_defs Let_def fdiv_def del: of_int_sint)
qed

theorem logins_per_second_gauge_witness:
  "last (prom (IncrementLogins metrics_zero)) = PSet P_loginsPerSecond PosInf"
  using logins_per_second_gauge [of metrics_zero] by (simp add: metrics_zero_def)

end
