(* ===== verification/Logins.thy ===== *)
theory Logins
  imports Metrics
begin

text \<open>
  \<^verbatim>\<open>ossh_logins.go\<close>: per-host login counters. A \<^verbatim>\<open>*Login\<close> obtained from \<^verbatim>\<open>Logins.Get\<close> aliases the
  entry of the map, so counting through it updates that entry. The counters are \<^verbatim>\<open>uint\<close>, kept
  as 64-bit words. Every method holds the mutex of its object for its whole body and is one
  atomic operation here.
\<close>

record login =
  failure :: uint64
  success :: uint64

type_synonym logins = "(string, login) gomap"

definition NewLogins :: logins where
  "NewLogins = gm_empty"

definition Login_AddFailure :: "login \<Rightarrow> metrics \<Rightarrow> login \<times> metrics" where
  "Login_AddFailure l m =
     (l\<lparr>failure := failure l + 1\<rparr>, IncrementFailedLogins (IncrementLogins m))"

definition Login_AddSuccess :: "login \<Rightarrow> metrics \<Rightarrow> login \<times> metrics" where
  "Login_AddSuccess l m =
     (l\<lparr>success := success l + 1\<rparr>, IncrementSuccessfulLogins (IncrementLogins m))"

definition Login_GetSuccesses :: "login \<Rightarrow> uint64" where
  [simp]: "Login_GetSuccesses l = success l"

definition Login_GetFailures :: "login \<Rightarrow> uint64" where
  [simp]: "Login_GetFailures l = failure l"

definition Login_GetAttempts :: "login \<Rightarrow> uint64" where
  "Login_GetAttempts l = success l + failure l"

definition Logins_Has :: "string \<Rightarrow> logins \<Rightarrow> bool" where
  "Logins_Has host ls = gm_has host ls"

definition new_login :: login where
  "new_login = \<lparr>failure = 0, success = 0\<rparr>"

text \<open>\<^verbatim>\<open>Get\<close> creates a missing entry; it returns the entry and the (possibly grown) map.\<close>

definition Logins_Get :: "string \<Rightarrow> logins \<Rightarrow> login \<times> logins" where
  "Logins_Get host ls =
     (let ls1 = (if Logins_Has host ls then ls else gm_put host new_login ls)
      in (case gm_get host ls1 of Some l \<Rightarrow> l | None \<Rightarrow> new_login, ls1))"

definition Logins_fail :: "string \<Rightarrow> logins \<times> metrics \<Rightarrow> logins \<times> metrics" where
  "Logins_fail host = (\<lambda>(ls, m).
     (let (l, ls1) = Logins_Get host ls; (l1, m1) = Login_AddFailure l m
      in (gm_put host l1 ls1, m1)))"

definition Logins_succeed :: "string \<Rightarrow> logins \<times> metrics \<Rightarrow> logins \<times> metrics" where
  "Logins_succeed host = (\<lambda>(ls, m).
     (let (l, ls1) = Logins_Get host ls; (l1, m1) = Login_AddSuccess l m
      in (gm_put host l1 ls1, m1)))"

definition entry :: "string \<Rightarrow> logins \<Rightarrow> login" where
  "entry host ls = (case gm_get host ls of Some l \<Rightarrow> l | None \<Rightarrow> new_login)"

text \<open>The totals range over the map in the order \<open>ks\<close>.\<close>

definition Logins_GetSuccesses :: "string list \<Rightarrow> logins \<Rightarrow> uint64" where
  "Logins_GetSuccesses ks ls = fold (\<lambda>h n. n + Login_GetSuccesses (entry h ls)) ks 0"

definition Logins_GetFailures :: "string list \<Rightarrow> logins \<Rightarrow> uint64" where
  "Logins_GetFailures ks ls = fold (\<lambda>h n. n + Login_GetFailures (entry h ls)) ks 0"

definition Logins_GetAttempts :: "string list \<Rightarrow> string list \<Rightarrow> logins \<Rightarrow> uint64" where
  "Logins_GetAttempts ks js ls = Logins_GetSuccesses ks ls + Logins_GetFailures js ls"

section \<open>The counters count the login events\<close>

text \<open>The specification: a log of login events, newest last.\<close>

type_synonym login_event = "string \<times> bool"

definition login_step :: "login_event \<Rightarrow> logins \<times> metrics \<Rightarrow> logins \<times> metrics" where
  "login_step e = (if snd e then Logins_succeed (fst e) else Logins_fail (fst e))"

definition login_run :: "login_event list \<Rightarrow> logins \<times> metrics \<Rightarrow> logins \<times> metrics" where
  "login_run es = fold login_step es"

lemma Logins_Get_entry [simp]: "fst (Logins_Get host ls) = entry host ls"
  by (auto simp: Logins_Get_def Logins_Has_def entry_def gm_has_def gm.get_put Let_def)

lemma Logins_Get_same [simp]: "entry h (snd (Logins_Get host ls)) = entry h ls"
  by (auto simp: Logins_Get_def Logins_Has_def entry_def gm_has_def gm.get_put Let_def)

lemma entry_put [simp]: "entry h (gm_put k l ls) = (if h = k then l else entry h ls)"
  by (simp add: entry_def gm.get_put)

lemma gm_inv_Get [simp]: "gm_inv ls \<Longrightarrow> gm_inv (snd (Logins_Get host ls))"
  by (simp add: Logins_Get_def Let_def gm.inv_put)

lemma login_step_entry:
  "entry h (fst (login_step e s)) =
     (if h = fst e
      then (if snd e then (entry h (fst s))\<lparr>success := success (entry h (fst s)) + 1\<rparr>
            else (entry h (fst s))\<lparr>failure := failure (entry h (fst s)) + 1\<rparr>)
      else entry h (fst s))"
  by (cases s) (simp add: login_step_def Logins_fail_def Logins_succeed_def
      Login_AddFailure_def Login_AddSuccess_def split_def Let_def)

lemma login_step_inv: "gm_inv (fst s) \<Longrightarrow> gm_inv (fst (login_step e s))"
  by (cases s) (simp add: login_step_def Logins_fail_def Logins_succeed_def
      Login_AddFailure_def Login_AddSuccess_def split_def Let_def gm.inv_put)

lemma login_step_metrics:
  "snd (login_step e s) =
     (if snd e then IncrementSuccessfulLogins (IncrementLogins (snd s))
      else IncrementFailedLogins (IncrementLogins (snd s)))"
  by (cases s) (simp add: login_step_def Logins_fail_def Logins_succeed_def
      Login_AddFailure_def Login_AddSuccess_def split_def Let_def)

lemma login_run_entry:
  "success (entry h (fst (login_run es s))) =
     success (entry h (fst s)) + of_nat (count_list es (h, True)) \<and>
   failure (entry h (fst (login_run es s))) =
     failure (entry h (fst s)) + of_nat (count_list es (h, False))"
proof (induction es arbitrary: s)
  case Nil
  then show ?case by (simp add: login_run_def)
next
  case (Cons e es)
  have "login_run (e # es) s = login_run es (login_step e s)"
    by (simp add: login_run_def)
  with Cons.IH [of "login_step e s"] show ?case
    by (cases e) (auto simp: login_step_entry)
qed

lemma login_run_inv: "gm_inv (fst s) \<Longrightarrow> gm_inv (fst (login_run es s))"
  unfolding login_run_def by (induction es arbitrary: s) (simp_all add: login_step_inv)

lemma login_step_has:
  "gm_has h (fst (login_step e s)) \<longleftrightarrow> h = fst e \<or> gm_has h (fst s)"
  by (cases s) (auto simp: login_step_def Logins_fail_def Logins_succeed_def
      Login_AddFailure_def Login_AddSuccess_def split_def Let_def gm_has_put Logins_Get_def
      Logins_Has_def)

lemma login_run_has:
  "gm_has h (fst (login_run es s)) \<longleftrightarrow> h \<in> fst ` set es \<or> gm_has h (fst s)"
  unfolding login_run_def by (induction es arbitrary: s) (auto simp: login_step_has)

lemma fold_sum: "fold (\<lambda>h n. n + f h) ks a = a + (\<Sum>h\<leftarrow>ks. f h :: 'a::comm_monoid_add)"
  by (induction ks arbitrary: a) (simp_all add: ac_simps)

lemma sum_list_counts:
  assumes "distinct ks" and "fst ` set es \<subseteq> set ks"
  shows "(\<Sum>h\<leftarrow>ks. count_list es (h, b)) = length (filter (\<lambda>e. snd e = b) es)"
  using assms(2)
proof (induction es)
  case Nil
  then show ?case by (simp add: sum_list_0)
next
  case (Cons e es)
  have "(\<Sum>h\<leftarrow>ks. count_list (e # es) (h, b)) =
      (\<Sum>h\<leftarrow>ks. (if e = (h, b) then 1 else 0) + count_list es (h, b))"
    by (intro arg_cong [where f = sum_list] map_cong) auto
  also have "\<dots> = (\<Sum>h\<leftarrow>ks. if e = (h, b) then 1 else 0) + (\<Sum>h\<leftarrow>ks. count_list es (h, b))"
    by (rule sum_list_addf)
  also have "(\<Sum>h\<leftarrow>ks. if e = (h, b) then 1 else 0 :: nat) = (if snd e = b then 1 else 0)"
  proof -
    obtain h b' where e: "e = (h, b')" by (cases e)
    have "(\<Sum>j\<leftarrow>ks. if e = (j, b) then 1 else 0 :: nat) =
        (\<Sum>j \<in> set ks. if h = j then (if b' = b then 1 else 0) else 0)"
      using assms(1) e by (subst sum_list_distinct_conv_sum_set) (auto intro!: sum.cong)
    with Cons.prems e show ?thesis by simp
  qed
  finally show ?case using Cons by simp
qed

lemma run_totals:
  assumes "map_order (fst (login_run es (NewLogins, m))) ks"
  shows "Logins_GetSuccesses ks (fst (login_run es (NewLogins, m))) =
      of_nat (length (filter snd es))"
    and "Logins_GetFailures ks (fst (login_run es (NewLogins, m))) =
      of_nat (length (filter (\<lambda>e. \<not> snd e) es))"
proof -
  have d: "distinct ks" and s: "fst ` set es \<subseteq> set ks"
    using map_order_distinct [OF login_run_inv assms] map_order_set [OF assms]
    by (auto simp: NewLogins_def login_run_has)
  have e: "entry h NewLogins = new_login" for h
    by (simp add: NewLogins_def entry_def)
  note c = sum_list_counts [OF d s]
  have hom: "(\<Sum>h\<leftarrow>ks. of_nat (g h) :: uint64) = of_nat (\<Sum>h\<leftarrow>ks. g h)" for g :: "string \<Rightarrow> nat"
    by (induction ks) simp_all
  show "Logins_GetSuccesses ks (fst (login_run es (NewLogins, m))) = of_nat (length (filter snd es))"
    and "Logins_GetFailures ks (fst (login_run es (NewLogins, m))) =
      of_nat (length (filter (\<lambda>e. \<not> snd e) es))"
    using c [of True] c [of False]
    by (simp_all add: Logins_GetSuccesses_def Logins_GetFailures_def fold_sum login_run_entry
        e new_login_def hom)
qed

text \<open>C35. After any sequence of login events, and in whatever orders the totals range over the map,
  the attempts, successes and failures are the numbers of such events modulo \<open>2 ^ 64\<close>; the
  metrics server counts the same logins, with the same wrap-around.\<close>

theorem login_totals:
  assumes "map_order (fst (login_run es (NewLogins, m))) ks"
    and "map_order (fst (login_run es (NewLogins, m))) js"
  shows "Logins_GetSuccesses ks (fst (login_run es (NewLogins, m))) =
      of_nat (length (filter snd es)) \<and>
    Logins_GetFailures ks (fst (login_run es (NewLogins, m))) =
      of_nat (length (filter (\<lambda>e. \<not> snd e) es)) \<and>
    Logins_GetAttempts ks js (fst (login_run es (NewLogins, m))) = of_nat (length es) \<and>
    l_logins (snd (login_run es (NewLogins, m))) = l_logins m + of_nat (length es)"
proof -
  have "length (filter snd es) + length (filter (\<lambda>e. \<not> snd e) es) = length es"
    by (rule sum_length_filter_compl)
  then have "Logins_GetAttempts ks js (fst (login_run es (NewLogins, m))) = of_nat (length es)"
    using run_totals [OF assms(1)] run_totals [OF assms(2)]
    by (simp add: Logins_GetAttempts_def flip: of_nat_add)
  moreover have "l_logins (snd (fold login_step es s)) = l_logins (snd s) + of_nat (length es)" for s
    by (induction es arbitrary: s) (simp_all add: login_step_metrics metrics_defs Let_def)
  ultimately show ?thesis
    using run_totals [OF assms(1)] by (simp add: login_run_def)
qed

theorem login_totals_witness:
  "Logins_GetAttempts [''b'', ''a''] [''a'', ''b'']
     (fst (login_run [(''a'', True), (''b'', False), (''a'', False)] (NewLogins, metrics_zero))) = 3"
proof -
  let ?es = "[(''a'', True), (''b'', False), (''a'', False)]"
  have "gm_keys (fst (login_run ?es (NewLogins, metrics_zero))) = [''a'', ''b'']"
    by (simp add: login_run_def login_step_def Logins_fail_def Logins_succeed_def Logins_Get_def
        Logins_Has_def NewLogins_def gm_has_def gm_get_def gm_put_def gm_keys_def
        Login_AddFailure_def Login_AddSuccess_def)
  then have "map_order (fst (login_run ?es (NewLogins, metrics_zero))) [''b'', ''a'']"
    and "map_order (fst (login_run ?es (NewLogins, metrics_zero))) [''a'', ''b'']"
    by (simp_all add: map_order_def add_mset_commute)
  from login_totals [OF this] show ?thesis by simp
qed

end
