(* ===== verification/Loot.thy ===== *)
theory Loot
  imports Metrics Payloads
begin

text \<open>
  \<^verbatim>\<open>ossh_loot.go\<close>: the collected users, passwords, hosts and payloads. The sets are
  \<^verbatim>\<open>map[string]bool\<close>. The adding methods also count in the metrics server, so they act on the
  pair of the loot and the metrics. Every call is one atomic operation here; the theory
  \<open>Loot_Race\<close> splits \<^verbatim>\<open>AddUser\<close> at its two critical sections.
\<close>

section \<open>State\<close>

record loot =
  users :: "(string, bool) gomap"
  passwords :: "(string, bool) gomap"
  hosts :: "(string, bool) gomap"
  payloads :: payloads

type_synonym loot_st = "loot \<times> metrics"

definition NewLoot :: loot where
  "NewLoot = \<lparr>users = gm_empty, passwords = gm_empty, hosts = gm_empty, payloads = NewPayloads\<rparr>"

section \<open>Operations\<close>

definition HasUser :: "string \<Rightarrow> loot \<Rightarrow> bool" where
  "HasUser u l = gm_has u (users l)"

definition HasPassword :: "string \<Rightarrow> loot \<Rightarrow> bool" where
  "HasPassword p l = gm_has p (passwords l)"

definition HasHost :: "string \<Rightarrow> loot \<Rightarrow> bool" where
  "HasHost h l = gm_has h (hosts l)"

definition HasPayload :: "string \<Rightarrow> loot \<Rightarrow> bool" where
  "HasPayload f l = Payloads_Has f (payloads l)"

definition AddUser :: "string \<Rightarrow> loot_st \<Rightarrow> bool \<times> loot_st" where
  "AddUser u0 = (\<lambda>(l, m).
     (let u = TrimSpace u0
      in if u = [] then (False, (l, m))
         else if HasUser u l then (False, (l, m))
         else (True, (l\<lparr>users := gm_put u True (users l)\<rparr>, IncrementKnownUsers m))))"

definition AddPassword :: "string \<Rightarrow> loot_st \<Rightarrow> bool \<times> loot_st" where
  "AddPassword p0 = (\<lambda>(l, m).
     (let p = TrimSpace p0
      in if p = [] then (False, (l, m))
         else if HasPassword p l then (False, (l, m))
         else (True, (l\<lparr>passwords := gm_put p True (passwords l)\<rparr>, IncrementKnownPasswords m))))"

definition AddHost :: "conf \<Rightarrow> string \<Rightarrow> loot_st \<Rightarrow> bool \<times> loot_st" where
  "AddHost c h0 = (\<lambda>(l, m).
     (let h = TrimSpace h0
      in if h = [] then (False, (l, m))
         else if isIPWhitelisted c h then (False, (l, m))
         else if HasHost h l then (False, (l, m))
         else (True, (l\<lparr>hosts := gm_put h True (hosts l)\<rparr>, IncrementKnownHosts m))))"

definition AddPayload :: "conf \<Rightarrow> string \<Rightarrow> loot_st \<Rightarrow> bool \<times> loot_st" where
  "AddPayload c f0 = (\<lambda>(l, m).
     (let f = TrimSpace f0
      in if f = [] then (False, (l, m))
         else if \<not> HasPayload f l
         then (True, (l\<lparr>payloads := Payloads_Add (SetHash c f NewPayload) (payloads l)\<rparr>,
                      IncrementKnownPayloads m))
         else (True, (l, m))))"

text \<open>The batch operations count the elements whose addition reported success.\<close>

definition add_counted ::
  "(string \<Rightarrow> bool) \<Rightarrow> (string \<Rightarrow> loot_st \<Rightarrow> bool \<times> loot_st) \<Rightarrow> string \<Rightarrow>
   nat \<times> loot_st \<Rightarrow> nat \<times> loot_st" where
  "add_counted skip add x0 = (\<lambda>(n, s).
     (let x = TrimSpace x0
      in if x = [] \<or> skip x then (n, s)
         else (case add x s of (b, s') \<Rightarrow> (if b then n + 1 else n, s'))))"

definition AddUsers :: "string list \<Rightarrow> loot_st \<Rightarrow> nat \<times> loot_st" where
  "AddUsers us s = fold (add_counted (\<lambda>_. False) AddUser) us (0, s)"

definition AddPasswords :: "string list \<Rightarrow> loot_st \<Rightarrow> nat \<times> loot_st" where
  "AddPasswords ps s = fold (add_counted (\<lambda>_. False) AddPassword) ps (0, s)"

definition AddHosts :: "conf \<Rightarrow> string list \<Rightarrow> loot_st \<Rightarrow> nat \<times> loot_st" where
  "AddHosts c hs s = fold (add_counted (isIPWhitelisted c) (AddHost c)) hs (0, s)"

definition CountUsers :: "loot \<Rightarrow> nat" where
  "CountUsers l = gm_len (users l)"

definition CountPasswords :: "loot \<Rightarrow> nat" where
  "CountPasswords l = gm_len (passwords l)"

definition CountHosts :: "loot \<Rightarrow> nat" where
  "CountHosts l = gm_len (hosts l)"

definition CountPayloads :: "loot \<Rightarrow> nat" where
  "CountPayloads l = gm_len (payloads l)"

text \<open>\<^verbatim>\<open>GetPayloads\<close> and \<^verbatim>\<open>GetPayloadsWithTimestamp\<close> range over the keys in the order \<open>ks\<close> and keep the
  payloads whose capture file exists. \<open>modTime\<close> is \<^verbatim>\<open>gutils.FileModTime\<close> in milliseconds.\<close>

definition GetPayloads ::
  "(fsys \<Rightarrow> string \<Rightarrow> bool) \<Rightarrow> conf \<Rightarrow> fsys \<Rightarrow> string list \<Rightarrow> string list" where
  "GetPayloads fileExists c d ks =
     filter (\<lambda>f. payload_Exists fileExists d (SetHash c f NewPayload)) ks"

fun GetPayloadsWithTimestamp ::
  "(fsys \<Rightarrow> string \<Rightarrow> bool) \<Rightarrow> (fsys \<Rightarrow> string \<Rightarrow> string + int) \<Rightarrow> conf \<Rightarrow> fsys \<Rightarrow> string list \<Rightarrow>
   string list" where
  "GetPayloadsWithTimestamp fileExists modTime c d [] = []"
| "GetPayloadsWithTimestamp fileExists modTime c d (f # fs) =
     (let p = SetHash c f NewPayload; rest = GetPayloadsWithTimestamp fileExists modTime c d fs
      in if payload_Exists fileExists d p
         then (case modTime d (p_file p) of
                 Inl e \<Rightarrow> rest
               | Inr t \<Rightarrow> (int_dec t @ ''-'' @ p_hash p) # rest)
         else rest)"

text \<open>The fingerprint of the four sections. \<open>sha\<close> is \<^verbatim>\<open>gutils.StringSliceToSha256\<close>; the arguments are the
  sections in the orders the maps were ranged over.\<close>

definition Fingerprint ::
  "(string list \<Rightarrow> string) \<Rightarrow> string list \<Rightarrow> string list \<Rightarrow> string list \<Rightarrow> string list \<Rightarrow> string" where
  "Fingerprint sha hs us ps pls =
     sha hs @ '':'' @ sha us @ '':'' @ sha ps @ '':'' @ sha pls"

section \<open>Invariant\<close>

definition clean_keys :: "(string, 'v) gomap \<Rightarrow> bool" where
  "clean_keys m \<longleftrightarrow> (\<forall>k. gm_has k m \<longrightarrow> k \<noteq> [] \<and> TrimSpace k = k)"

definition loot_wf :: "loot \<Rightarrow> bool" where
  "loot_wf l \<longleftrightarrow>
     gm_inv (users l) \<and> gm_inv (passwords l) \<and> gm_inv (hosts l) \<and> gm_inv (payloads l) \<and>
     clean_keys (users l) \<and> clean_keys (passwords l) \<and> clean_keys (hosts l) \<and>
     clean_keys (payloads l)"

definition loot_counted :: "loot_st \<Rightarrow> bool" where
  "loot_counted = (\<lambda>(l, m).
     l_knownUsers m = of_nat (CountUsers l) \<and> l_knownPasswords m = of_nat (CountPasswords l) \<and>
     l_knownHosts m = of_nat (CountHosts l) \<and> l_knownPayloads m = of_nat (CountPayloads l))"

definition loot_inv :: "loot_st \<Rightarrow> bool" where
  "loot_inv s \<longleftrightarrow> loot_wf (fst s) \<and> loot_counted s"

lemmas loot_defs =
  AddUser_def AddPassword_def AddHost_def AddPayload_def HasUser_def HasPassword_def
  HasHost_def HasPayload_def CountUsers_def CountPasswords_def CountHosts_def
  CountPayloads_def Payloads_Has_def Payloads_Add_def

lemma clean_keys_put: "clean_keys m \<Longrightarrow> k \<noteq> [] \<Longrightarrow> TrimSpace k = k \<Longrightarrow> clean_keys (gm_put k v m)"
  by (simp add: clean_keys_def gm_has_put)

lemma clean_keys_empty [simp]: "clean_keys []"
  by (simp add: clean_keys_def)

lemma SetHash_hash [simp]: "p_hash (SetHash c f p) = f"
  by (simp add: SetHash_def)

lemma AddUser_inv: "loot_inv s \<Longrightarrow> loot_inv (snd (AddUser u s))"
  by (cases s) (auto simp: loot_inv_def loot_wf_def loot_counted_def loot_defs metrics_defs
      clean_keys_put gm.inv_put gm_len_put Let_def)

lemma AddPassword_inv: "loot_inv s \<Longrightarrow> loot_inv (snd (AddPassword u s))"
  by (cases s) (auto simp: loot_inv_def loot_wf_def loot_counted_def loot_defs metrics_defs
      clean_keys_put gm.inv_put gm_len_put Let_def)

lemma AddHost_inv: "loot_inv s \<Longrightarrow> loot_inv (snd (AddHost c u s))"
  by (cases s) (auto simp: loot_inv_def loot_wf_def loot_counted_def loot_defs metrics_defs
      clean_keys_put gm.inv_put gm_len_put Let_def)

lemma AddPayload_inv: "loot_inv s \<Longrightarrow> loot_inv (snd (AddPayload c u s))"
  by (cases s) (auto simp: loot_inv_def loot_wf_def loot_counted_def loot_defs metrics_defs
      clean_keys_put gm.inv_put gm_len_put Let_def)

lemmas add_inv = AddUser_inv AddPassword_inv AddHost_inv AddPayload_inv

lemma NewLoot_inv: "loot_inv (NewLoot, NewMetricsServer n hs)"
  by (simp add: loot_inv_def loot_wf_def loot_counted_def NewLoot_def NewPayloads_def
      NewMetricsServer_def metrics_zero_def metrics_defs CountUsers_def CountPasswords_def
      CountHosts_def CountPayloads_def)

section \<open>The collections as registers\<close>

interpretation ru: register
  "\<lambda>u s. HasUser u (fst s)" "\<lambda>u s. snd (AddUser u s)" "\<lambda>s. CountUsers (fst s)"
  TrimSpace "\<lambda>u. TrimSpace u \<noteq> []" loot_inv
proof (unfold_locales, goal_cases)
  case 5
  then show ?case by (rule AddUser_inv)
qed (auto simp: loot_defs Let_def gm_has_put gm_len_put loot_inv_def loot_wf_def split_def)

interpretation rp: register
  "\<lambda>u s. HasPassword u (fst s)" "\<lambda>u s. snd (AddPassword u s)" "\<lambda>s. CountPasswords (fst s)"
  TrimSpace "\<lambda>u. TrimSpace u \<noteq> []" loot_inv
proof (unfold_locales, goal_cases)
  case 5
  then show ?case by (rule AddPassword_inv)
qed (auto simp: loot_defs Let_def gm_has_put gm_len_put loot_inv_def loot_wf_def split_def)

interpretation rh: register
  "\<lambda>u s. HasHost u (fst s)" "\<lambda>u s. snd (AddHost c u s)" "\<lambda>s. CountHosts (fst s)"
  TrimSpace "\<lambda>u. TrimSpace u \<noteq> [] \<and> \<not> isIPWhitelisted c (TrimSpace u)" loot_inv
  for c
proof (unfold_locales, goal_cases)
  case 5
  then show ?case by (rule AddHost_inv)
qed (auto simp: loot_defs Let_def gm_has_put gm_len_put loot_inv_def loot_wf_def split_def)

interpretation rl: register
  "\<lambda>u s. HasPayload u (fst s)" "\<lambda>u s. snd (AddPayload c u s)" "\<lambda>s. CountPayloads (fst s)"
  TrimSpace "\<lambda>u. TrimSpace u \<noteq> []" loot_inv
  for c
proof (unfold_locales, goal_cases)
  case 5
  then show ?case by (rule AddPayload_inv)
qed (auto simp: loot_defs Let_def gm_has_put gm_len_put loot_inv_def loot_wf_def split_def)

section \<open>Batches\<close>

text \<open>A register whose addition also reports whether it added, as the Go methods do, and a batch that
  counts the reports.\<close>

locale counted_register = register +
  fixes addb :: "'a \<Rightarrow> 'b \<Rightarrow> bool \<times> 'b"
    and skip :: "'a \<Rightarrow> bool"
  assumes addb_snd: "snd (addb k s) = add k s"
    and addb_fst: "inv s \<Longrightarrow> fst (addb k s) \<longleftrightarrow> ok k \<and> \<not> has (norm k) s"
    and addb_norm: "addb (norm k) s = addb k s"
    and skip_not_ok: "skip (norm k) \<Longrightarrow> \<not> ok k"
begin

lemma batch_eq:
  assumes "inv s"
  shows "fold (\<lambda>k (n, s). if skip (norm k) then (n, s)
                else case addb (norm k) s of (b, s') \<Rightarrow> (if b then n + 1 else n, s')) ks (n, s) =
    (n + (len (fold add ks s) - len s), fold add ks s)"
  using assms
proof (induction ks arbitrary: n s)
  case Nil
  then show ?case by simp
next
  case (Cons k ks)
  have mono: "len (add k s) \<le> len (fold add ks (add k s))"
    using len_adds [OF inv_add [OF Cons.prems], of ks] by simp
  have addk: "addb k s = (fst (addb k s), add k s)"
    by (metis addb_snd prod.collapse)
  show ?case
  proof (cases "skip (norm k)")
    case True
    then have "add k s = s" using Cons.prems skip_not_ok add_refused by blast
    with True Cons show ?thesis by simp
  next
    case False
    have "len (add k s) = len s + (if fst (addb k s) then 1 else 0)"
      using Cons.prems addb_fst add_new add_known add_refused by auto
    with False Cons.IH [OF inv_add [OF Cons.prems]] mono addk show ?thesis
      by (auto simp: addb_norm split: prod.splits)
  qed
qed

end

lemma TrimSpace_add [simp]:
  "AddUser (TrimSpace u) s = AddUser u s"
  "AddPassword (TrimSpace u) s = AddPassword u s"
  "AddHost c (TrimSpace u) s = AddHost c u s"
  by (simp_all add: AddUser_def AddPassword_def AddHost_def)

interpretation cu: counted_register
  "\<lambda>u s. HasUser u (fst s)" "\<lambda>u s. snd (AddUser u s)" "\<lambda>s. CountUsers (fst s)"
  TrimSpace "\<lambda>u. TrimSpace u \<noteq> []" loot_inv AddUser "\<lambda>u. u = []"
  by unfold_locales (auto simp: AddUser_def Let_def split_def)

interpretation cp: counted_register
  "\<lambda>u s. HasPassword u (fst s)" "\<lambda>u s. snd (AddPassword u s)" "\<lambda>s. CountPasswords (fst s)"
  TrimSpace "\<lambda>u. TrimSpace u \<noteq> []" loot_inv AddPassword "\<lambda>u. u = []"
  by unfold_locales (auto simp: AddPassword_def Let_def split_def)

interpretation ch: counted_register
  "\<lambda>u s. HasHost u (fst s)" "\<lambda>u s. snd (AddHost c u s)" "\<lambda>s. CountHosts (fst s)"
  TrimSpace "\<lambda>u. TrimSpace u \<noteq> [] \<and> \<not> isIPWhitelisted c (TrimSpace u)" loot_inv "AddHost c"
  "\<lambda>u. u = [] \<or> isIPWhitelisted c u"
  for c
  by unfold_locales (auto simp: AddHost_def Let_def split_def)

lemma AddUsers_eq:
  "loot_inv s \<Longrightarrow> AddUsers us s =
     (CountUsers (fst (fold (\<lambda>u s. snd (AddUser u s)) us s)) - CountUsers (fst s),
      fold (\<lambda>u s. snd (AddUser u s)) us s)"
  using cu.batch_eq [of s us 0] by (simp add: AddUsers_def add_counted_def [abs_def] Let_def)

lemma AddPasswords_eq:
  "loot_inv s \<Longrightarrow> AddPasswords us s =
     (CountPasswords (fst (fold (\<lambda>u s. snd (AddPassword u s)) us s)) - CountPasswords (fst s),
      fold (\<lambda>u s. snd (AddPassword u s)) us s)"
  using cp.batch_eq [of s us 0] by (simp add: AddPasswords_def add_counted_def [abs_def] Let_def)

lemma AddHosts_eq:
  "loot_inv s \<Longrightarrow> AddHosts c us s =
     (CountHosts (fst (fold (\<lambda>u s. snd (AddHost c u s)) us s)) - CountHosts (fst s),
      fold (\<lambda>u s. snd (AddHost c u s)) us s)"
  using ch.batch_eq [of s c us 0] by (simp add: AddHosts_def add_counted_def [abs_def] Let_def)

lemma AddUsers_inv: "loot_inv s \<Longrightarrow> loot_inv (snd (AddUsers us s))"
  by (simp add: AddUsers_eq ru.inv_adds)

lemma AddPasswords_inv: "loot_inv s \<Longrightarrow> loot_inv (snd (AddPasswords us s))"
  by (simp add: AddPasswords_eq rp.inv_adds)

lemma AddHosts_inv: "loot_inv s \<Longrightarrow> loot_inv (snd (AddHosts c us s))"
  by (simp add: AddHosts_eq rh.inv_adds)

section \<open>Properties\<close>

datatype loot_op =
    LUser string | LUsers "string list" | LPassword string | LPasswords "string list"
  | LHost string | LHosts "string list" | LPayload string

fun loot_step :: "conf \<Rightarrow> loot_op \<Rightarrow> loot_st \<Rightarrow> loot_st" where
  "loot_step c (LUser u) s = snd (AddUser u s)"
| "loot_step c (LUsers us) s = snd (AddUsers us s)"
| "loot_step c (LPassword p) s = snd (AddPassword p s)"
| "loot_step c (LPasswords ps) s = snd (AddPasswords ps s)"
| "loot_step c (LHost h) s = snd (AddHost c h s)"
| "loot_step c (LHosts hs) s = snd (AddHosts c hs s)"
| "loot_step c (LPayload f) s = snd (AddPayload c f s)"

lemma loot_step_inv: "loot_inv s \<Longrightarrow> loot_inv (loot_step c op s)"
  by (cases op) (simp_all add: add_inv AddUsers_inv AddPasswords_inv AddHosts_inv)

lemma loot_run_inv: "loot_inv s \<Longrightarrow> loot_inv (fold (loot_step c) ops s)"
  by (induction ops arbitrary: s) (simp_all add: loot_step_inv)

lemma empty_loot_inv: "loot_inv (NewLoot, metrics_zero)"
  by (simp add: loot_inv_def loot_wf_def loot_counted_def NewLoot_def NewPayloads_def
      metrics_zero_def CountUsers_def CountPasswords_def CountHosts_def CountPayloads_def)

text \<open>C27. From an empty loot, any sequence of additions, single or in batches, keeps the collections
  well-formed (unique, non-empty, trimmed entries) and the known-users, known-passwords,
  known-hosts and known-payloads counters of the metrics server equal to the numbers of entries.\<close>

theorem loot_invariant:
  "loot_inv (fold (loot_step c) ops (NewLoot, NewMetricsServer name ips))"
  by (intro loot_run_inv NewLoot_inv)

text \<open>A batch of users stores exactly the trimmed non-empty elements, returns how many of them were
  new, and repeating it stores nothing and returns zero.\<close>

theorem AddUsers_spec:
  assumes "loot_inv s"
  shows "(\<forall>j. HasUser j (fst (snd (AddUsers us s))) \<longleftrightarrow>
       HasUser j (fst s) \<or> (\<exists>u \<in> set us. TrimSpace u \<noteq> [] \<and> j = TrimSpace u)) \<and>
    fst (AddUsers us s) =
      card ({TrimSpace u | u. u \<in> set us \<and> TrimSpace u \<noteq> []} - {j. HasUser j (fst s)}) \<and>
    AddUsers us (snd (AddUsers us s)) = (0, snd (AddUsers us s))"
  using assms AddUsers_inv [OF assms, of us]
  by (simp add: AddUsers_eq ru.has_adds ru.len_adds ru.adds_idem)

lemma trim_examples:
  "TrimSpace '' root '' = ''root''" "TrimSpace ''root'' = ''root''" "TrimSpace ''pi'' = ''pi''"
  "TrimSpace ''127.0.0.1'' = ''127.0.0.1''" "TrimSpace ''6.6.6.6'' = ''6.6.6.6''"
  by code_simp+

theorem AddUsers_spec_witness:
  "fst (AddUsers ['' root '', ''root'', '''', ''pi''] (NewLoot, metrics_zero)) =
     card {''root'', ''pi''}"
proof -
  have "{TrimSpace u | u. u \<in> set ['' root '', ''root'', '''', ''pi''] \<and> TrimSpace u \<noteq> []} =
      {''root'', ''pi''}"
    (is "?L = _")
  proof -
    have "?L = {x \<in> TrimSpace ` set ['' root '', ''root'', '''', ''pi'']. x \<noteq> []}"
      by auto
    then show ?thesis by (auto simp: trim_examples)
  qed
  then show ?thesis
    using AddUsers_spec [OF empty_loot_inv, of "['' root '', ''root'', '''', ''pi'']"]
    by (simp add: HasUser_def NewLoot_def)
qed

text \<open>C28. A batch of hosts stores exactly the trimmed, non-empty and not whitelisted elements: no
  whitelisted address gets into the loot, whatever is added.\<close>

theorem AddHosts_spec:
  assumes "loot_inv s"
  shows "(\<forall>j. HasHost j (fst (snd (AddHosts c hs s))) \<longleftrightarrow>
       HasHost j (fst s) \<or>
       (\<exists>h \<in> set hs. TrimSpace h \<noteq> [] \<and> \<not> isIPWhitelisted c (TrimSpace h) \<and> j = TrimSpace h)) \<and>
    fst (AddHosts c hs s) =
      card ({TrimSpace h | h. h \<in> set hs \<and> TrimSpace h \<noteq> [] \<and> \<not> isIPWhitelisted c (TrimSpace h)}
        - {j. HasHost j (fst s)}) \<and>
    AddHosts c hs (snd (AddHosts c hs s)) = (0, snd (AddHosts c hs s))"
  using assms AddHosts_inv [OF assms, of c hs]
  by (simp add: AddHosts_eq rh.has_adds rh.len_adds rh.adds_idem)

theorem AddHosts_spec_witness:
  "let l = fst (snd (AddHosts sample_conf [''127.0.0.1'', ''6.6.6.6''] (NewLoot, metrics_zero)))
   in HasHost ''6.6.6.6'' l \<and> \<not> HasHost ''127.0.0.1'' l"
  using AddHosts_spec [OF empty_loot_inv, of sample_conf "[''127.0.0.1'', ''6.6.6.6'']"]
  by (auto simp: Let_def trim_examples isIPWhitelisted_iff HasHost_def NewLoot_def)

end
