(* ===== verification/Sessions.thy ===== *)
theory Sessions
  imports Metrics Config
begin

text \<open>
  \<^verbatim>\<open>ossh_sessions.go\<close>: SSH sessions and the map of the active ones. A \<^verbatim>\<open>*Session\<close> is an address in an
  explicit heap, because handlers keep using a session object after another handler or the
  clean-up worker has removed it from the map. The mutex of \<^verbatim>\<open>Sessions\<close> is modelled as a flag:
  locking a locked mutex (a self-deadlock, since one goroutine runs) or unlocking an unlocked
  one (a fatal error) gives \<^term>\<open>None\<close>, and so would a method that never returns. Instants are
  nanoseconds; one call reads the clock once. Log output is left out.
\<close>

section \<open>State\<close>

record session =
  s_CreatedAt :: int
  s_LastActivity :: int
  s_ID :: string
  s_Type :: string
  s_Shell :: bool
  s_SSHSession :: bool
  s_Term :: string
  s_User :: string
  s_Password :: string
  s_Host :: string
  s_Port :: int
  s_Whitelisted :: bool
  s_Orphan :: bool

text \<open>The heap of session objects, the map from IDs to addresses, its mutex, the wasted-time counter of
  the server, the metrics, and the addresses on whose SSH session \<^verbatim>\<open>Exit(-1)\<close> was called.\<close>

record sworld =
  w_heap :: "session list"
  w_map :: "(string, nat) gomap"
  w_locked :: bool
  w_wasted :: int
  w_metrics :: metrics
  w_exits :: "nat list"

definition sess :: "nat \<Rightarrow> sworld \<Rightarrow> session" where
  "sess a w = w_heap w ! a"

definition upd :: "nat \<Rightarrow> (session \<Rightarrow> session) \<Rightarrow> sworld \<Rightarrow> sworld" where
  "upd a f w = w\<lparr>w_heap := (w_heap w)[a := f (w_heap w ! a)]\<rparr>"

definition second :: int where
  "second = 1000000000"

text \<open>\<^verbatim>\<open>int(d.Seconds())\<close> for a duration in nanoseconds.\<close>

definition int_seconds :: "int \<Rightarrow> int" where
  "int_seconds d = trunc_div d second"

section \<open>Session objects\<close>

definition addWastedTime :: "int \<Rightarrow> sworld \<Rightarrow> sworld" where
  "addWastedTime seconds w =
     w\<lparr>w_metrics := AddTimeWasted (of_int seconds) (w_metrics w),
       w_wasted := wrap64 (w_wasted w + seconds)\<rparr>"

definition UpdateActivity :: "int \<Rightarrow> nat \<Rightarrow> sworld \<Rightarrow> sworld" where
  "UpdateActivity now a w =
     (if \<not> s_Orphan (sess a w)
      then upd a (\<lambda>s. s\<lparr>s_LastActivity := now\<rparr>)
             (addWastedTime (int_seconds (now - s_LastActivity (sess a w))) w)
      else w)"

text \<open>\<^verbatim>\<open>RandomSleep\<close> ends at \<open>now\<close>; whitelisted sessions do not sleep.\<close>

definition RandomSleep :: "int \<Rightarrow> nat \<Rightarrow> sworld \<Rightarrow> sworld" where
  "RandomSleep now a w = (if \<not> s_Whitelisted (sess a w) then UpdateActivity now a w else w)"

definition updateID :: "conf \<Rightarrow> session \<Rightarrow> session" where
  "updateID c s = s\<lparr>s_ID := host_port (s_Host s) (s_Port s),
                    s_Whitelisted := isIPWhitelisted c (s_Host s)\<rparr>"

text \<open>\<open>split\<close> is \<^verbatim>\<open>gutils.SplitHostPort\<close>.\<close>

definition SetID :: "(string \<Rightarrow> string \<times> int) \<Rightarrow> conf \<Rightarrow> string \<Rightarrow> session \<Rightarrow> session option" where
  "SetID split c ident s =
     (case split ident of (ip, port) \<Rightarrow>
        if ip = [] \<or> port = 0 then None
        else Some (updateID c (s\<lparr>s_Host := ip, s_Port := port\<rparr>)))"

definition SetType :: "int \<Rightarrow> string \<Rightarrow> nat \<Rightarrow> sworld \<Rightarrow> sworld" where
  "SetType now t a w = UpdateActivity now a (upd a (\<lambda>s. s\<lparr>s_Type := t\<rparr>) w)"

definition SetShell :: "int \<Rightarrow> nat \<Rightarrow> sworld \<Rightarrow> sworld" where
  "SetShell now a w = UpdateActivity now a (upd a (\<lambda>s. s\<lparr>s_Shell := True\<rparr>) w)"

definition SetSSHSession :: "int \<Rightarrow> nat \<Rightarrow> sworld \<Rightarrow> sworld" where
  "SetSSHSession now a w = UpdateActivity now a (upd a (\<lambda>s. s\<lparr>s_SSHSession := True\<rparr>) w)"

definition SetTerm :: "int \<Rightarrow> string \<Rightarrow> nat \<Rightarrow> sworld \<Rightarrow> sworld" where
  "SetTerm now t a w = UpdateActivity now a (upd a (\<lambda>s. s\<lparr>s_Term := t\<rparr>) w)"

definition SetUser :: "int \<Rightarrow> string \<Rightarrow> nat \<Rightarrow> sworld \<Rightarrow> sworld" where
  "SetUser now u a w = UpdateActivity now a (upd a (\<lambda>s. s\<lparr>s_User := u\<rparr>) w)"

definition SetPassword :: "int \<Rightarrow> string \<Rightarrow> nat \<Rightarrow> sworld \<Rightarrow> sworld" where
  "SetPassword now p a w = UpdateActivity now a (upd a (\<lambda>s. s\<lparr>s_Password := p\<rparr>) w)"

definition SetHost :: "conf \<Rightarrow> int \<Rightarrow> string \<Rightarrow> nat \<Rightarrow> sworld \<Rightarrow> sworld" where
  "SetHost c now h a w = UpdateActivity now a (upd a (\<lambda>s. updateID c (s\<lparr>s_Host := h\<rparr>)) w)"

definition SetPort :: "conf \<Rightarrow> int \<Rightarrow> int \<Rightarrow> nat \<Rightarrow> sworld \<Rightarrow> sworld" where
  "SetPort c now p a w = UpdateActivity now a (upd a (\<lambda>s. updateID c (s\<lparr>s_Port := p\<rparr>)) w)"

definition Uptime :: "int \<Rightarrow> session \<Rightarrow> int" where
  "Uptime now s = now - s_CreatedAt s"

definition StaleSince :: "int \<Rightarrow> session \<Rightarrow> int" where
  "StaleSince now s = now - s_LastActivity s"

definition ActiveFor :: "session \<Rightarrow> int" where
  "ActiveFor s = s_LastActivity s - s_CreatedAt s"

text \<open>\<^verbatim>\<open>expire\<close>: whether the session is expired. A session without SSH session that is stale for more
  than \<open>age\<close> but not for ten minutes makes the code dereference a nil pointer.\<close>

definition expire :: "int \<Rightarrow> nat \<Rightarrow> nat \<Rightarrow> sworld \<Rightarrow> go_panic + bool \<times> sworld" where
  "expire now age a w =
     (let s = sess a w
      in if \<not> s_SSHSession s \<and> StaleSince now s > 600 * second
         then Inr (True, upd a (\<lambda>s. s\<lparr>s_Orphan := True\<rparr>) w)
         else if StaleSince now s > int age * second
         then (if s_SSHSession s then Inr (True, w\<lparr>w_exits := w_exits w @ [a]\<rparr>) else Inl NilDeref)
         else Inr (False, w))"

definition NewSession :: "int \<Rightarrow> session" where
  "NewSession now =
     \<lparr>s_CreatedAt = now, s_LastActivity = now, s_ID = [], s_Type = [], s_Shell = False,
      s_SSHSession = False, s_Term = [], s_User = [], s_Password = [], s_Host = [],
      s_Port = 0, s_Whitelisted = False, s_Orphan = False\<rparr>"

section \<open>The map of sessions\<close>

definition ss_Lock :: "sworld \<Rightarrow> sworld option" where
  "ss_Lock w = (if w_locked w then None else Some (w\<lparr>w_locked := True\<rparr>))"

definition ss_Unlock :: "sworld \<Rightarrow> sworld option" where
  "ss_Unlock w = (if w_locked w then Some (w\<lparr>w_locked := False\<rparr>) else None)"

definition ss_has :: "string \<Rightarrow> sworld \<Rightarrow> bool" where
  "ss_has i w = gm_has i (w_map w)"

definition ss_get :: "string \<Rightarrow> sworld \<Rightarrow> nat option" where
  "ss_get i w = gm_get i (w_map w)"

text \<open>Allocate the object; \<^verbatim>\<open>add\<close> stores it under its own ID unless that is taken.\<close>

definition ss_alloc :: "session \<Rightarrow> sworld \<Rightarrow> nat \<times> sworld" where
  "ss_alloc s w = (length (w_heap w), w\<lparr>w_heap := w_heap w @ [s]\<rparr>)"

definition ss_add :: "nat \<Rightarrow> sworld \<Rightarrow> sworld" where
  "ss_add a w =
     (let i = s_ID (sess a w)
      in if ss_has i w then w else w\<lparr>w_map := gm_put i a (w_map w)\<rparr>)"

definition countActiveSessions :: "string \<Rightarrow> string list \<Rightarrow> sworld \<Rightarrow> nat" where
  "countActiveSessions h ks w =
     length (filter (\<lambda>i. case ss_get i w of Some a \<Rightarrow> s_Host (sess a w) = h | None \<Rightarrow> False) ks)"

definition Create ::
  "(string \<Rightarrow> string \<times> int) \<Rightarrow> conf \<Rightarrow> int \<Rightarrow> string \<Rightarrow> sworld \<Rightarrow> (nat option \<times> sworld) option" where
  "Create split c now i w = do {
     w \<leftarrow> ss_Lock w;
     let (r, w) =
       (if \<not> ss_has i w
        then (case SetID split c i (NewSession now) of
                None \<Rightarrow> (None, w)
              | Some s \<Rightarrow>
                  (let (a, w) = ss_alloc s w;
                       w = ss_add a w;
                       w = UpdateActivity now a w;
                       w = w\<lparr>w_metrics := IncrementSessions (w_metrics w)\<rparr>
                   in (ss_get i w, w)))
        else (ss_get i w, w));
     w \<leftarrow> ss_Unlock w;
     Some (r, w)
   }"

definition ss_Count :: "sworld \<Rightarrow> (nat \<times> sworld) option" where
  "ss_Count w = do {
     w \<leftarrow> ss_Lock w;
     let n = gm_len (w_map w);
     w \<leftarrow> ss_Unlock w;
     Some (n, w)
   }"

text \<open>\<^verbatim>\<open>Remove\<close> with \<^verbatim>\<open>delete\<close> inlined: \<^verbatim>\<open>delete\<close> unlocks, calls \<^verbatim>\<open>Remove\<close> again and locks.\<close>

partial_function (option) Remove :: "int \<Rightarrow> string \<Rightarrow> sworld \<Rightarrow> sworld option" where
  "Remove now i w = do {
     w1 \<leftarrow> ss_Lock w;
     if \<not> ss_has i w1 then ss_Unlock w1
     else do {
       let w2 = UpdateActivity now (the (ss_get i w1)) w1;
       let w3 = w2\<lparr>w_map := gm_del i (w_map w2)\<rparr>;
       w4 \<leftarrow> ss_Unlock w3;
       w5 \<leftarrow> Remove now i w4;
       w6 \<leftarrow> ss_Lock w5;
       w7 \<leftarrow> ss_Unlock w6;
       let w8 = w7\<lparr>w_metrics := DecrementSessions (w_metrics w7)\<rparr>;
       cw \<leftarrow> ss_Count w8;
       w9 \<leftarrow> ss_Lock (snd cw);
       ss_Unlock w9
     }
   }"

text \<open>\<^verbatim>\<open>cleanUp\<close> ranges over the map in the order \<open>ks\<close>; an entry deleted meanwhile is not visited.\<close>

fun cleanUp_loop :: "int \<Rightarrow> nat \<Rightarrow> string list \<Rightarrow> sworld \<Rightarrow> go_panic + sworld" where
  "cleanUp_loop now age [] w = Inr w"
| "cleanUp_loop now age (i # ks) w =
     (case ss_get i w of
        None \<Rightarrow> cleanUp_loop now age ks w
      | Some a \<Rightarrow>
          bind_res (expire now age a w) (\<lambda>(b, w).
            if b then
              (case do { w \<leftarrow> ss_Unlock w; w \<leftarrow> Remove now i w; ss_Lock w } of
                 None \<Rightarrow> Inl LockFailure
               | Some w \<Rightarrow> cleanUp_loop now age ks w)
            else cleanUp_loop now age ks w))"

definition cleanUp :: "int \<Rightarrow> nat \<Rightarrow> string list \<Rightarrow> sworld \<Rightarrow> go_panic + sworld" where
  "cleanUp now age ks w =
     (case ss_Lock w of
        None \<Rightarrow> Inl LockFailure
      | Some w \<Rightarrow>
          bind_res (cleanUp_loop now age ks w) (\<lambda>w.
            case ss_Unlock w of None \<Rightarrow> Inl LockFailure | Some w \<Rightarrow> Inr w))"

definition NewActiveSessions :: "metrics \<Rightarrow> sworld" where
  "NewActiveSessions m =
     \<lparr>w_heap = [], w_map = gm_empty, w_locked = False, w_wasted = 0, w_metrics = m,
      w_exits = []\<rparr>"

section \<open>Frame lemmas\<close>

named_theorems sess_simps "rewrite rules for session worlds"

lemma sworld_unlock [sess_simps]: "\<not> w_locked w \<Longrightarrow> w\<lparr>w_locked := False\<rparr> = w"
  by (cases w) simp

lemma sworld_lock [sess_simps]: "w_locked w \<Longrightarrow> w\<lparr>w_locked := True\<rparr> = w"
  by (cases w) simp

lemma addWastedTime_frame [simp]:
  "w_heap (addWastedTime n w) = w_heap w" "w_map (addWastedTime n w) = w_map w"
  "w_locked (addWastedTime n w) = w_locked w" "w_exits (addWastedTime n w) = w_exits w"
  "w_wasted (addWastedTime n w) = wrap64 (w_wasted w + n)"
  "l_activeSessions (w_metrics (addWastedTime n w)) = l_activeSessions (w_metrics w)"
  by (simp_all add: addWastedTime_def metrics_defs)

lemma upd_frame [simp]:
  "w_map (upd a f w) = w_map w" "w_locked (upd a f w) = w_locked w"
  "w_metrics (upd a f w) = w_metrics w" "w_exits (upd a f w) = w_exits w"
  "w_wasted (upd a f w) = w_wasted w" "length (w_heap (upd a f w)) = length (w_heap w)"
  by (simp_all add: upd_def)

lemma sess_upd:
  "a < length (w_heap w) \<Longrightarrow> sess b (upd a f w) = (if b = a then f (sess a w) else sess b w)"
  by (auto simp: sess_def upd_def)

lemma sess_upd_other: "b \<noteq> a \<Longrightarrow> sess b (upd a f w) = sess b w"
  by (auto simp: sess_def upd_def)

lemma sess_addWastedTime [simp]: "sess a (addWastedTime n w) = sess a w"
  by (simp add: sess_def)

lemma UpdateActivity_frame [simp]:
  "w_map (UpdateActivity now a w) = w_map w" "w_locked (UpdateActivity now a w) = w_locked w"
  "w_exits (UpdateActivity now a w) = w_exits w"
  "length (w_heap (UpdateActivity now a w)) = length (w_heap w)"
  "l_activeSessions (w_metrics (UpdateActivity now a w)) = l_activeSessions (w_metrics w)"
  by (simp_all add: UpdateActivity_def)

lemma sess_UpdateActivity_other: "b \<noteq> a \<Longrightarrow> sess b (UpdateActivity now a w) = sess b w"
  by (simp add: UpdateActivity_def sess_upd_other)

lemma sess_UpdateActivity:
  "a < length (w_heap w) \<Longrightarrow> sess a (UpdateActivity now a w) =
     (if s_Orphan (sess a w) then sess a w else (sess a w)\<lparr>s_LastActivity := now\<rparr>)"
  by (simp add: UpdateActivity_def sess_upd)

lemma UpdateActivity_ID [simp]:
  "s_ID (sess b (UpdateActivity now a w)) = s_ID (sess b w)"
  "s_Host (sess b (UpdateActivity now a w)) = s_Host (sess b w)"
  "s_Whitelisted (sess b (UpdateActivity now a w)) = s_Whitelisted (sess b w)"
  by (auto simp: UpdateActivity_def upd_def sess_def nth_upd)

lemma UpdateActivity_lock: "UpdateActivity now a (w\<lparr>w_locked := b\<rparr>) = (UpdateActivity now a w)\<lparr>w_locked := b\<rparr>"
  by (simp add: UpdateActivity_def upd_def addWastedTime_def sess_def)

lemma ss_get_frame [simp]: "ss_get i (w\<lparr>w_locked := b\<rparr>) = ss_get i w"
  "ss_has i (w\<lparr>w_locked := b\<rparr>) = ss_has i w" "sess a (w\<lparr>w_locked := b\<rparr>) = sess a w"
  by (simp_all add: ss_get_def ss_has_def sess_def)

lemma ss_has_get: "ss_has i w \<longleftrightarrow> ss_get i w \<noteq> None"
  by (simp add: ss_has_def ss_get_def gm_has_def)

section \<open>Remove returns and releases the lock\<close>

definition remove_pure :: "int \<Rightarrow> string \<Rightarrow> sworld \<Rightarrow> sworld" where
  "remove_pure now i w =
     (case ss_get i w of
        None \<Rightarrow> w
      | Some a \<Rightarrow>
          (let w' = UpdateActivity now a w
           in w'\<lparr>w_map := gm_del i (w_map w'), w_metrics := DecrementSessions (w_metrics w')\<rparr>))"

lemma Remove_absent:
  assumes "\<not> w_locked w" and "ss_get i w = None"
  shows "Remove now i w = Some w"
  using assms
  by (subst Remove.simps) (simp add: ss_Lock_def ss_Unlock_def ss_has_get sworld_unlock)

lemma Remove_eq:
  assumes "\<not> w_locked w" and "gm_inv (w_map w)"
  shows "Remove now i w = Some (remove_pure now i w)"
proof (cases "ss_get i w")
  case None
  with assms show ?thesis by (simp add: Remove_absent remove_pure_def)
next
  case (Some a)
  let ?w2 = "UpdateActivity now a w"
  let ?w3 = "?w2\<lparr>w_map := gm_del i (w_map w)\<rparr>"
  have u: "\<not> w_locked ?w3" "\<not> w_locked ?w2" using assms by simp_all
  have "ss_get i ?w3 = None"
    using assms by (simp add: ss_get_def gm.get_del)
  then have r: "Remove now i ?w3 = Some ?w3"
    using u by (intro Remove_absent) simp_all
  have e: "?w2\<lparr>w_locked := False, w_map := gm_del i (w_map w)\<rparr> = ?w3"
    using u(2) by (simp add: sworld_unlock)
  show ?thesis
    using assms(1) Some r u
    by (subst Remove.simps)
      (simp add: ss_Lock_def ss_Unlock_def ss_Count_def ss_has_get UpdateActivity_lock
        sworld_unlock remove_pure_def Let_def e)
qed

section \<open>Invariant\<close>

definition sess_wf :: "sworld \<Rightarrow> bool" where
  "sess_wf w \<longleftrightarrow>
     gm_inv (w_map w) \<and>
     (\<forall>i a. ss_get i w = Some a \<longrightarrow> a < length (w_heap w) \<and> s_ID (sess a w) = i) \<and>
     l_activeSessions (w_metrics w) = of_nat (gm_len (w_map w))"

lemma sess_wf_get:
  "sess_wf w \<Longrightarrow> ss_get i w = Some a \<Longrightarrow> a < length (w_heap w) \<and> s_ID (sess a w) = i"
  by (simp add: sess_wf_def)

lemma sess_wf_inj: "sess_wf w \<Longrightarrow> ss_get i w = Some a \<Longrightarrow> ss_get j w = Some a \<Longrightarrow> i = j"
  by (metis sess_wf_get)

lemma sess_wf_lock [simp]: "sess_wf (w\<lparr>w_locked := b\<rparr>) = sess_wf w"
  by (simp add: sess_wf_def)

lemma remove_pure_get:
  "gm_inv (w_map w) \<Longrightarrow> ss_get j (remove_pure now i w) = (if j = i then None else ss_get j w)"
  by (auto simp: remove_pure_def ss_get_def gm.get_del Let_def split: option.splits)

lemma remove_pure_sess:
  "ss_get i w \<noteq> Some a \<Longrightarrow> sess a (remove_pure now i w) = sess a w"
  by (auto simp: remove_pure_def sess_def Let_def sess_UpdateActivity_other [unfolded sess_def]
      split: option.splits)

lemma remove_pure_frame [simp]:
  "w_locked (remove_pure now i w) = w_locked w" "w_exits (remove_pure now i w) = w_exits w"
  "length (w_heap (remove_pure now i w)) = length (w_heap w)"
  by (simp_all add: remove_pure_def Let_def split: option.splits)

lemma remove_pure_ID [simp]: "s_ID (sess a (remove_pure now i w)) = s_ID (sess a w)"
  by (auto simp: remove_pure_def Let_def sess_def UpdateActivity_ID [unfolded sess_def]
      split: option.splits)

lemma remove_pure_wf:
  assumes "sess_wf w"
  shows "sess_wf (remove_pure now i w)"
proof -
  have inv: "gm_inv (w_map w)" using assms by (simp add: sess_wf_def)
  have "gm_inv (w_map (remove_pure now i w)) \<and>
      l_activeSessions (w_metrics (remove_pure now i w)) = of_nat (gm_len (w_map (remove_pure now i w)))"
  proof (cases "ss_get i w")
    case None
    with assms show ?thesis by (simp add: remove_pure_def sess_wf_def)
  next
    case (Some a)
    then have "gm_has i (w_map w)" and "gm_len (w_map w) \<noteq> 0"
      using inv by (auto simp: ss_get_def gm_has_def gm_len_def gm_get_def)
    with Some assms inv show ?thesis
      by (simp add: remove_pure_def Let_def sess_wf_def gm.inv_del gm_len_del metrics_defs)
  qed
  with assms inv show ?thesis
    by (simp add: sess_wf_def remove_pure_get)
qed

lemma upd_wf:
  assumes "sess_wf w" and "\<And>s. s_ID (f s) = s_ID s"
  shows "sess_wf (upd a f w)"
proof -
  have "s_ID (sess b (upd a f w)) = s_ID (sess b w)" for b
    using assms(2) by (simp add: sess_def upd_def nth_upd)
  with assms show ?thesis by (simp add: sess_wf_def ss_get_def)
qed

lemma UpdateActivity_wf: "sess_wf w \<Longrightarrow> sess_wf (UpdateActivity now a w)"
  by (simp add: sess_wf_def ss_get_def)

lemmas setter_defs = SetType_def SetShell_def SetSSHSession_def SetTerm_def SetUser_def
  SetPassword_def RandomSleep_def

lemma setters_wf:
  assumes "sess_wf w"
  shows "sess_wf (SetType now t a w)" "sess_wf (SetShell now a w)"
    "sess_wf (SetSSHSession now a w)" "sess_wf (SetTerm now t a w)" "sess_wf (SetUser now t a w)"
    "sess_wf (SetPassword now t a w)" "sess_wf (RandomSleep now a w)"
  using assms by (simp_all add: setter_defs UpdateActivity_wf upd_wf)

section \<open>Create\<close>

text \<open>A session ID is canonical when splitting it and formatting the parts gives it back, as for the
  IPv4 remote addresses \<^verbatim>\<open>host:port\<close> of the SSH connections.\<close>

definition canonical :: "(string \<Rightarrow> string \<times> int) \<Rightarrow> string \<Rightarrow> bool" where
  "canonical split i \<longleftrightarrow>
     (case split i of (h, p) \<Rightarrow> h \<noteq> [] \<and> p \<noteq> 0 \<and> host_port h p = i)"

definition create_pure ::
  "(string \<Rightarrow> string \<times> int) \<Rightarrow> conf \<Rightarrow> int \<Rightarrow> string \<Rightarrow> sworld \<Rightarrow> nat option \<times> sworld" where
  "create_pure split c now i w =
     (if \<not> ss_has i w
      then (case SetID split c i (NewSession now) of
              None \<Rightarrow> (None, w)
            | Some s \<Rightarrow>
                (let (a, w) = ss_alloc s w;
                     w = ss_add a w;
                     w = UpdateActivity now a w;
                     w = w\<lparr>w_metrics := IncrementSessions (w_metrics w)\<rparr>
                 in (ss_get i w, w)))
      else (ss_get i w, w))"

lemma create_steps_lock:
  "ss_alloc s (w\<lparr>w_locked := b\<rparr>) = (fst (ss_alloc s w), (snd (ss_alloc s w))\<lparr>w_locked := b\<rparr>)"
  "ss_add a (w\<lparr>w_locked := b\<rparr>) = (ss_add a w)\<lparr>w_locked := b\<rparr>"
  by (simp_all add: ss_alloc_def ss_add_def ss_has_def sess_def Let_def)

lemma create_frame_lock [simp]:
  "w_locked (snd (ss_alloc s w)) = w_locked w" "w_locked (ss_add a w) = w_locked w"
  by (simp_all add: ss_alloc_def ss_add_def Let_def)

lemma Create_eq:
  assumes "\<not> w_locked w"
  shows "Create split c now i w = Some (create_pure split c now i w)"
proof (cases "ss_has i w")
  case True
  with assms show ?thesis
    by (simp add: Create_def create_pure_def ss_Lock_def ss_Unlock_def sworld_unlock)
next
  case False
  show ?thesis
  proof (cases "SetID split c i (NewSession now)")
    case None
    with False assms show ?thesis
      by (simp add: Create_def create_pure_def ss_Lock_def ss_Unlock_def sworld_unlock)
  next
    case (Some s)
    let ?w2 = "UpdateActivity now (fst (ss_alloc s w)) (ss_add (fst (ss_alloc s w)) (snd (ss_alloc s w)))"
    have "?w2\<lparr>w_locked := False\<rparr> = ?w2" using assms by (simp add: sworld_unlock)
    then have e: "?w2\<lparr>w_metrics := m, w_locked := False\<rparr> = ?w2\<lparr>w_metrics := m\<rparr>" for m
      by (metis sworld_unlock UpdateActivity_frame(2) assms create_frame_lock sworld.ext_inject
          sworld.surjective sworld.update_convs(3,5))
    show ?thesis using False Some assms e
      by (simp add: Create_def create_pure_def ss_Lock_def ss_Unlock_def create_steps_lock
          UpdateActivity_lock Let_def split_def ss_get_def)
  qed
qed

lemma SetID_canonical:
  "canonical split i \<Longrightarrow> \<exists>s. SetID split c i (NewSession now) = Some s \<and> s_ID s = i \<and>
     s_Whitelisted s = isIPWhitelisted c (fst (split i)) \<and> s_Host s = fst (split i) \<and>
     \<not> s_SSHSession s \<and> \<not> s_Orphan s"
  by (auto simp: SetID_def canonical_def updateID_def NewSession_def)

lemma sess_alloc [simp]:
  "sess (length (w_heap w)) (w\<lparr>w_heap := w_heap w @ [s]\<rparr>) = s"
  "a < length (w_heap w) \<Longrightarrow> sess a (w\<lparr>w_heap := w_heap w @ [s]\<rparr>) = sess a w"
  by (simp_all add: sess_def nth_append)

lemma create_pure_canonical:
  assumes "sess_wf w" and "canonical split i" and "create_pure split c now i w = (r, w')"
  shows "sess_wf w' \<and> w_locked w' = w_locked w \<and>
    (\<exists>a. r = Some a \<and> ss_get i w' = Some a \<and>
       (ss_has i w \<longrightarrow> w' = w) \<and>
       (\<not> ss_has i w \<longrightarrow> a = length (w_heap w) \<and> w_map w' = gm_put i a (w_map w) \<and>
          s_Host (sess a w') = fst (split i) \<and>
          s_Whitelisted (sess a w') = isIPWhitelisted c (fst (split i))))"
proof (cases "ss_has i w")
  case True
  then obtain a where a: "ss_get i w = Some a" by (auto simp: ss_has_get)
  with assms True have "r = Some a" "w' = w" by (simp_all add: create_pure_def)
  with a assms True show ?thesis by simp
next
  case False
  obtain s where s: "SetID split c i (NewSession now) = Some s" "s_ID s = i"
    "s_Whitelisted s = isIPWhitelisted c (fst (split i))" "s_Host s = fst (split i)"
    using SetID_canonical [OF assms(2)] by blast
  let ?a = "length (w_heap w)"
  let ?w1 = "w\<lparr>w_heap := w_heap w @ [s], w_map := gm_put i ?a (w_map w)\<rparr>"
  let ?w2 = "UpdateActivity now ?a ?w1"
  have add: "ss_add ?a (w\<lparr>w_heap := w_heap w @ [s]\<rparr>) = ?w1"
    using False s(2) by (simp add: ss_add_def ss_has_def Let_def)
  have res: "r = ss_get i ?w2" "w' = ?w2\<lparr>w_metrics := IncrementSessions (w_metrics ?w2)\<rparr>"
    using assms(3) False s(1) add
    by (simp_all add: create_pure_def ss_alloc_def Let_def ss_get_def)
  have sw1: "sess b ?w1 = (if b = ?a then s else sess b w)" if "b \<le> ?a" for b
    using that by (simp add: sess_def nth_append)
  have g: "ss_get j w' = (if j = i then Some ?a else ss_get j w)" for j
    using res(2) by (simp add: ss_get_def gm.get_put)
  have sid: "s_ID (sess b w') = s_ID (sess b ?w1)" "s_Host (sess b w') = s_Host (sess b ?w1)"
    "s_Whitelisted (sess b w') = s_Whitelisted (sess b ?w1)" for b
    using res(2) UpdateActivity_ID [of b now ?a ?w1] by (simp_all add: sess_def)
  have "sess_wf w'"
    unfolding sess_wf_def
  proof (intro conjI allI impI)
    have inv: "gm_inv (w_map w)" and n: "\<not> gm_has i (w_map w)"
      using assms(1) False by (simp_all add: sess_wf_def ss_has_def)
    show "gm_inv (w_map w')" using res(2) inv by (simp add: gm.inv_put)
    show "l_activeSessions (w_metrics w') = of_nat (gm_len (w_map w'))"
      using res(2) inv n assms(1) by (simp add: metrics_defs sess_wf_def gm_len_put)
    fix j b assume j: "ss_get j w' = Some b"
    show "b < length (w_heap w')"
      using j g res(2) sess_wf_get [OF assms(1), of j b] by (auto split: if_splits)
    show "s_ID (sess b w') = j"
      using j g sid(1) [of b] sw1 [of b] s(2) sess_wf_get [OF assms(1), of j b]
      by (auto split: if_splits)
  qed
  moreover have "w_locked w' = w_locked w" "w_map w' = gm_put i ?a (w_map w)"
    using res(2) by simp_all
  ultimately show ?thesis
    using False res(1) g [of i] sid [of ?a] sw1 [of ?a] s res(2) by (auto simp: ss_get_def)
qed

text \<open>The sessions of all addresses but one are as they were: the same objects, with the same contents.\<close>

definition others_kept :: "string \<Rightarrow> sworld \<Rightarrow> sworld \<Rightarrow> bool" where
  "others_kept i w w' \<longleftrightarrow>
     (\<forall>j. j \<noteq> i \<longrightarrow> ss_get j w' = ss_get j w \<and> (\<forall>a. ss_get j w = Some a \<longrightarrow> sess a w' = sess a w))"

lemma others_kept_refl [simp]: "others_kept i w w"
  by (simp add: others_kept_def)

lemma others_kept_trans [trans]: "others_kept i w w1 \<Longrightarrow> others_kept i w1 w2 \<Longrightarrow> others_kept i w w2"
  by (auto simp: others_kept_def)

lemma others_kept_at:
  assumes "sess_wf w" and "ss_get i w = Some a" and "w_map w' = w_map w"
    and "\<And>b. b \<noteq> a \<Longrightarrow> sess b w' = sess b w"
  shows "others_kept i w w'"
  unfolding others_kept_def
proof (intro allI impI conjI)
  fix j b assume "j \<noteq> i"
  show "ss_get j w' = ss_get j w" using assms(3) by (simp add: ss_get_def)
  assume "ss_get j w = Some b"
  with \<open>j \<noteq> i\<close> have "b \<noteq> a" using sess_wf_inj [OF assms(1) _ assms(2)] by blast
  with assms(4) show "sess b w' = sess b w" by blast
qed

lemma remove_pure_others: "sess_wf w \<Longrightarrow> others_kept i w (remove_pure now i w)"
  using sess_wf_inj [of w]
  by (auto simp: others_kept_def sess_wf_def remove_pure_get intro!: remove_pure_sess)

lemma create_pure_sess:
  assumes "create_pure split c now i w = (r, w')" and "b < length (w_heap w)"
  shows "sess b w' = sess b w"
  using assms
  by (auto simp: create_pure_def ss_alloc_def ss_add_def sess_def Let_def UpdateActivity_def
      addWastedTime_def upd_def nth_append split: option.splits if_splits)

lemma create_pure_others:
  assumes "sess_wf w" and "canonical split i" and "create_pure split c now i w = (r, w')"
  shows "others_kept i w w'"
proof (cases "ss_has i w")
  case True
  then have "w' = w" using create_pure_canonical [OF assms] by blast
  then show ?thesis by simp
next
  case False
  then have "ss_get j w' = ss_get j w" if "j \<noteq> i" for j
    using create_pure_canonical [OF assms] that by (auto simp: ss_get_def gm.get_put)
  then show ?thesis
    using create_pure_sess [OF assms(3)] sess_wf_get [OF assms(1)] by (auto simp: others_kept_def)
qed

text \<open>The password a session for the address has, if there is one.\<close>

definition known_password :: "string \<Rightarrow> sworld \<Rightarrow> string" where
  "known_password i w = (case ss_get i w of None \<Rightarrow> [] | Some a \<Rightarrow> s_Password (sess a w))"

lemma create_pure_password:
  assumes "sess_wf w" and "canonical split i" and "create_pure split c now i w = (Some a, w')"
  shows "s_Password (sess a w') = known_password i w"
proof (cases "ss_has i w")
  case True
  then have "w' = w" "ss_get i w = Some a" using create_pure_canonical [OF assms] by auto
  then show ?thesis by (simp add: known_password_def)
next
  case False
  obtain s where s: "SetID split c i (NewSession now) = Some s" "s_ID s = i" "s_Password s = []"
    using assms(2) by (auto simp: SetID_def canonical_def updateID_def NewSession_def)
  have "a = length (w_heap w)" using create_pure_canonical [OF assms] False by blast
  with False s assms(3) show ?thesis
    by (auto simp: create_pure_def ss_alloc_def ss_add_def Let_def known_password_def ss_has_get
        ss_has_def [symmetric] sess_def UpdateActivity_def addWastedTime_def upd_def
        split: option.splits if_splits)
qed

text \<open>C22. Creating a session for a canonical address returns the session with that ID, keeps the invariant
  (the active-sessions gauge counts the entries of the map), leaves the lock free, and creating it
  again returns the same object and changes nothing.\<close>

theorem Create_spec:
  assumes "sess_wf w" and "\<not> w_locked w" and "canonical split i"
  shows "\<exists>a w'. Create split c now i w = Some (Some a, w') \<and> sess_wf w' \<and> \<not> w_locked w' \<and>
    ss_get i w' = Some a \<and> s_ID (sess a w') = i \<and>
    (\<forall>c' now'. Create split c' now' i w' = Some (Some a, w'))"
proof -
  obtain r w' where cp: "create_pure split c now i w = (r, w')" by (meson surj_pair)
  note spec = create_pure_canonical [OF assms(1,3) cp]
  then obtain a where a: "r = Some a" "ss_get i w' = Some a" by auto
  then have "s_ID (sess a w') = i" using spec sess_wf_get by blast
  moreover have "Create split c' now' i w' = Some (Some a, w')" for c' now'
    using spec a assms(2) by (simp add: Create_eq create_pure_def ss_has_get)
  ultimately show ?thesis using spec a cp assms(2) by (simp add: Create_eq)
qed

definition sample_split :: "string \<Rightarrow> string \<times> int" where
  "sample_split s = (if s = ''6.6.6.6:22'' then (''6.6.6.6'', 22) else ([], 0))"

lemma sample_canonical: "canonical sample_split ''6.6.6.6:22''"
  unfolding canonical_def sample_split_def by code_simp

lemma NewActiveSessions_wf: "sess_wf (NewActiveSessions metrics_zero)"
  by (simp add: sess_wf_def NewActiveSessions_def metrics_zero_def ss_get_def)

theorem Create_spec_witness:
  "\<exists>a w'. Create sample_split sample_conf 5 ''6.6.6.6:22'' (NewActiveSessions metrics_zero) =
     Some (Some a, w') \<and> s_ID (sess a w') = ''6.6.6.6:22''"
  using Create_spec [OF NewActiveSessions_wf _ sample_canonical, of sample_conf 5]
  by (auto simp: NewActiveSessions_def)

text \<open>C40. When the address is not canonical (its parts print differently, as for a bracketed IPv6 address
  whose host is extracted without the brackets) and no session has this key, \<^verbatim>\<open>Create\<close> returns nil,
  although it has stored a session under the printed ID if that was free, and has incremented the
  active-sessions gauge.\<close>

theorem Create_noncanonical:
  assumes "\<not> w_locked w" and "split i = (h, p)" and "h \<noteq> []" and "p \<noteq> 0"
    and "host_port h p \<noteq> i" and "\<not> ss_has i w"
  shows "\<exists>w'. Create split c now i w = Some (None, w') \<and> ss_has (host_port h p) w' \<and>
    l_activeSessions (w_metrics w') = l_activeSessions (w_metrics w) + 1"
proof -
  obtain s where s: "SetID split c i (NewSession now) = Some s" "s_ID s = host_port h p"
    using assms(2-4) by (simp add: SetID_def updateID_def)
  let ?a = "length (w_heap w)"
  let ?w1 = "ss_add ?a (w\<lparr>w_heap := w_heap w @ [s]\<rparr>)"
  let ?w' = "(UpdateActivity now ?a ?w1)\<lparr>w_metrics :=
    IncrementSessions (w_metrics (UpdateActivity now ?a ?w1))\<rparr>"
  have m: "w_map ?w' = w_map ?w1" "ss_get i ?w1 = None" "ss_has (host_port h p) ?w1"
    "w_metrics ?w1 = w_metrics w"
    using assms(5,6) s(2)
    by (auto simp: ss_add_def ss_has_def ss_get_def gm_has_def gm.get_put Let_def)
  have "create_pure split c now i w = (ss_get i ?w', ?w')"
    using assms(6) s(1) by (simp add: create_pure_def ss_alloc_def Let_def ss_get_def)
  with assms(1) m show ?thesis
    by (simp add: Create_eq ss_get_def ss_has_def metrics_defs UpdateActivity_def addWastedTime_def)
qed

theorem Create_noncanonical_witness:
  "\<exists>w'. Create (\<lambda>_. (''::1'', 22)) sample_conf 5 ''[::1]:22'' (NewActiveSessions metrics_zero) =
     Some (None, w') \<and> l_activeSessions (w_metrics w') = 1"
proof -
  have "host_port ''::1'' 22 \<noteq> ''[::1]:22''" by code_simp
  then show ?thesis
    using Create_noncanonical [of "NewActiveSessions metrics_zero" "\<lambda>_. (''::1'', 22)" "''[::1]:22''"
        "''::1''" 22 sample_conf 5]
    by (auto simp: NewActiveSessions_def ss_has_def metrics_zero_def)
qed

text \<open>C15. \<^verbatim>\<open>Remove\<close>, which calls itself through \<^verbatim>\<open>delete\<close> with the mutex released and taken again, always
  returns when the mutex is free, without deadlock or double unlock, and leaves the mutex free; it
  deletes exactly the named session, decrements the gauge exactly once if the session was there, and
  touches no other session object.\<close>

theorem Remove_spec:
  assumes "sess_wf w" and "\<not> w_locked w"
  shows "\<exists>w'. Remove now i w = Some w' \<and> \<not> w_locked w' \<and> sess_wf w' \<and>
    (\<forall>j. ss_get j w' = (if j = i then None else ss_get j w)) \<and>
    l_activeSessions (w_metrics w') =
      l_activeSessions (w_metrics w) - (if ss_has i w then 1 else 0) \<and>
    (\<forall>a. ss_get i w \<noteq> Some a \<longrightarrow> sess a w' = sess a w)"
proof -
  have inv: "gm_inv (w_map w)" using assms(1) by (simp add: sess_wf_def)
  have "l_activeSessions (w_metrics (remove_pure now i w)) =
      l_activeSessions (w_metrics w) - (if ss_has i w then 1 else 0)"
    by (simp add: remove_pure_def Let_def ss_has_get metrics_defs UpdateActivity_def
        addWastedTime_def split: option.split)
  then show ?thesis
    using assms inv by (simp add: Remove_eq remove_pure_wf remove_pure_get remove_pure_sess)
qed

theorem Remove_spec_witness:
  "\<exists>w'. Remove 9 ''x'' (NewActiveSessions metrics_zero) = Some w' \<and> \<not> w_locked w'"
  using Remove_spec [OF NewActiveSessions_wf, of 9 "''x''"] by (auto simp: NewActiveSessions_def)

section \<open>The clean-up pass\<close>

definition expired :: "int \<Rightarrow> nat \<Rightarrow> session \<Rightarrow> bool" where
  "expired now age s \<longleftrightarrow>
     (\<not> s_SSHSession s \<and> StaleSince now s > 600 * second) \<or> StaleSince now s > int age * second"

definition doomed :: "int \<Rightarrow> nat \<Rightarrow> session \<Rightarrow> bool" where
  "doomed now age s \<longleftrightarrow>
     \<not> s_SSHSession s \<and> int age * second < StaleSince now s \<and> StaleSince now s \<le> 600 * second"

lemma expire_doomed: "doomed now age (sess a w) \<Longrightarrow> expire now age a w = Inl NilDeref"
  by (simp add: doomed_def expire_def Let_def)

lemma expire_cases:
  assumes "\<not> doomed now age (sess a w)"
  obtains w' where "expire now age a w = Inr (expired now age (sess a w), w')"
    and "sess_wf w \<Longrightarrow> sess_wf w'" and "w_map w' = w_map w" and "w_locked w' = w_locked w"
    and "\<And>b. b \<noteq> a \<Longrightarrow> sess b w' = sess b w"
    and "\<not> expired now age (sess a w) \<Longrightarrow> w' = w"
proof (cases "\<not> s_SSHSession (sess a w) \<and> StaleSince now (sess a w) > 600 * second")
  case True
  show thesis
  proof (rule that [of "upd a (\<lambda>s. s\<lparr>s_Orphan := True\<rparr>) w"])
    show "expire now age a w =
        Inr (expired now age (sess a w), upd a (\<lambda>s. s\<lparr>s_Orphan := True\<rparr>) w)"
      using True by (simp add: expire_def expired_def Let_def)
  qed (use True in \<open>simp_all add: upd_wf sess_upd_other expired_def\<close>)
next
  case f: False
  show thesis
  proof (cases "StaleSince now (sess a w) > int age * second")
    case True
    show thesis
    proof (rule that [of "w\<lparr>w_exits := w_exits w @ [a]\<rparr>"])
      show "expire now age a w = Inr (expired now age (sess a w), w\<lparr>w_exits := w_exits w @ [a]\<rparr>)"
        using True f assms by (auto simp: expire_def expired_def doomed_def Let_def)
    qed (use True in \<open>simp_all add: sess_wf_def ss_get_def sess_def expired_def\<close>)
  next
    case False
    show thesis
      using False f by (intro that [of w]) (auto simp: expire_def expired_def Let_def)
  qed
qed

definition key_sat :: "(session \<Rightarrow> bool) \<Rightarrow> string \<Rightarrow> sworld \<Rightarrow> bool" where
  "key_sat P i w = (case ss_get i w of None \<Rightarrow> False | Some a \<Rightarrow> P (sess a w))"

lemma cleanUp_loop_spec:
  assumes "sess_wf w" and "w_locked w" and "distinct ks"
  shows "(if \<exists>i \<in> set ks. key_sat (doomed now age) i w
          then cleanUp_loop now age ks w = Inl NilDeref
          else \<exists>w'. cleanUp_loop now age ks w = Inr w' \<and> sess_wf w' \<and> w_locked w' \<and>
            (\<forall>j. ss_get j w' =
               (if j \<in> set ks \<and> key_sat (expired now age) j w then None else ss_get j w)) \<and>
            (\<forall>j a. ss_get j w' = Some a \<longrightarrow> sess a w' = sess a w))"
  using assms
proof (induction ks arbitrary: w)
  case Nil
  then show ?case by simp
next
  case (Cons i ks)
  show ?case
  proof (cases "ss_get i w")
    case None
    then have "\<not> key_sat P i w" for P by (simp add: key_sat_def)
    then have "(j \<in> set (i # ks) \<and> key_sat P j w) = (j \<in> set ks \<and> key_sat P j w)" for j P
      by auto
    then have "(\<exists>j \<in> set (i # ks). key_sat P j w) = (\<exists>j \<in> set ks. key_sat P j w)"
      and "(if j \<in> set (i # ks) \<and> key_sat P j w then None else ss_get j w) =
        (if j \<in> set ks \<and> key_sat P j w then None else ss_get j w)" for P j
      by metis+
    with Cons.IH [of w] Cons.prems None show ?thesis by simp
  next
    case (Some a)
    show ?thesis
    proof (cases "doomed now age (sess a w)")
      case True
      with Some show ?thesis by (simp add: key_sat_def expire_doomed)
    next
      case nd: False
      obtain w1 where w1: "expire now age a w = Inr (expired now age (sess a w), w1)"
        "sess_wf w1" "w_map w1 = w_map w" "w_locked w1" "\<And>b. b \<noteq> a \<Longrightarrow> sess b w1 = sess b w"
        "\<not> expired now age (sess a w) \<Longrightarrow> w1 = w"
        using expire_cases [OF nd] Cons.prems by metis
      show ?thesis
      proof (cases "expired now age (sess a w)")
        case False
        with w1 have "cleanUp_loop now age (i # ks) w = cleanUp_loop now age ks w"
          using Some by simp
        moreover have "\<not> key_sat (doomed now age) i w" "\<not> key_sat (expired now age) i w"
          using Some nd False by (simp_all add: key_sat_def)
        then have "(\<exists>j \<in> set (i # ks). key_sat (doomed now age) j w) =
            (\<exists>j \<in> set ks. key_sat (doomed now age) j w)"
          and "(if j \<in> set (i # ks) \<and> key_sat (expired now age) j w then None else ss_get j w) =
            (if j \<in> set ks \<and> key_sat (expired now age) j w then None else ss_get j w)" for j
          by auto
        ultimately show ?thesis
          using Cons.IH [of w] Cons.prems by (simp del: cleanUp_loop.simps)
      next
        case ex: True
        have inv: "gm_inv (w_map w1)" using w1(2) by (simp add: sess_wf_def)
        define w2 where "w2 = (remove_pure now i (w1\<lparr>w_locked := False\<rparr>))\<lparr>w_locked := True\<rparr>"
        have step: "cleanUp_loop now age (i # ks) w = cleanUp_loop now age ks w2"
          using Some w1(1,4) ex inv by (simp add: w2_def ss_Unlock_def ss_Lock_def Remove_eq)
        have wf2: "sess_wf w2" using w1(2) by (simp add: w2_def remove_pure_wf)
        have get2: "ss_get j w2 = (if j = i then None else ss_get j w)" for j
          using inv w1(3) by (simp add: w2_def remove_pure_get) (simp add: ss_get_def)
        have sess2: "sess b w2 = sess b w" if "ss_get j w2 = Some b" for j b
        proof -
          have j: "j \<noteq> i" "ss_get j w = Some b" using that get2 by (auto split: if_splits)
          then have "b \<noteq> a" using sess_wf_inj [OF Cons.prems(1) Some] by blast
          moreover have "ss_get i (w1\<lparr>w_locked := False\<rparr>) \<noteq> Some b"
            using \<open>b \<noteq> a\<close> Some w1(3) by (simp add: ss_get_def)
          ultimately show ?thesis using w1(5) by (simp add: w2_def remove_pure_sess)
        qed
        have ks: "key_sat P j w2 = key_sat P j w" if "j \<noteq> i" for P j
          using that get2 [of j] sess2 [of j] by (simp add: key_sat_def split: option.split)
        have i: "i \<notin> set ks" using Cons.prems by simp
        have ki: "key_sat P i w \<longleftrightarrow> P (sess a w)" for P
          using Some by (simp add: key_sat_def)
        have "(\<exists>j \<in> set ks. key_sat (doomed now age) j w2) =
            (\<exists>j \<in> set ks. key_sat (doomed now age) j w)"
          using i ks by metis
        then have d: "(\<exists>j \<in> set (i # ks). key_sat (doomed now age) j w) =
            (\<exists>j \<in> set ks. key_sat (doomed now age) j w2)"
          using ki nd by simp
        have g: "(if j \<in> set (i # ks) \<and> key_sat (expired now age) j w then None else ss_get j w) =
            (if j \<in> set ks \<and> key_sat (expired now age) j w2 then None else ss_get j w2)" for j
          using get2 [of j] ks [of j "expired now age"] ki [of "expired now age"] ex i
          by (cases "j = i") simp_all
        have "w_locked w2" by (simp add: w2_def)
        note IH = Cons.IH [OF wf2 this]
        show ?thesis
        proof (cases "\<exists>j \<in> set ks. key_sat (doomed now age) j w2")
          case True
          with IH Cons.prems have "cleanUp_loop now age ks w2 = Inl NilDeref" by simp
          with True d show ?thesis by (metis step)
        next
          case False
          with IH Cons.prems obtain w' where w': "cleanUp_loop now age ks w2 = Inr w'"
            "sess_wf w'" "w_locked w'"
            "\<And>j. ss_get j w' = (if j \<in> set ks \<and> key_sat (expired now age) j w2 then None
               else ss_get j w2)"
            "\<And>j a. ss_get j w' = Some a \<Longrightarrow> sess a w' = sess a w2"
            by auto
          have "sess b w' = sess b w" if "ss_get j w' = Some b" for j b
            using w'(5) [OF that] sess2 [of j b] w'(4) [of j] that
            by (simp split: if_splits)
          moreover have "ss_get j w' = (if j \<in> set (i # ks) \<and> key_sat (expired now age) j w
              then None else ss_get j w)" for j
            unfolding g by (rule w'(4))
          ultimately show ?thesis using False d w'(1-3) step by metis
        qed
      qed
    qed
  qed
qed

text \<open>C21. The clean-up pass, in whatever order it visits the map, dereferences a nil pointer exactly when
  some session has no SSH session and is stale for more than the maximum age but at most ten minutes;
  otherwise it removes exactly the expired sessions, leaves the others untouched, keeps the invariant
  and releases the lock.\<close>

theorem cleanUp_spec:
  assumes "sess_wf w" and "\<not> w_locked w" and "map_order (w_map w) ks"
  shows "if \<exists>i. key_sat (doomed now age) i w
         then cleanUp now age ks w = Inl NilDeref
         else \<exists>w'. cleanUp now age ks w = Inr w' \<and> sess_wf w' \<and> \<not> w_locked w' \<and>
           (\<forall>j. ss_get j w' = (if key_sat (expired now age) j w then None else ss_get j w)) \<and>
           (\<forall>j a. ss_get j w' = Some a \<longrightarrow> sess a w' = sess a w)"
proof -
  let ?w = "w\<lparr>w_locked := True\<rparr>"
  have inv: "gm_inv (w_map w)" using assms(1) by (simp add: sess_wf_def)
  have k: "key_sat P i ?w = key_sat P i w" for P i
    by (simp add: key_sat_def split: option.split)
  have s: "key_sat P i w \<Longrightarrow> i \<in> set ks" for P i
    using map_order_set [OF assms(3)] by (auto simp: key_sat_def ss_get_def gm_has_def split: option.splits)
  have c: "cleanUp now age ks w = bind_res (cleanUp_loop now age ks ?w) (\<lambda>w.
      case ss_Unlock w of None \<Rightarrow> Inl LockFailure | Some w \<Rightarrow> Inr w)"
    using assms(2) by (simp add: cleanUp_def ss_Lock_def)
  note spec = cleanUp_loop_spec [of ?w ks now age, OF _ _ map_order_distinct [OF inv assms(3)]]
  show ?thesis
  proof (cases "\<exists>i. key_sat (doomed now age) i w")
    case True
    with spec s k assms(1) c show ?thesis by (auto split: if_splits)
  next
    case False
    then obtain w' where w': "cleanUp_loop now age ks ?w = Inr w'" "sess_wf w'" "w_locked w'"
      "\<forall>j. ss_get j w' = (if j \<in> set ks \<and> key_sat (expired now age) j w then None else ss_get j w)"
      "\<forall>j a. ss_get j w' = Some a \<longrightarrow> sess a w' = sess a w"
      using spec k assms(1) by auto
    let ?w' = "w'\<lparr>w_locked := False\<rparr>"
    have "cleanUp now age ks w = Inr ?w'" using c w'(1,3) by (simp add: ss_Unlock_def)
    moreover have "\<forall>j. ss_get j ?w' = (if key_sat (expired now age) j w then None else ss_get j w)"
      using w'(4) s by auto
    ultimately show ?thesis using False w'(2,5) by (intro if_not_P [THEN iffD2] exI [of _ ?w']) auto
  qed
qed

theorem cleanUp_spec_witness:
  "\<exists>w. sess_wf w \<and> cleanUp (301 * second) 300 [''6.6.6.6:22''] w = Inl NilDeref"
proof -
  let ?w0 = "NewActiveSessions metrics_zero"
  obtain r w where cp: "create_pure sample_split sample_conf 0 ''6.6.6.6:22'' ?w0 = (r, w)"
    by (meson surj_pair)
  have w: "sess_wf w" "\<not> w_locked w" "w_map w = [(''6.6.6.6:22'', 0)]"
    using create_pure_canonical [OF NewActiveSessions_wf sample_canonical cp]
    by (auto simp: NewActiveSessions_def ss_has_def gm_put_def)
  have "sess 0 w = updateID sample_conf ((NewSession 0)\<lparr>s_Host := ''6.6.6.6'', s_Port := 22\<rparr>)"
    using cp by (auto simp: create_pure_def SetID_def sample_split_def NewActiveSessions_def
        ss_has_def ss_alloc_def ss_add_def UpdateActivity_def sess_def upd_def Let_def
        updateID_def NewSession_def)
  then have "key_sat (doomed (301 * second) 300) ''6.6.6.6:22'' w"
    by (simp add: key_sat_def ss_get_def w(3) gm_get_def doomed_def StaleSince_def updateID_def
        NewSession_def second_def)
  then have "\<exists>i. key_sat (doomed (301 * second) 300) i w" by blast
  moreover have "map_order (w_map w) [''6.6.6.6:22'']"
    by (simp add: w(3) map_order_def gm_keys_def)
  ultimately show ?thesis
    using cleanUp_spec [of w "[''6.6.6.6:22'']" "301 * second" 300] w(1,2) by auto
qed

section \<open>The wasted time\<close>

text \<open>One session object, active at the instants \<open>ts\<close>.\<close>

definition updates :: "int list \<Rightarrow> nat \<Rightarrow> sworld \<Rightarrow> sworld" where
  "updates ts a w = fold (\<lambda>now w. UpdateActivity now a w) ts w"

lemma UpdateActivity_wasted:
  assumes "a < length (w_heap w)" and "\<not> s_Orphan (sess a w)" and "s_LastActivity (sess a w) \<le> now"
    and "0 \<le> w_wasted w" and "w_wasted w + (now - s_LastActivity (sess a w)) div second < 2 ^ 63"
  shows "w_wasted (UpdateActivity now a w) = w_wasted w + (now - s_LastActivity (sess a w)) div second"
    and "l_timeWasted (w_metrics (UpdateActivity now a w)) =
      l_timeWasted (w_metrics w) + of_int ((now - s_LastActivity (sess a w)) div second)"
    and "\<not> s_Orphan (sess a (UpdateActivity now a w))"
    and "s_LastActivity (sess a (UpdateActivity now a w)) = now"
proof -
  have i: "int_seconds (now - s_LastActivity (sess a w)) = (now - s_LastActivity (sess a w)) div second"
    using assms(3) by (simp add: int_seconds_def trunc_div_nonneg second_def)
  moreover have "0 \<le> (now - s_LastActivity (sess a w)) div second"
    using assms(3) by (simp add: second_def pos_imp_zdiv_nonneg_iff)
  ultimately show "w_wasted (UpdateActivity now a w) =
      w_wasted w + (now - s_LastActivity (sess a w)) div second"
    using assms by (simp add: UpdateActivity_def wrap64_id)
  show "l_timeWasted (w_metrics (UpdateActivity now a w)) =
      l_timeWasted (w_metrics w) + of_int ((now - s_LastActivity (sess a w)) div second)"
    using assms(2) i by (simp add: UpdateActivity_def addWastedTime_def metrics_defs)
qed (use assms(1,2) in \<open>simp_all add: sess_UpdateActivity\<close>)

lemma div_second_add:
  "x div second + y div second \<le> (x + y) div second"
  "(x + y) div second \<le> x div second + y div second + 1"
  by (simp_all add: second_def)

text \<open>While a session is active at times that do not decrease, the wasted time it adds, to the counter
  and to the metrics server alike, is at most the whole seconds that have passed since its last
  activity, and falls short of them by less than one second per activity.\<close>

theorem wasted_time_bounds:
  assumes "sorted (s_LastActivity (sess a w) # ts)" and "a < length (w_heap w)"
    and "\<not> s_Orphan (sess a w)" and "0 \<le> w_wasted w"
    and "w_wasted w + (last (s_LastActivity (sess a w) # ts) - s_LastActivity (sess a w)) div second < 2 ^ 63"
  shows "\<exists>n. w_wasted (updates ts a w) = w_wasted w + n \<and>
    l_timeWasted (w_metrics (updates ts a w)) = l_timeWasted (w_metrics w) + of_int n \<and>
    0 \<le> n \<and>
    n \<le> (last (s_LastActivity (sess a w) # ts) - s_LastActivity (sess a w)) div second \<and>
    (last (s_LastActivity (sess a w) # ts) - s_LastActivity (sess a w)) div second \<le>
      n + int (length ts)"
  using assms
proof (induction ts arbitrary: w)
  case Nil
  then show ?case by (simp add: updates_def)
next
  case (Cons t ts)
  let ?t0 = "s_LastActivity (sess a w)"
  let ?w = "UpdateActivity t a w" and ?k = "(t - ?t0) div second"
  let ?m = "(last (t # ts) - t) div second"
  have le: "?t0 \<le> t" "t \<le> last (t # ts)"
    using Cons.prems(1) by (auto simp: last_conv_nth)
  have "(t - ?t0) + (last (t # ts) - t) = last (t # ts) - ?t0" by simp
  then have d: "?k + ?m \<le> (last (t # ts) - ?t0) div second"
    "(last (t # ts) - ?t0) div second \<le> ?k + ?m + 1"
    using div_second_add [of "t - ?t0" "last (t # ts) - t"] by simp_all
  have k: "0 \<le> ?k" "0 \<le> ?m" using le by (simp_all add: second_def pos_imp_zdiv_nonneg_iff)
  have "w_wasted w + ?k < 2 ^ 63" using Cons.prems(5) d k by simp
  note u = UpdateActivity_wasted [OF Cons.prems(2,3) le(1) Cons.prems(4) this]
  obtain n where n: "w_wasted (updates ts a ?w) = w_wasted ?w + n"
    "l_timeWasted (w_metrics (updates ts a ?w)) = l_timeWasted (w_metrics ?w) + of_int n"
    "0 \<le> n" "n \<le> ?m" "?m \<le> n + int (length ts)"
    using Cons.IH [of ?w] Cons.prems u d k by auto
  have "updates (t # ts) a w = updates ts a ?w" by (simp add: updates_def)
  with n u d k show ?case by (intro exI [of _ "?k + n"]) auto
qed

theorem wasted_time_bounds_witness:
  "\<exists>n. w_wasted (updates [1500000000, 2900000000] 0
      ((NewActiveSessions metrics_zero)\<lparr>w_heap := [NewSession 0]\<rparr>)) = n \<and> 0 \<le> n \<and> n \<le> 2 \<and> 2 \<le> n + 2"
  using wasted_time_bounds [of 0 "(NewActiveSessions metrics_zero)\<lparr>w_heap := [NewSession 0]\<rparr>"
      "[1500000000, 2900000000]"]
  by (simp add: sess_def NewSession_def NewActiveSessions_def second_def)

end
