(* ===== verification/OSSH_Server.thy ===== *)
theory OSSH_Server
  imports Logins Loot Sessions
begin

text \<open>
  \<^verbatim>\<open>ossh_server.go\<close>: the SSH honeypot's server object, its data files, its login bookkeeping and
  the callbacks the SSH library calls. The SSH library (gliderlabs/ssh) only appears through the
  arguments it hands to the callbacks. Each reading of the clock is an argument: \<open>now\<close> for the
  activity of the session (nanoseconds), \<open>u7\<close> and \<open>u3\<close> for the two calls of \<^verbatim>\<open>time.Now().Unix()\<close>
  in \<^verbatim>\<open>authHandler\<close>. Log output is left out.
\<close>

section \<open>State\<close>

text \<open>The metrics server is global in the program; it is kept in the session world.\<close>

record ossh =
  o_loot :: loot
  o_logins :: logins
  o_sess :: sworld
  o_disk :: fsys

definition o_metrics :: "ossh \<Rightarrow> metrics" where
  "o_metrics o1 = w_metrics (o_sess o1)"

definition with_loot :: "(loot_st \<Rightarrow> 'a \<times> loot_st) \<Rightarrow> ossh \<Rightarrow> 'a \<times> ossh" where
  "with_loot f o1 =
     (case f (o_loot o1, o_metrics o1) of (x, l, m) \<Rightarrow>
        (x, o1\<lparr>o_loot := l, o_sess := (o_sess o1)\<lparr>w_metrics := m\<rparr>\<rparr>))"

definition with_logins :: "(logins \<times> metrics \<Rightarrow> logins \<times> metrics) \<Rightarrow> ossh \<Rightarrow> ossh" where
  "with_logins f o1 =
     (case f (o_logins o1, o_metrics o1) of (ls, m) \<Rightarrow>
        o1\<lparr>o_logins := ls, o_sess := (o_sess o1)\<lparr>w_metrics := m\<rparr>\<rparr>)"

definition with_sess :: "(sworld \<Rightarrow> sworld) \<Rightarrow> ossh \<Rightarrow> ossh" where
  "with_sess f o1 = o1\<lparr>o_sess := f (o_sess o1)\<rparr>"

abbreviation o_session :: "nat \<Rightarrow> ossh \<Rightarrow> session" where
  "o_session a o1 \<equiv> sess a (o_sess o1)"

section \<open>Wasted time and statistics\<close>

definition TimeWastedCounter_Add :: "int \<Rightarrow> int \<Rightarrow> int" where
  "TimeWastedCounter_Add n val = wrap64 (val + n)"

text \<open>Nanoseconds in a 64-bit \<^verbatim>\<open>time.Duration\<close>, back to seconds.\<close>

definition getWastedTime :: "sworld \<Rightarrow> rat" where
  "getWastedTime w = of_int (wrap64 (w_wasted w * second)) / of_int second"

record node_stats =
  ns_Hosts :: int
  ns_Passwords :: int
  ns_Users :: int
  ns_Payloads :: int
  ns_Sessions :: int
  ns_AttemptedLogins :: uint64
  ns_SuccessfulLogins :: uint64
  ns_FailedLogins :: uint64
  ns_TimeWasted :: rat
  ns_Uptime :: rat

text \<open>\<open>up\<close> is the rounded uptime in seconds; \<open>ks\<close>, \<open>js\<close>, \<open>ss\<close> and \<open>fs\<close> are the orders in which the
  login totals range over the map.\<close>

definition server_stats ::
  "rat \<Rightarrow> string list \<Rightarrow> string list \<Rightarrow> string list \<Rightarrow> string list \<Rightarrow> ossh \<Rightarrow>
   (node_stats \<times> ossh) option" where
  "server_stats up ks js ss fs o0 =
     (let o1 = with_sess (\<lambda>w. w\<lparr>w_metrics := SetTimeOnline up (w_metrics w)\<rparr>) o0
      in case ss_Count (o_sess o1) of
           None \<Rightarrow> None
         | Some (n, w) \<Rightarrow>
             Some (\<lparr>ns_Hosts = go_len (CountHosts (o_loot o1)),
                    ns_Passwords = go_len (CountPasswords (o_loot o1)),
                    ns_Users = go_len (CountUsers (o_loot o1)),
                    ns_Payloads = go_len (CountPayloads (o_loot o1)),
                    ns_Sessions = go_len n,
                    ns_AttemptedLogins = Logins_GetAttempts ks js (o_logins o1),
                    ns_SuccessfulLogins = Logins_GetSuccesses ss (o_logins o1),
                    ns_FailedLogins = Logins_GetFailures fs (o_logins o1),
                    ns_TimeWasted = getWastedTime w,
                    ns_Uptime = up\<rparr>, o1\<lparr>o_sess := w\<rparr>))"

section \<open>Data files\<close>

definition loadDataFile ::
  "(fsys \<Rightarrow> string \<Rightarrow> bool) \<Rightarrow> fsys \<Rightarrow> string \<Rightarrow> (string \<Rightarrow> loot_st \<Rightarrow> bool \<times> loot_st) \<Rightarrow>
   loot_st \<Rightarrow> loot_st" where
  "loadDataFile fileExists d path fnAdd s =
     (if fileExists d path
      then (case os_read_file d (path_comps path) of
              Inl e \<Rightarrow> s
            | Inr content \<Rightarrow> fold (\<lambda>fp s. snd (fnAdd fp s)) (Split newline content) s)
      else s)"

definition loadData :: "(fsys \<Rightarrow> string \<Rightarrow> bool) \<Rightarrow> conf \<Rightarrow> fsys \<Rightarrow> loot_st \<Rightarrow> loot_st" where
  "loadData fileExists c d s =
     (let s = loadDataFile fileExists d (c_PathHosts c) (AddHost c) s;
          s = loadDataFile fileExists d (c_PathUsers c) AddUser s;
          s = loadDataFile fileExists d (c_PathPasswords c) AddPassword s
      in loadDataFile fileExists d (c_PathPayloads c) (AddPayload c) s)"

definition saveDataFile :: "string \<Rightarrow> string list \<Rightarrow> fsys \<Rightarrow> fsys" where
  "saveDataFile path lines d =
     (let data = Join [newline] lines @ [newline]
      in case os_write_file d (path_comps path) data of Inl e \<Rightarrow> d | Inr d' \<Rightarrow> d')"

text \<open>\<open>hs\<close>, \<open>us\<close>, \<open>ps\<close> and \<open>ls\<close> are the orders in which the four maps are ranged over.\<close>

definition SaveData ::
  "(fsys \<Rightarrow> string \<Rightarrow> bool) \<Rightarrow> conf \<Rightarrow> string list \<Rightarrow> string list \<Rightarrow> string list \<Rightarrow> string list \<Rightarrow>
   fsys \<Rightarrow> fsys" where
  "SaveData fileExists c hs us ps ls d =
     (let d = saveDataFile (c_PathHosts c) hs d;
          d = saveDataFile (c_PathUsers c) us d;
          d = saveDataFile (c_PathPasswords c) ps d
      in saveDataFile (c_PathPayloads c) (GetPayloads fileExists c d ls) d)"

definition syncCredentials :: "string \<Rightarrow> string \<Rightarrow> string \<Rightarrow> string list" where
  "syncCredentials user password host =
     [''ADD-USER '' @ user, ''ADD-PASSWORD '' @ password, ''ADD-HOST '' @ host]"

section \<open>Login bookkeeping\<close>

definition login_prepare :: "int \<Rightarrow> nat \<Rightarrow> ossh \<Rightarrow> ossh" where
  "login_prepare now a o0 =
     (let o1 = with_sess (UpdateActivity now a) o0
      in if s_Password (o_session a o1) = []
         then with_sess (upd a (\<lambda>s. s\<lparr>s_Password := ''(empty)''\<rparr>)) o1 else o1)"

definition loot_credentials :: "conf \<Rightarrow> session \<Rightarrow> ossh \<Rightarrow> ossh" where
  "loot_credentials c s o1 =
     snd (with_loot (AddHost c (s_Host s))
       (snd (with_loot (AddPassword (s_Password s)) (snd (with_loot (AddUser (s_User s)) o1)))))"

definition addLoginFailure :: "conf \<Rightarrow> int \<Rightarrow> nat \<Rightarrow> ossh \<Rightarrow> ossh" where
  "addLoginFailure c now a o0 =
     (let o1 = login_prepare now a o0; s = o_session a o1
      in if isIPWhitelisted c (s_Host s) then o1
         else with_logins (Logins_fail (s_Host s)) (loot_credentials c s o1))"

definition addLoginSuccess :: "conf \<Rightarrow> int \<Rightarrow> nat \<Rightarrow> ossh \<Rightarrow> ossh" where
  "addLoginSuccess c now a o0 =
     (let o1 = login_prepare now a o0; s = o_session a o1
      in if isIPWhitelisted c (s_Host s) then o1
         else with_logins (Logins_succeed (s_Host s)) (loot_credentials c s o1))"

section \<open>Callbacks\<close>

text \<open>\<^verbatim>\<open>ossh.Sessions.Create\<close>, and the dereference of its result.\<close>

definition o_Create ::
  "(string \<Rightarrow> string \<times> int) \<Rightarrow> conf \<Rightarrow> int \<Rightarrow> string \<Rightarrow> ossh \<Rightarrow> go_panic + nat option \<times> ossh" where
  "o_Create split c now addr o0 =
     (case Create split c now addr (o_sess o0) of
        None \<Rightarrow> Inl LockFailure
      | Some (r, w) \<Rightarrow> Inr (r, o0\<lparr>o_sess := w\<rparr>))"

definition deref :: "'a option \<Rightarrow> go_panic + 'a" where
  "deref r = (case r of None \<Rightarrow> Inl NilDeref | Some a \<Rightarrow> Inr a)"

definition o_session_of ::
  "(string \<Rightarrow> string \<times> int) \<Rightarrow> conf \<Rightarrow> int \<Rightarrow> string \<Rightarrow> ossh \<Rightarrow> go_panic + nat \<times> ossh" where
  "o_session_of split c now addr o0 =
     bind_res (o_Create split c now addr o0) (\<lambda>(r, o1).
       bind_res (deref r) (\<lambda>a. Inr (a, o1)))"

definition o_Remove :: "int \<Rightarrow> string \<Rightarrow> ossh \<Rightarrow> go_panic + ossh" where
  "o_Remove now i o0 =
     (case Remove now i (o_sess o0) of None \<Rightarrow> Inl LockFailure | Some w \<Rightarrow> Inr (o0\<lparr>o_sess := w\<rparr>))"

definition authHandler ::
  "(string \<Rightarrow> string \<times> int) \<Rightarrow> conf \<Rightarrow> int \<Rightarrow> int \<Rightarrow> int \<Rightarrow> string \<Rightarrow> string \<Rightarrow> string \<Rightarrow> ossh \<Rightarrow>
   go_panic + bool \<times> ossh" where
  "authHandler split c now u7 u3 addr user pwd o0 =
     bind_res (o_session_of split c now addr o0) (\<lambda>(a, o1).
       let o1 = with_sess (SetPassword now pwd a) (with_sess (SetUser now user a) o1);
           s = o_session a o1
       in if s_Whitelisted s then Inr (True, addLoginSuccess c now a o1)
          else if HasHost (s_Host s) (o_loot o1) \<and> u7 mod 7 \<noteq> 0
            then Inr (True, addLoginSuccess c now a o1)
          else if HasUser (s_User s) (o_loot o1) \<and> HasPassword (s_Password s) (o_loot o1)
            then Inr (False, addLoginFailure c now a o1)
          else if HasUser (s_User s) (o_loot o1) then Inr (True, addLoginSuccess c now a o1)
          else if HasPassword (s_Password s) (o_loot o1)
            then Inr (True, addLoginSuccess c now a o1)
          else if u3 mod 3 \<noteq> 0 then Inr (False, addLoginFailure c now a o1)
          else Inr (True, addLoginSuccess c now a o1))"

text \<open>\<open>kb\<close> is the marshalled key; \<open>sha1\<close> is \<^verbatim>\<open>gutils.StringToSha1\<close>.\<close>

definition key_path :: "(string \<Rightarrow> string) \<Rightarrow> conf \<Rightarrow> string \<Rightarrow> string" where
  "key_path sha1 c kb = c_PathCaptures c @ ''/ssh-keys/'' @ sha1 kb @ ''.pub''"

definition publicKeyHandler ::
  "(string \<Rightarrow> string \<times> int) \<Rightarrow> (fsys \<Rightarrow> string \<Rightarrow> bool) \<Rightarrow> (string \<Rightarrow> string) \<Rightarrow> conf \<Rightarrow> int \<Rightarrow>
   string \<Rightarrow> string \<Rightarrow> string \<Rightarrow> ossh \<Rightarrow> go_panic + bool \<times> ossh" where
  "publicKeyHandler split fileExists sha1 c now addr user kb o0 =
     bind_res (o_session_of split c now addr o0) (\<lambda>(a, o1).
       let o1 = with_sess (SetUser now user a) o1; s = o_session a o1
       in if isIPWhitelisted c (s_Host s) then Inr (True, addLoginSuccess c now a o1)
          else let fpath = key_path sha1 c kb
               in if \<not> fileExists (o_disk o1) fpath
                  then (let d = (case os_write_file (o_disk o1) (path_comps fpath) kb of
                                   Inl e \<Rightarrow> o_disk o1 | Inr d \<Rightarrow> d)
                        in Inr (True, addLoginSuccess c now a (o1\<lparr>o_disk := d\<rparr>)))
                  else Inr (False, addLoginFailure c now a o1))"

definition portForwardingCallback ::
  "(string \<Rightarrow> string \<times> int) \<Rightarrow> conf \<Rightarrow> int \<Rightarrow> string \<Rightarrow> ossh \<Rightarrow> go_panic + bool \<times> ossh" where
  "portForwardingCallback split c now addr o0 =
     bind_res (o_session_of split c now addr o0) (\<lambda>(a, o1).
       bind_res (o_Remove now (s_ID (o_session a o1)) o1) (\<lambda>o2. Inr (False, o2)))"

text \<open>In the next callbacks \<open>later\<close> is the instant after the random sleep.\<close>

definition ptyCallback ::
  "(string \<Rightarrow> string \<times> int) \<Rightarrow> conf \<Rightarrow> int \<Rightarrow> int \<Rightarrow> string \<Rightarrow> string \<Rightarrow> ossh \<Rightarrow>
   go_panic + bool \<times> ossh" where
  "ptyCallback split c now later addr term o0 =
     bind_res (o_session_of split c now addr o0) (\<lambda>(a, o1).
       Inr (True, with_sess (RandomSleep later a) (with_sess (SetTerm now term a) o1)))"

definition sessionRequestCallback ::
  "(string \<Rightarrow> string \<times> int) \<Rightarrow> conf \<Rightarrow> int \<Rightarrow> int \<Rightarrow> string \<Rightarrow> string \<Rightarrow> ossh \<Rightarrow>
   go_panic + bool \<times> ossh" where
  "sessionRequestCallback split c now later addr requestType o0 =
     bind_res (o_session_of split c now addr o0) (\<lambda>(a, o1).
       Inr (True, with_sess (RandomSleep later a) (with_sess (SetType now requestType a) o1)))"

definition connectionCallback ::
  "(string \<Rightarrow> string \<times> int) \<Rightarrow> conf \<Rightarrow> int \<Rightarrow> int \<Rightarrow> string \<Rightarrow> ossh \<Rightarrow> go_panic + ossh" where
  "connectionCallback split c now later addr o0 =
     bind_res (o_Create split c now addr o0) (\<lambda>(r, o1).
       case r of None \<Rightarrow> Inr o1 | Some a \<Rightarrow> Inr (with_sess (RandomSleep later a) o1))"

text \<open>All branches but the first remove the session; they differ in what they log.\<close>

definition connectionFailedCallback ::
  "(string \<Rightarrow> string \<times> int) \<Rightarrow> conf \<Rightarrow> int \<Rightarrow> string \<Rightarrow> string \<Rightarrow> ossh \<Rightarrow> go_panic + ossh" where
  "connectionFailedCallback split c now addr e o0 =
     bind_res (o_Create split c now addr o0) (\<lambda>(r, o1).
       if e = ''EOF'' then Inr o1
       else bind_res (deref r) (\<lambda>a. o_Remove now (s_ID (o_session a o1)) o1))"

definition NewOSSHServer :: "(fsys \<Rightarrow> string \<Rightarrow> bool) \<Rightarrow> conf \<Rightarrow> metrics \<Rightarrow> fsys \<Rightarrow> ossh" where
  "NewOSSHServer fileExists c m d =
     (let (l, m1) = loadData fileExists c d (NewLoot, m)
      in \<lparr>o_loot = l, o_logins = NewLogins, o_sess = NewActiveSessions m1, o_disk = d\<rparr>)"

section \<open>Invariant\<close>

text \<open>The counters that the loot and the logins are compared with; no session operation changes them.\<close>

definition counters :: "metrics \<Rightarrow> goint list" where
  "counters m = [l_knownUsers m, l_knownPasswords m, l_knownHosts m, l_knownPayloads m,
                 l_logins m, l_loginsFailed m, l_loginsSuccessful m]"

lemma counters_simps [simp]:
  "counters (AddTimeWasted t m) = counters m" "counters (IncrementSessions m) = counters m"
  "counters (DecrementSessions m) = counters m" "counters (SetTimeOnline t m) = counters m"
  by (simp_all add: counters_def metrics_defs Let_def)

lemma loot_counted_cong: "counters m' = counters m \<Longrightarrow> loot_counted (l, m') = loot_counted (l, m)"
  by (simp add: loot_counted_def counters_def)

lemma counters_UpdateActivity [simp]:
  "counters (w_metrics (UpdateActivity now a w)) = counters (w_metrics w)"
  by (simp add: UpdateActivity_def addWastedTime_def)

lemma counters_create [simp]:
  "counters (w_metrics (snd (create_pure split c now i w))) = counters (w_metrics w)"
  by (auto simp: create_pure_def ss_alloc_def ss_add_def Let_def split: option.split)

lemma counters_remove [simp]:
  "counters (w_metrics (remove_pure now i w)) = counters (w_metrics w)"
  by (simp add: remove_pure_def Let_def split: option.split)

lemma counters_upd [simp]: "counters (w_metrics (upd a f w)) = counters (w_metrics w)"
  by simp

text \<open>Sessions are stored under their address and know whether it is whitelisted.\<close>

definition sess_conf :: "(string \<Rightarrow> string \<times> int) \<Rightarrow> conf \<Rightarrow> sworld \<Rightarrow> bool" where
  "sess_conf split c w \<longleftrightarrow>
     (\<forall>i a. ss_get i w = Some a \<longrightarrow>
        s_Host (sess a w) = fst (split i) \<and>
        s_Whitelisted (sess a w) = isIPWhitelisted c (fst (split i)))"

definition world_inv :: "(string \<Rightarrow> string \<times> int) \<Rightarrow> conf \<Rightarrow> sworld \<Rightarrow> bool" where
  "world_inv split c w \<longleftrightarrow> sess_wf w \<and> \<not> w_locked w \<and> sess_conf split c w"

definition ossh_inv :: "(string \<Rightarrow> string \<times> int) \<Rightarrow> conf \<Rightarrow> ossh \<Rightarrow> bool" where
  "ossh_inv split c o1 \<longleftrightarrow>
     world_inv split c (o_sess o1) \<and> loot_inv (o_loot o1, o_metrics o1) \<and> gm_inv (o_logins o1)"

lemma UpdateActivity_world: "world_inv split c w \<Longrightarrow> world_inv split c (UpdateActivity now a w)"
  by (simp add: world_inv_def UpdateActivity_wf sess_conf_def ss_get_def)

lemma upd_world:
  assumes "world_inv split c w"
    and "\<And>s. s_ID (f s) = s_ID s \<and> s_Host (f s) = s_Host s \<and> s_Whitelisted (f s) = s_Whitelisted s"
  shows "world_inv split c (upd a f w)"
proof -
  have "s_Host (sess b (upd a f w)) = s_Host (sess b w)"
    "s_Whitelisted (sess b (upd a f w)) = s_Whitelisted (sess b w)" for b
    using assms(2) by (simp_all add: sess_def upd_def nth_upd)
  with assms show ?thesis by (simp add: world_inv_def upd_wf sess_conf_def ss_get_def)
qed

lemma setters_world:
  assumes "world_inv split c w"
  shows "world_inv split c (SetType now t a w)" "world_inv split c (SetShell now a w)"
    "world_inv split c (SetSSHSession now a w)" "world_inv split c (SetTerm now t a w)"
    "world_inv split c (SetUser now t a w)" "world_inv split c (SetPassword now t a w)"
    "world_inv split c (RandomSleep now a w)"
  using assms by (simp_all add: setter_defs UpdateActivity_world upd_world)

lemma remove_world: "world_inv split c w \<Longrightarrow> world_inv split c (remove_pure now i w)"
proof -
  assume w: "world_inv split c w"
  then have inv: "gm_inv (w_map w)" "sess_wf w" by (simp_all add: world_inv_def sess_wf_def)
  have "sess a (remove_pure now i w) = sess a w" if "ss_get j (remove_pure now i w) = Some a" for j a
  proof (rule remove_pure_sess)
    have "j \<noteq> i" "ss_get j w = Some a" using that inv by (auto simp: remove_pure_get split: if_splits)
    then show "ss_get i w \<noteq> Some a" using sess_wf_inj [OF inv(2)] by blast
  qed
  moreover have "ss_get j w = Some a" if "ss_get j (remove_pure now i w) = Some a" for j a
    using that inv by (auto simp: remove_pure_get split: if_splits)
  ultimately show ?thesis using w by (simp add: world_inv_def remove_pure_wf sess_conf_def)
qed

lemma create_world:
  assumes "world_inv split c w" and "canonical split i"
  shows "\<exists>a w'. create_pure split c now i w = (Some a, w') \<and> world_inv split c w' \<and>
    ss_get i w' = Some a \<and> a < length (w_heap w') \<and> s_ID (sess a w') = i \<and>
    s_Host (sess a w') = fst (split i) \<and>
    s_Whitelisted (sess a w') = isIPWhitelisted c (fst (split i))"
proof -
  obtain r w' where cp: "create_pure split c now i w = (r, w')" by (meson surj_pair)
  have wf: "sess_wf w" using assms(1) by (simp add: world_inv_def)
  note spec = create_pure_canonical [OF wf assms(2) cp]
  then obtain a where a: "r = Some a" "ss_get i w' = Some a" by blast
  have conf: "sess_conf split c w'"
  proof (cases "ss_has i w")
    case True
    then have "w' = w" using spec by blast
    with assms(1) show ?thesis by (simp add: world_inv_def)
  next
    case False
    then have m: "ss_get j w' = (if j = i then Some a else ss_get j w)" for j
      using spec a by (auto simp: ss_get_def gm.get_put)
    have "sess b w' = sess b w" if "b < length (w_heap w)" for b
      using cp that False
      by (auto simp: create_pure_def ss_alloc_def ss_add_def sess_def Let_def UpdateActivity_def
          addWastedTime_def upd_def nth_append split: option.splits)
    then show ?thesis
      using m False spec a assms(1) sess_wf_get [OF wf]
      by (auto simp: sess_conf_def world_inv_def)
  qed
  moreover have "sess_wf w'" "\<not> w_locked w'" using spec assms(1) by (simp_all add: world_inv_def)
  ultimately have "world_inv split c w'" by (simp add: world_inv_def)
  moreover have "s_Host (sess a w') = fst (split i)"
    "s_Whitelisted (sess a w') = isIPWhitelisted c (fst (split i))"
    using conf a by (simp_all add: sess_conf_def)
  moreover have "a < length (w_heap w') \<and> s_ID (sess a w') = i"
    using sess_wf_get [OF \<open>sess_wf w'\<close> a(2)] .
  moreover have "create_pure split c now i w = (Some a, w')" using cp a(1) by simp
  ultimately show ?thesis using a(2) by blast
qed

lemma loot_inv_cong: "counters m' = counters m \<Longrightarrow> loot_inv (l, m') = loot_inv (l, m)"
  using loot_counted_cong [of m' m l] by (simp add: loot_inv_def)

lemma with_sess_inv:
  assumes "ossh_inv split c o1" and "world_inv split c (o_sess o1) \<Longrightarrow> world_inv split c (f (o_sess o1))"
    and "counters (w_metrics (f (o_sess o1))) = counters (w_metrics (o_sess o1))"
  shows "ossh_inv split c (with_sess f o1)"
  using assms(1,2) loot_inv_cong [OF assms(3)]
  by (simp add: ossh_inv_def with_sess_def o_metrics_def)

section \<open>What one login records\<close>

text \<open>An addition to the loot keeps the invariant and leaves the sessions and logins alone.\<close>

definition loot_op_ok :: "(loot_st \<Rightarrow> 'a \<times> loot_st) \<Rightarrow> bool" where
  "loot_op_ok f \<longleftrightarrow>
     (\<forall>s. loot_inv s \<longrightarrow> loot_inv (snd (f s))) \<and>
     (\<forall>s. l_activeSessions (snd (snd (f s))) = l_activeSessions (snd s))"

lemma loot_ops_ok:
  "loot_op_ok (AddUser u)" "loot_op_ok (AddPassword u)" "loot_op_ok (AddHost c u)"
  "loot_op_ok (AddPayload c u)"
  by (auto simp: loot_op_ok_def add_inv)
    (simp_all add: AddUser_def AddPassword_def AddHost_def AddPayload_def Let_def metrics_defs)

lemma world_metrics:
  "world_inv split c w \<Longrightarrow> l_activeSessions m = l_activeSessions (w_metrics w) \<Longrightarrow>
     world_inv split c (w\<lparr>w_metrics := m\<rparr>)"
  by (simp add: world_inv_def sess_wf_def sess_conf_def ss_get_def sess_def)

lemma with_loot_frame [simp]:
  "o_logins (snd (with_loot f o1)) = o_logins o1" "o_disk (snd (with_loot f o1)) = o_disk o1"
  "o_loot (snd (with_loot f o1)) = fst (snd (f (o_loot o1, o_metrics o1)))"
  "o_metrics (snd (with_loot f o1)) = snd (snd (f (o_loot o1, o_metrics o1)))"
  by (simp_all add: with_loot_def o_metrics_def split_def)

lemma with_loot_inv: "loot_op_ok f \<Longrightarrow> ossh_inv split c o1 \<Longrightarrow> ossh_inv split c (snd (with_loot f o1))"
proof -
  assume f: "loot_op_ok f" and o1: "ossh_inv split c o1"
  have "o_sess (snd (with_loot f o1)) =
      (o_sess o1)\<lparr>w_metrics := snd (snd (f (o_loot o1, o_metrics o1)))\<rparr>"
    by (simp add: with_loot_def split_def)
  with f o1 show ?thesis
    by (simp add: ossh_inv_def loot_op_ok_def world_metrics o_metrics_def)
qed

lemma Logins_step_metrics:
  "snd (Logins_fail h s) = IncrementFailedLogins (IncrementLogins (snd s))"
  "snd (Logins_succeed h s) = IncrementSuccessfulLogins (IncrementLogins (snd s))"
  using login_step_metrics [of "(h, False)" s] login_step_metrics [of "(h, True)" s]
  by (simp_all add: login_step_def)

lemma Logins_step_inv:
  "gm_inv (fst s) \<Longrightarrow> gm_inv (fst (Logins_fail h s))"
  "gm_inv (fst s) \<Longrightarrow> gm_inv (fst (Logins_succeed h s))"
  using login_step_inv [of s "(h, False)"] login_step_inv [of s "(h, True)"]
  by (simp_all add: login_step_def)

lemma loot_inv_login_metrics:
  "loot_inv (l, IncrementFailedLogins (IncrementLogins m)) = loot_inv (l, m)"
  "loot_inv (l, IncrementSuccessfulLogins (IncrementLogins m)) = loot_inv (l, m)"
  by (simp_all add: loot_inv_def loot_counted_def metrics_defs Let_def)

lemma with_logins_frame [simp]:
  "o_loot (with_logins f o1) = o_loot o1" "o_disk (with_logins f o1) = o_disk o1"
  "o_logins (with_logins f o1) = fst (f (o_logins o1, o_metrics o1))"
  "o_metrics (with_logins f o1) = snd (f (o_logins o1, o_metrics o1))"
  "o_sess (with_logins f o1) = (o_sess o1)\<lparr>w_metrics := snd (f (o_logins o1, o_metrics o1))\<rparr>"
  by (simp_all add: with_logins_def o_metrics_def split_def)

lemma with_logins_inv:
  assumes "ossh_inv split c o1"
  shows "ossh_inv split c (with_logins (Logins_fail h) o1)"
    and "ossh_inv split c (with_logins (Logins_succeed h) o1)"
proof -
  have a: "l_activeSessions (IncrementFailedLogins (IncrementLogins m)) = l_activeSessions m"
    "l_activeSessions (IncrementSuccessfulLogins (IncrementLogins m)) = l_activeSessions m" for m
    by (simp_all add: metrics_defs Let_def)
  show "ossh_inv split c (with_logins (Logins_fail h) o1)"
    and "ossh_inv split c (with_logins (Logins_succeed h) o1)"
    using assms
    by (simp_all add: ossh_inv_def Logins_step_inv Logins_step_metrics loot_inv_login_metrics
        world_metrics o_metrics_def a)
qed

lemma with_sess_frame [simp]:
  "o_loot (with_sess f o1) = o_loot o1" "o_logins (with_sess f o1) = o_logins o1"
  "o_disk (with_sess f o1) = o_disk o1" "o_sess (with_sess f o1) = f (o_sess o1)"
  by (simp_all add: with_sess_def)

lemma login_prepare_frame [simp]:
  "o_loot (login_prepare now a o1) = o_loot o1" "o_logins (login_prepare now a o1) = o_logins o1"
  "o_disk (login_prepare now a o1) = o_disk o1"
  by (simp_all add: login_prepare_def Let_def)

lemma login_prepare_inv: "ossh_inv split c o1 \<Longrightarrow> ossh_inv split c (login_prepare now a o1)"
  by (auto simp: login_prepare_def Let_def intro!: with_sess_inv UpdateActivity_world upd_world)

definition stored_password :: "string \<Rightarrow> string" where
  "stored_password p = (if p = [] then ''(empty)'' else p)"

lemma login_prepare_session:
  assumes "a < length (w_heap (o_sess o1))"
  shows "s_Host (o_session a (login_prepare now a o1)) = s_Host (o_session a o1)"
    and "s_User (o_session a (login_prepare now a o1)) = s_User (o_session a o1)"
    and "s_Password (o_session a (login_prepare now a o1)) =
      stored_password (s_Password (o_session a o1))"
  using assms
  by (auto simp: login_prepare_def Let_def with_sess_def sess_upd sess_UpdateActivity
      stored_password_def)

text \<open>The loot and the logins after a login of a host that is not whitelisted.\<close>

definition login_recorded ::
  "conf \<Rightarrow> bool \<Rightarrow> string \<Rightarrow> string \<Rightarrow> string \<Rightarrow> ossh \<Rightarrow> ossh \<Rightarrow> bool" where
  "login_recorded c ok user pwd host o0 o1 \<longleftrightarrow>
     (\<forall>j. HasUser j (o_loot o1) \<longleftrightarrow> HasUser j (o_loot o0) \<or> (j = TrimSpace user \<and> j \<noteq> [])) \<and>
     (\<forall>j. HasPassword j (o_loot o1) \<longleftrightarrow>
        HasPassword j (o_loot o0) \<or> (j = TrimSpace (stored_password pwd) \<and> j \<noteq> [])) \<and>
     (\<forall>j. HasHost j (o_loot o1) \<longleftrightarrow>
        HasHost j (o_loot o0) \<or> (j = TrimSpace host \<and> j \<noteq> [] \<and> \<not> isIPWhitelisted c j)) \<and>
     (\<forall>h. entry h (o_logins o1) =
        (if h \<noteq> host then entry h (o_logins o0)
         else if ok then (entry h (o_logins o0))\<lparr>success := success (entry h (o_logins o0)) + 1\<rparr>
         else (entry h (o_logins o0))\<lparr>failure := failure (entry h (o_logins o0)) + 1\<rparr>)) \<and>
     payloads (o_loot o1) = payloads (o_loot o0)"

lemma Has_frames [simp]:
  "HasUser j (fst (snd (AddPassword p s))) = HasUser j (fst s)"
  "HasUser j (fst (snd (AddHost c p s))) = HasUser j (fst s)"
  "HasPassword j (fst (snd (AddUser p s))) = HasPassword j (fst s)"
  "HasPassword j (fst (snd (AddHost c p s))) = HasPassword j (fst s)"
  "HasHost j (fst (snd (AddUser p s))) = HasHost j (fst s)"
  "HasHost j (fst (snd (AddPassword p s))) = HasHost j (fst s)"
  "payloads (fst (snd (AddUser p s))) = payloads (fst s)"
  "payloads (fst (snd (AddPassword p s))) = payloads (fst s)"
  "payloads (fst (snd (AddHost c p s))) = payloads (fst s)"
  by (simp_all add: AddUser_def AddPassword_def AddHost_def HasUser_def HasPassword_def
      HasHost_def Let_def split_def)

lemma Has_adds:
  "HasUser j (fst (snd (AddUser u s))) \<longleftrightarrow> HasUser j (fst s) \<or> (j = TrimSpace u \<and> j \<noteq> [])"
  "HasPassword j (fst (snd (AddPassword u s))) \<longleftrightarrow>
     HasPassword j (fst s) \<or> (j = TrimSpace u \<and> j \<noteq> [])"
  "HasHost j (fst (snd (AddHost c u s))) \<longleftrightarrow>
     HasHost j (fst s) \<or> (j = TrimSpace u \<and> j \<noteq> [] \<and> \<not> isIPWhitelisted c j)"
  by (auto simp: loot_defs Let_def split_def gm_has_put)

lemma loot_credentials_inv: "ossh_inv split c o1 \<Longrightarrow> ossh_inv split c (loot_credentials c s o1)"
  by (simp add: loot_credentials_def with_loot_inv loot_ops_ok)

lemma loot_credentials_recorded:
  "HasUser j (o_loot (loot_credentials c s o1)) \<longleftrightarrow>
     HasUser j (o_loot o1) \<or> (j = TrimSpace (s_User s) \<and> j \<noteq> [])"
  "HasPassword j (o_loot (loot_credentials c s o1)) \<longleftrightarrow>
     HasPassword j (o_loot o1) \<or> (j = TrimSpace (s_Password s) \<and> j \<noteq> [])"
  "HasHost j (o_loot (loot_credentials c s o1)) \<longleftrightarrow>
     HasHost j (o_loot o1) \<or> (j = TrimSpace (s_Host s) \<and> j \<noteq> [] \<and> \<not> isIPWhitelisted c j)"
  "o_logins (loot_credentials c s o1) = o_logins o1"
  "o_disk (loot_credentials c s o1) = o_disk o1"
  "payloads (o_loot (loot_credentials c s o1)) = payloads (o_loot o1)"
  by (simp_all add: loot_credentials_def Has_adds)

lemma entry_step:
  "entry h (fst (Logins_fail host s)) =
     (if h = host then (entry h (fst s))\<lparr>failure := failure (entry h (fst s)) + 1\<rparr>
      else entry h (fst s))"
  "entry h (fst (Logins_succeed host s)) =
     (if h = host then (entry h (fst s))\<lparr>success := success (entry h (fst s)) + 1\<rparr>
      else entry h (fst s))"
  using login_step_entry [of h "(host, False)" s] login_step_entry [of h "(host, True)" s]
  by (simp_all add: login_step_def)

definition addLogin :: "bool \<Rightarrow> conf \<Rightarrow> int \<Rightarrow> nat \<Rightarrow> ossh \<Rightarrow> ossh" where
  "addLogin ok c now a o1 = (if ok then addLoginSuccess c now a o1 else addLoginFailure c now a o1)"

lemma addLogin_spec:
  assumes "ossh_inv split c o1" and "a < length (w_heap (o_sess o1))"
    and "s_Host (o_session a o1) = host" "s_User (o_session a o1) = user"
    "s_Password (o_session a o1) = pwd"
  shows "ossh_inv split c (addLogin ok c now a o1) \<and>
    o_disk (addLogin ok c now a o1) = o_disk o1 \<and>
    (if isIPWhitelisted c host
     then o_loot (addLogin ok c now a o1) = o_loot o1 \<and>
       o_logins (addLogin ok c now a o1) = o_logins o1
     else login_recorded c ok user pwd host o1 (addLogin ok c now a o1))"
  using assms
  by (auto simp: addLogin_def addLoginSuccess_def addLoginFailure_def Let_def with_logins_inv
      loot_credentials_inv login_prepare_inv login_prepare_session login_recorded_def
      loot_credentials_recorded entry_step)

section \<open>The password handler\<close>

lemma o_session_of_canonical:
  assumes "ossh_inv split c o0" and "canonical split addr"
  obtains a o1 where "o_session_of split c now addr o0 = Inr (a, o1)" and "ossh_inv split c o1"
    and "o_loot o1 = o_loot o0" and "o_logins o1 = o_logins o0" and "o_disk o1 = o_disk o0"
    and "a < length (w_heap (o_sess o1))" and "s_Host (o_session a o1) = fst (split addr)"
    and "s_Whitelisted (o_session a o1) = isIPWhitelisted c (fst (split addr))"
    and "s_ID (o_session a o1) = addr"
proof -
  have w: "world_inv split c (o_sess o0)" using assms(1) by (simp add: ossh_inv_def)
  obtain a w' where cp: "create_pure split c now addr (o_sess o0) = (Some a, w')"
    and spec: "world_inv split c w'" "a < length (w_heap w')" "s_ID (sess a w') = addr"
      "s_Host (sess a w') = fst (split addr)"
      "s_Whitelisted (sess a w') = isIPWhitelisted c (fst (split addr))"
    using create_world [OF w assms(2)] by blast
  have "counters (w_metrics w') = counters (w_metrics (o_sess o0))"
    using counters_create [of split c now addr "o_sess o0"] cp by simp
  then have "ossh_inv split c (o0\<lparr>o_sess := w'\<rparr>)"
    using with_sess_inv [OF assms(1), of "\<lambda>_. w'"] spec(1) by (simp add: with_sess_def)
  moreover have "o_session_of split c now addr o0 = Inr (a, o0\<lparr>o_sess := w'\<rparr>)"
    using w cp by (simp add: o_session_of_def o_Create_def Create_eq world_inv_def deref_def)
  ultimately show thesis using that spec by simp
qed

text \<open>What it leaves alone, and what it knows from before.\<close>

lemma o_session_of_kept:
  assumes "ossh_inv split c o0" and "canonical split addr"
    and "o_session_of split c now addr o0 = Inr (a, o1)"
  shows "others_kept addr (o_sess o0) (o_sess o1)" and "ss_get addr (o_sess o1) = Some a"
    and "s_Password (o_session a o1) = known_password addr (o_sess o0)"
proof -
  have w: "sess_wf (o_sess o0)" "\<not> w_locked (o_sess o0)"
    using assms(1) by (simp_all add: ossh_inv_def world_inv_def)
  obtain r w1 where c: "create_pure split c now addr (o_sess o0) = (r, w1)" by (meson surj_pair)
  have "o_session_of split c now addr o0 = bind_res (deref r) (\<lambda>a. Inr (a, o0\<lparr>o_sess := w1\<rparr>))"
    using c w(2) by (simp add: o_session_of_def o_Create_def Create_eq)
  with assms(3) have "r = Some a" "o1 = o0\<lparr>o_sess := w1\<rparr>"
    by (cases r; simp add: deref_def)+
  with c have cp: "create_pure split c now addr (o_sess o0) = (Some a, o_sess o1)" by simp
  show "others_kept addr (o_sess o0) (o_sess o1)" by (rule create_pure_others [OF w(1) assms(2) cp])
  show "ss_get addr (o_sess o1) = Some a" using create_pure_canonical [OF w(1) assms(2) cp] by blast
  show "s_Password (o_session a o1) = known_password addr (o_sess o0)"
    by (rule create_pure_password [OF w(1) assms(2) cp])
qed

lemma SetUser_frame:
  assumes "a < length (w_heap w)"
  shows "s_Host (sess a (SetUser now u a w)) = s_Host (sess a w)"
    "s_Whitelisted (sess a (SetUser now u a w)) = s_Whitelisted (sess a w)"
    "s_User (sess a (SetUser now u a w)) = u"
    "s_Password (sess a (SetUser now u a w)) = s_Password (sess a w)"
    "length (w_heap (SetUser now u a w)) = length (w_heap w)"
    "counters (w_metrics (SetUser now u a w)) = counters (w_metrics w)"
  using assms by (auto simp: SetUser_def sess_UpdateActivity sess_upd)

lemma SetPassword_frame:
  assumes "a < length (w_heap w)"
  shows "s_Host (sess a (SetPassword now u a w)) = s_Host (sess a w)"
    "s_Whitelisted (sess a (SetPassword now u a w)) = s_Whitelisted (sess a w)"
    "s_User (sess a (SetPassword now u a w)) = s_User (sess a w)"
    "s_Password (sess a (SetPassword now u a w)) = u"
    "length (w_heap (SetPassword now u a w)) = length (w_heap w)"
    "counters (w_metrics (SetPassword now u a w)) = counters (w_metrics w)"
  using assms by (auto simp: SetPassword_def sess_UpdateActivity sess_upd)

text \<open>The decision, as a function of what is known.\<close>

definition auth_decision :: "bool \<Rightarrow> bool \<Rightarrow> bool \<Rightarrow> bool \<Rightarrow> int \<Rightarrow> int \<Rightarrow> bool" where
  "auth_decision whitelisted knownHost knownUser knownPwd u7 u3 \<longleftrightarrow>
     whitelisted \<or> (knownHost \<and> u7 mod 7 \<noteq> 0) \<or> knownUser \<noteq> knownPwd \<or>
     (\<not> knownUser \<and> \<not> knownPwd \<and> u3 mod 3 = 0)"

definition auth_allows :: "conf \<Rightarrow> loot \<Rightarrow> string \<Rightarrow> string \<Rightarrow> string \<Rightarrow> int \<Rightarrow> int \<Rightarrow> bool" where
  "auth_allows c l host user pwd u7 u3 =
     auth_decision (isIPWhitelisted c host) (HasHost host l) (HasUser user l) (HasPassword pwd l) u7 u3"

definition login_effect ::
  "conf \<Rightarrow> bool \<Rightarrow> string \<Rightarrow> string \<Rightarrow> string \<Rightarrow> ossh \<Rightarrow> ossh \<Rightarrow> bool" where
  "login_effect c ok user pwd host o0 o1 \<longleftrightarrow>
     (if isIPWhitelisted c host then o_loot o1 = o_loot o0 \<and> o_logins o1 = o_logins o0
      else login_recorded c ok user pwd host o0 o1)"

lemma login_recorded_cong:
  "o_loot o0 = o_loot o0' \<Longrightarrow> o_logins o0 = o_logins o0' \<Longrightarrow>
     login_recorded c ok u p h o0 o1 = login_recorded c ok u p h o0' o1"
  by (simp add: login_recorded_def)

lemma authHandler_eq:
  fixes user pwd :: string and u7 u3 :: int
  assumes "ossh_inv split c o0" and "canonical split addr"
  defines "host \<equiv> fst (split addr)"
  defines "ok \<equiv> auth_allows c (o_loot o0) host user pwd u7 u3"
  shows "\<exists>o1. authHandler split c now u7 u3 addr user pwd o0 = Inr (ok, o1) \<and>
    ossh_inv split c o1 \<and> o_disk o1 = o_disk o0 \<and> login_effect c ok user pwd host o0 o1"
proof -
  obtain a o1 where o1: "o_session_of split c now addr o0 = Inr (a, o1)" "ossh_inv split c o1"
    "o_loot o1 = o_loot o0" "o_logins o1 = o_logins o0" "o_disk o1 = o_disk o0"
    "a < length (w_heap (o_sess o1))"
    "s_Host (o_session a o1) = host" "s_Whitelisted (o_session a o1) = isIPWhitelisted c host"
    using o_session_of_canonical [OF assms(1,2)] unfolding host_def by metis
  define o2 where "o2 = with_sess (SetPassword now pwd a) (with_sess (SetUser now user a) o1)"
  have f: "s_Host (o_session a o2) = host" "s_User (o_session a o2) = user"
    "s_Password (o_session a o2) = pwd"
    "s_Whitelisted (o_session a o2) = isIPWhitelisted c host" "a < length (w_heap (o_sess o2))"
    "o_loot o2 = o_loot o0" "o_logins o2 = o_logins o0" "o_disk o2 = o_disk o0"
    using o1 by (simp_all add: o2_def SetPassword_frame SetUser_frame)
  have inv: "ossh_inv split c o2"
    unfolding o2_def using o1
    by (intro with_sess_inv) (simp_all add: setters_world SetPassword_frame SetUser_frame)
  have "authHandler split c now u7 u3 addr user pwd o0 = Inr (ok, addLogin ok c now a o2)"
    using o1(1) f unfolding ok_def
    by (simp add: authHandler_def o2_def [symmetric] Let_def addLogin_def auth_allows_def
        auth_decision_def del: with_sess_frame)
  moreover have "login_effect c ok user pwd host o0 (addLogin ok c now a o2)"
    using addLogin_spec [OF inv f(5,1-3), of ok now] f(6,7)
      login_recorded_cong [OF f(6,7), of c ok user pwd host "addLogin ok c now a o2"]
    by (simp add: login_effect_def split: if_splits)
  ultimately show ?thesis
    using addLogin_spec [OF inv f(5,1-3), of ok now] f(8) by (intro exI conjI) auto
qed

text \<open>C1. The password handler never panics on a canonical address and decides as documented: a
  whitelisted host is let in; a returning host is let in unless the second is divisible by seven;
  otherwise a login is refused when user and password are both known, accepted when exactly one is,
  and accepted when neither is only in seconds divisible by three.\<close>

theorem authHandler_decision:
  assumes "ossh_inv split c o0" and "canonical split addr"
  shows "\<exists>o1. authHandler split c now u7 u3 addr user pwd o0 =
    Inr (auth_decision (isIPWhitelisted c (fst (split addr)))
           (HasHost (fst (split addr)) (o_loot o0)) (HasUser user (o_loot o0))
           (HasPassword pwd (o_loot o0)) u7 u3, o1) \<and> ossh_inv split c o1"
  using authHandler_eq [OF assms, of now u7 u3 user pwd] by (auto simp: auth_allows_def)

definition sample_ossh :: ossh where
  "sample_ossh =
     \<lparr>o_loot = NewLoot, o_logins = NewLogins, o_sess = NewActiveSessions metrics_zero, o_disk = []\<rparr>"

lemma sample_ossh_inv: "ossh_inv split c sample_ossh"
  using NewActiveSessions_wf empty_loot_inv
  by (simp add: ossh_inv_def world_inv_def sess_conf_def sample_ossh_def o_metrics_def
      NewActiveSessions_def ss_get_def NewLogins_def)

lemma sample_knows_nobody [simp]:
  "\<not> HasHost h (o_loot sample_ossh)" "\<not> HasUser h (o_loot sample_ossh)"
  "\<not> HasPassword h (o_loot sample_ossh)"
  by (simp_all add: sample_ossh_def NewLoot_def HasHost_def HasUser_def HasPassword_def)

lemma sample_split_host [simp]: "fst (sample_split ''6.6.6.6:22'') = ''6.6.6.6''"
  by (simp add: sample_split_def)

theorem authHandler_decision_witness:
  "\<exists>o1. authHandler sample_split sample_conf 5 1 4 ''6.6.6.6:22'' ''root'' ''pi'' sample_ossh =
     Inr (False, o1)"
  using authHandler_decision [OF sample_ossh_inv sample_canonical, of sample_conf 5 1 4 "''root''" "''pi''"]
  by (auto simp: auth_decision_def isIPWhitelisted_iff)

text \<open>C20. A login of a whitelisted host leaves the loot and the login counters untouched; any other
  login, accepted or not, adds the trimmed user, password (the text \<open>(empty)\<close> for an empty one)
  and host to the loot and nothing else (no payload either), and counts exactly one success or failure
  for that host. No file changes.\<close>

theorem authHandler_records:
  assumes "ossh_inv split c o0" and "canonical split addr"
  shows "\<exists>ok o1. authHandler split c now u7 u3 addr user pwd o0 = Inr (ok, o1) \<and>
    login_effect c ok user pwd (fst (split addr)) o0 o1 \<and> o_disk o1 = o_disk o0"
  using authHandler_eq [OF assms, of now u7 u3 user pwd] by blast

theorem authHandler_records_witness:
  "\<exists>ok o1. authHandler sample_split sample_conf 5 1 4 ''6.6.6.6:22'' ''root'' ''pi'' sample_ossh =
       Inr (ok, o1) \<and> HasUser ''root'' (o_loot o1) \<and> \<not> HasUser ''pi'' (o_loot o1)"
  using authHandler_records [OF sample_ossh_inv sample_canonical, of sample_conf 5 1 4 "''root''" "''pi''"]
  by (auto simp: login_effect_def login_recorded_def isIPWhitelisted_iff trim_examples)

text \<open>After one attempt of a host that is not whitelisted, with credentials that carry no outer white
  space, the same credentials from any other unknown host are refused whatever the dice say, while
  the first host is let in again exactly when the second is not divisible by seven.\<close>

theorem authHandler_second_attempt:
  assumes "ossh_inv split c o0" and "canonical split addr" and "canonical split addr'"
    and "\<not> isIPWhitelisted c (fst (split addr))" and "\<not> isIPWhitelisted c (fst (split addr'))"
    and "TrimSpace user = user" "user \<noteq> []" and "TrimSpace pwd = pwd" "pwd \<noteq> []"
    and "TrimSpace (fst (split addr)) = fst (split addr)"
    and "fst (split addr') \<noteq> fst (split addr) \<Longrightarrow> \<not> HasHost (fst (split addr')) (o_loot o0)"
  shows "\<exists>ok o1 o2. authHandler split c now u7 u3 addr user pwd o0 = Inr (ok, o1) \<and>
    authHandler split c now' v7 v3 addr' user pwd o1 =
      Inr (fst (split addr') = fst (split addr) \<and> v7 mod 7 \<noteq> 0, o2)"
proof -
  obtain ok o1 where o1: "authHandler split c now u7 u3 addr user pwd o0 = Inr (ok, o1)"
    "ossh_inv split c o1" "login_effect c ok user pwd (fst (split addr)) o0 o1"
    using authHandler_eq [OF assms(1,2)] by blast
  have "fst (split addr) \<noteq> []" using assms(2) by (auto simp: canonical_def)
  with o1(3) assms have "HasUser user (o_loot o1)" "HasPassword pwd (o_loot o1)"
    "HasHost (fst (split addr')) (o_loot o1) \<longleftrightarrow> fst (split addr') = fst (split addr)"
    by (auto simp: login_effect_def login_recorded_def stored_password_def)
  with authHandler_eq [OF o1(2) assms(3), of now' v7 v3 user pwd] assms(5)
  have "\<exists>o2. authHandler split c now' v7 v3 addr' user pwd o1 =
      Inr (fst (split addr') = fst (split addr) \<and> v7 mod 7 \<noteq> 0, o2)"
    by (auto simp: auth_allows_def auth_decision_def)
  with o1(1) show ?thesis by blast
qed

theorem authHandler_second_attempt_witness:
  "\<exists>ok o1 o2. authHandler sample_split sample_conf 5 1 4 ''6.6.6.6:22'' ''root'' ''pi'' sample_ossh =
      Inr (ok, o1) \<and>
    authHandler sample_split sample_conf 6 8 4 ''6.6.6.6:22'' ''root'' ''pi'' o1 = Inr (True, o2)"
  using authHandler_second_attempt [OF sample_ossh_inv sample_canonical sample_canonical, of sample_conf
      "''root''" "''pi''" 5 1 4 6 8 4]
  by (simp add: trim_examples isIPWhitelisted_iff)

text \<open>An empty password is never recognised as known, because the handler looks for the empty string
  while the loot stores the text \<open>(empty)\<close>: repeating a known user with an empty password is
  always let in.\<close>

theorem authHandler_empty_password:
  assumes "ossh_inv split c o0" and "canonical split addr" and "HasUser user (o_loot o0)"
  shows "\<exists>o1. authHandler split c now u7 u3 addr user [] o0 = Inr (True, o1)"
proof -
  have "\<not> HasPassword [] (o_loot o0)"
    using assms(1)
    by (auto simp: ossh_inv_def loot_inv_def loot_wf_def clean_keys_def HasPassword_def)
  with assms(3) authHandler_eq [OF assms(1,2), of now u7 u3 user "[]"] show ?thesis
    by (auto simp: auth_allows_def auth_decision_def)
qed

theorem authHandler_empty_password_witness:
  "\<exists>o1 ok o2. authHandler sample_split sample_conf 5 7 4 ''6.6.6.6:22'' ''root'' [] sample_ossh =
      Inr (ok, o1) \<and> HasPassword ''(empty)'' (o_loot o1) \<and>
    authHandler sample_split sample_conf 6 7 4 ''6.6.6.6:22'' ''root'' [] o1 = Inr (True, o2)"
proof -
  obtain ok o1 where o1: "authHandler sample_split sample_conf 5 7 4 ''6.6.6.6:22'' ''root'' [] sample_ossh =
      Inr (ok, o1)" "ossh_inv sample_split sample_conf o1"
    "login_effect sample_conf ok ''root'' [] ''6.6.6.6'' sample_ossh o1"
    using authHandler_eq [OF sample_ossh_inv sample_canonical, of sample_conf 5 7 4 "''root''" "[]"] by auto
  have "TrimSpace ''(empty)'' = ''(empty)''" by code_simp
  with o1(3) have "HasUser ''root'' (o_loot o1)" "HasPassword ''(empty)'' (o_loot o1)"
    by (simp_all add: login_effect_def login_recorded_def isIPWhitelisted_iff trim_examples
        stored_password_def)
  with o1(1) authHandler_empty_password [OF o1(2) sample_canonical, of "''root''" 6 7 4]
  show ?thesis by blast
qed

section \<open>The public key handler\<close>

lemma publicKeyHandler_eq:
  fixes kb user :: string and sha1 :: "string \<Rightarrow> string" and fileExists :: "fsys \<Rightarrow> string \<Rightarrow> bool"
  assumes "ossh_inv split c o0" and "canonical split addr"
  defines "host \<equiv> fst (split addr)"
  defines "fpath \<equiv> key_path sha1 c kb"
  defines "ok \<equiv> isIPWhitelisted c host \<or> \<not> fileExists (o_disk o0) fpath"
  defines "pwd \<equiv> known_password addr (o_sess o0)"
  shows "\<exists>o1. publicKeyHandler split fileExists sha1 c now addr user kb o0 = Inr (ok, o1) \<and>
    ossh_inv split c o1 \<and> login_effect c ok user pwd host o0 o1 \<and>
    o_disk o1 =
      (if isIPWhitelisted c host \<or> \<not> ok then o_disk o0
       else case os_write_file (o_disk o0) (path_comps fpath) kb of Inl e \<Rightarrow> o_disk o0 | Inr d \<Rightarrow> d)"
proof -
  obtain a o1 where o1: "o_session_of split c now addr o0 = Inr (a, o1)" "ossh_inv split c o1"
    "o_loot o1 = o_loot o0" "o_logins o1 = o_logins o0" "o_disk o1 = o_disk o0"
    "a < length (w_heap (o_sess o1))" "s_Host (o_session a o1) = host"
    using o_session_of_canonical [OF assms(1,2)] unfolding host_def by metis
  define o2 where "o2 = with_sess (SetUser now user a) o1"
  define d where "d = (if isIPWhitelisted c host \<or> \<not> ok then o_disk o0
       else case os_write_file (o_disk o0) (path_comps fpath) kb of Inl e \<Rightarrow> o_disk o0 | Inr d \<Rightarrow> d)"
  define o3 where "o3 = o2\<lparr>o_disk := d\<rparr>"
  have pw: "s_Password (o_session a o2) = pwd"
    using o_session_of_kept(3) [OF assms(1,2) o1(1)] o1(6) by (simp add: o2_def pwd_def SetUser_frame)
  have f2: "s_Host (o_session a o2) = host" "s_User (o_session a o2) = user"
    "a < length (w_heap (o_sess o2))" "o_loot o2 = o_loot o0" "o_logins o2 = o_logins o0"
    "o_disk o2 = o_disk o0"
    using o1 by (simp_all add: o2_def SetUser_frame)
  have inv: "ossh_inv split c o2"
    unfolding o2_def using o1 by (intro with_sess_inv) (simp_all add: setters_world SetUser_frame)
  have inv3: "ossh_inv split c o3" and f: "s_Host (o_session a o3) = host"
    "s_User (o_session a o3) = user" "s_Password (o_session a o3) = pwd"
    "a < length (w_heap (o_sess o3))" "o_loot o3 = o_loot o0" "o_logins o3 = o_logins o0"
    "o_disk o3 = d"
    using inv f2 pw by (simp_all add: o3_def ossh_inv_def o_metrics_def)
  have "o3 = o2" if "isIPWhitelisted c host \<or> \<not> ok"
    using that f2(6) by (simp add: o3_def d_def)
  moreover have "publicKeyHandler split fileExists sha1 c now addr user kb o0 =
      Inr (ok, addLogin ok c now a (if isIPWhitelisted c host \<or> \<not> ok then o2 else o3))"
    using o1(1) f2(1,6) unfolding o2_def
    by (cases "os_write_file (o_disk o0) (path_comps fpath) kb")
      (auto simp: publicKeyHandler_def Let_def addLogin_def d_def o3_def o2_def ok_def fpath_def
        simp del: with_sess_frame)
  ultimately have "publicKeyHandler split fileExists sha1 c now addr user kb o0 =
      Inr (ok, addLogin ok c now a o3)"
    by (auto split: if_splits)
  moreover have "login_effect c ok user pwd host o0 (addLogin ok c now a o3)"
    using addLogin_spec [OF inv3 f(4,1-3), of ok now] f(5,6)
      login_recorded_cong [OF f(5,6), of c ok user pwd host "addLogin ok c now a o3"]
    by (simp add: login_effect_def split: if_splits)
  moreover have "ossh_inv split c (addLogin ok c now a o3)" "o_disk (addLogin ok c now a o3) = d"
    using addLogin_spec [OF inv3 f(4,1-3), of ok now] f(7) by auto
  ultimately show ?thesis unfolding d_def by blast
qed

text \<open>Recording a login touches no session but the own one.\<close>

lemma addLogin_others:
  assumes "ossh_inv split c o1" and "ss_get addr (o_sess o1) = Some a"
  shows "others_kept addr (o_sess o1) (o_sess (addLogin ok c now a o1))"
proof (rule others_kept_at [OF _ assms(2)])
  show "sess_wf (o_sess o1)" using assms(1) by (simp add: ossh_inv_def world_inv_def)
  have m: "w_map (o_sess (with_logins f o2)) = w_map (o_sess o2)"
    "sess b (o_sess (with_logins f o2)) = sess b (o_sess o2)"
    "w_map (o_sess (loot_credentials c s o2)) = w_map (o_sess o2)"
    "sess b (o_sess (loot_credentials c s o2)) = sess b (o_sess o2)" for f o2 s b
    by (simp_all add: sess_def loot_credentials_def with_loot_def split_def)
  show "w_map (o_sess (addLogin ok c now a o1)) = w_map (o_sess o1)"
    by (simp add: addLogin_def addLoginSuccess_def addLoginFailure_def login_prepare_def Let_def m
        del: with_logins_frame)
  show "sess b (o_sess (addLogin ok c now a o1)) = sess b (o_sess o1)" if "b \<noteq> a" for b
    using that by (simp add: addLogin_def addLoginSuccess_def addLoginFailure_def login_prepare_def Let_def m
        sess_upd_other sess_UpdateActivity_other del: with_logins_frame)
qed

lemma SetUser_others:
  assumes "ossh_inv split c o1" and "ss_get addr (o_sess o1) = Some a"
  shows "others_kept addr (o_sess o1) (SetUser now u a (o_sess o1))"
    and "ss_get addr (SetUser now u a (o_sess o1)) = Some a"
proof -
  have "sess_wf (o_sess o1)" using assms(1) by (simp add: ossh_inv_def world_inv_def)
  then show "others_kept addr (o_sess o1) (SetUser now u a (o_sess o1))"
    by (rule others_kept_at [OF _ assms(2)])
      (simp_all add: SetUser_def sess_upd_other sess_UpdateActivity_other)
  show "ss_get addr (SetUser now u a (o_sess o1)) = Some a"
    using assms(2) by (simp add: SetUser_def ss_get_def)
qed

lemma publicKeyHandler_others:
  assumes "ossh_inv split c o0" and "canonical split addr"
    and "publicKeyHandler split fileExists sha1 c now addr user kb o0 = Inr (ok, o1)"
  shows "others_kept addr (o_sess o0) (o_sess o1)"
proof -
  obtain a o2 where o2: "o_session_of split c now addr o0 = Inr (a, o2)" "ossh_inv split c o2"
    "a < length (w_heap (o_sess o2))"
    using o_session_of_canonical [OF assms(1,2)] by metis
  note k = o_session_of_kept [OF assms(1,2) o2(1)]
  let ?o3 = "with_sess (SetUser now user a) o2"
  have inv: "ossh_inv split c ?o3"
    using o2(2,3) by (intro with_sess_inv) (simp_all add: setters_world SetUser_frame)
  then have inv4: "ossh_inv split c (?o3\<lparr>o_disk := d\<rparr>)" for d by (simp add: ossh_inv_def o_metrics_def)
  have "o1 = addLogin False c now a ?o3 \<or> o1 = addLogin True c now a ?o3 \<or>
      (\<exists>d. o1 = addLogin True c now a (?o3\<lparr>o_disk := d\<rparr>))"
    using assms(3) o2(1)
    by (auto simp: publicKeyHandler_def Let_def addLogin_def simp del: with_sess_frame split: if_splits)
  moreover have "?o3 = ?o3\<lparr>o_disk := o_disk ?o3\<rparr>" by simp
  ultimately obtain d b where "o1 = addLogin b c now a (?o3\<lparr>o_disk := d\<rparr>)" by metis
  with addLogin_others [OF inv4 [of d], where addr = addr and a = a and ok = b and now = now] SetUser_others [OF o2(2) k(2), of now user] k(1)
  show ?thesis by (auto intro: others_kept_trans)
qed

text \<open>C32. The first time a host that is not whitelisted offers a public key, the key is accepted and stored
  under its hash, byte for byte. A key of a whitelisted host is accepted and not stored, a stored key
  is never overwritten, and no other file changes. A login of a host that is not whitelisted is
  recorded, with the user and the password its session has, as a success or failure according to the
  answer; one of a whitelisted host is not. The sessions of other addresses stay as they are.\<close>

theorem publicKeyHandler_stores:
  assumes "ossh_inv split c o0" and "canonical split addr"
    and "file_exists_ok fileExists" and "writable (o_disk o0) (path_comps (key_path sha1 c kb))"
  shows "\<exists>ok o1. publicKeyHandler split fileExists sha1 c now addr user kb o0 = Inr (ok, o1) \<and>
    ossh_inv split c o1 \<and>
    (isIPWhitelisted c (fst (split addr)) \<or> \<not> fileExists (o_disk o0) (key_path sha1 c kb) \<longrightarrow> ok) \<and>
    login_effect c ok user (known_password addr (o_sess o0)) (fst (split addr)) o0 o1 \<and>
    os_read_file (o_disk o1) (path_comps (key_path sha1 c kb)) =
      (if isIPWhitelisted c (fst (split addr)) \<or> fileExists (o_disk o0) (key_path sha1 c kb)
       then os_read_file (o_disk o0) (path_comps (key_path sha1 c kb)) else Inr kb) \<and>
    (\<forall>q. q \<noteq> path_comps (key_path sha1 c kb) \<longrightarrow> fs_get (o_disk o1) q = fs_get (o_disk o0) q) \<and>
    others_kept addr (o_sess o0) (o_sess o1)"
proof -
  let ?p = "path_comps (key_path sha1 c kb)"
  obtain d where d: "os_write_file (o_disk o0) ?p kb = Inr d"
    using assms(4) os_write_file_iff by blast
  obtain ok o1 where o1: "publicKeyHandler split fileExists sha1 c now addr user kb o0 = Inr (ok, o1)"
    "ok \<longleftrightarrow> isIPWhitelisted c (fst (split addr)) \<or> \<not> fileExists (o_disk o0) (key_path sha1 c kb)"
    "ossh_inv split c o1"
    "login_effect c ok user (known_password addr (o_sess o0)) (fst (split addr)) o0 o1"
    "o_disk o1 = (if isIPWhitelisted c (fst (split addr)) \<or> \<not> ok then o_disk o0 else d)"
    using publicKeyHandler_eq [OF assms(1,2), of fileExists sha1 now user kb] d by auto
  have "others_kept addr (o_sess o0) (o_sess o1)"
    by (rule publicKeyHandler_others [OF assms(1,2) o1(1)])
  with o1 os_write_then_read(1) [OF d] os_write_file_get [OF d] show ?thesis by auto
qed

definition sample_disk :: fsys where
  "sample_disk =
     [([''etc''], DirN), ([''etc'', ''ossh''], DirN), ([''etc'', ''ossh'', ''captures''], DirN),
      ([''etc'', ''ossh'', ''captures'', ''ssh-keys''], DirN),
      ([''etc'', ''ossh'', ''captures'', ''payloads''], DirN)]"

theorem publicKeyHandler_stores_witness:
  "\<exists>ok o1. publicKeyHandler sample_split sample_file_exists (\<lambda>_. ''ab'') sample_conf 5
      ''6.6.6.6:22'' ''root'' ''key'' (sample_ossh\<lparr>o_disk := sample_disk\<rparr>) = Inr (ok, o1) \<and> ok \<and>
    os_read_file (o_disk o1) [''etc'', ''ossh'', ''captures'', ''ssh-keys'', ''ab.pub''] = Inr ''key'' \<and>
    HasUser ''root'' (o_loot o1)"
proof -
  have inv: "ossh_inv sample_split sample_conf (sample_ossh\<lparr>o_disk := sample_disk\<rparr>)"
    using sample_ossh_inv [of sample_split sample_conf] by (simp add: ossh_inv_def o_metrics_def)
  have "key_path (\<lambda>_. ''ab'') sample_conf ''key'' = ''/etc/ossh/captures/ssh-keys/ab.pub''"
    by (simp add: key_path_def sample_conf_def)
  moreover have "path_comps ''/etc/ossh/captures/ssh-keys/ab.pub'' =
      [''etc'', ''ossh'', ''captures'', ''ssh-keys'', ''ab.pub'']"
    by code_simp
  ultimately have p: "path_comps (key_path (\<lambda>_. ''ab'') sample_conf ''key'') =
      [''etc'', ''ossh'', ''captures'', ''ssh-keys'', ''ab.pub'']" by simp
  have w: "writable sample_disk [''etc'', ''ossh'', ''captures'', ''ssh-keys'', ''ab.pub'']"
    unfolding writable_def sample_disk_def by code_simp
  have n: "\<not> sample_file_exists sample_disk (key_path (\<lambda>_. ''ab'') sample_conf ''key'')"
    unfolding sample_file_exists_def p sample_disk_def by code_simp
  show ?thesis
    using publicKeyHandler_stores [OF inv sample_canonical sample_file_exists_ok,
        of "\<lambda>_. ''ab''" "''key''" 5 "''root''"] p w n
    by (auto simp: isIPWhitelisted_iff login_effect_def login_recorded_def trim_examples)
qed

section \<open>The other callbacks and the clean-up worker\<close>

lemma o_Remove_eq:
  assumes "ossh_inv split c o1"
  shows "o_Remove now i o1 = Inr (with_sess (remove_pure now i) o1) \<and>
    ossh_inv split c (with_sess (remove_pure now i) o1)"
proof
  show "o_Remove now i o1 = Inr (with_sess (remove_pure now i) o1)"
    using assms
    by (simp add: o_Remove_def Remove_eq ossh_inv_def world_inv_def sess_wf_def with_sess_def)
  show "ossh_inv split c (with_sess (remove_pure now i) o1)"
    using assms by (rule with_sess_inv) (simp_all add: remove_world)
qed

text \<open>C33. Port forwarding is always denied, and the session of the asking address is gone afterwards; no
  session of another address (neither its entry nor its object), no loot, no login counter and no
  file changes. The same holds for a failed connection, unless its error is \<open>EOF\<close>, which leaves the
  session (created if need be) in place.\<close>

theorem denied_connections_leave_nothing:
  assumes "ossh_inv split c o0" and "canonical split addr"
  shows "\<exists>o1 o2. portForwardingCallback split c now addr o0 = Inr (False, o1) \<and>
    connectionFailedCallback split c now addr e o0 = Inr o2 \<and>
    (\<forall>o' \<in> {o1, o2}. ossh_inv split c o' \<and> o_loot o' = o_loot o0 \<and>
       o_logins o' = o_logins o0 \<and> o_disk o' = o_disk o0 \<and>
       others_kept addr (o_sess o0) (o_sess o')) \<and>
    \<not> ss_has addr (o_sess o1) \<and> (ss_has addr (o_sess o2) \<longleftrightarrow> e = ''EOF'')"
proof -
  obtain a o1 where o1: "o_session_of split c now addr o0 = Inr (a, o1)" "ossh_inv split c o1"
    "o_loot o1 = o_loot o0" "o_logins o1 = o_logins o0" "o_disk o1 = o_disk o0"
    "s_ID (o_session a o1) = addr"
    using o_session_of_canonical [OF assms, of now] by metis
  have cr: "o_Create split c now addr o0 = Inr (Some a, o1)"
    using o1(1) by (auto simp: o_session_of_def bind_res_Inr_iff deref_def split: option.splits)
  have w: "world_inv split c (o_sess o0)" using assms(1) by (simp add: ossh_inv_def)
  then have has: "ss_has addr (o_sess o1)"
    using create_world [OF w assms(2), of now] cr
    by (auto simp: o_Create_def Create_eq world_inv_def ss_has_get)
  have inv: "gm_inv (w_map (o_sess o1))"
    using o1(2) by (simp add: ossh_inv_def world_inv_def sess_wf_def)
  note k = o_session_of_kept(1) [OF assms o1(1)]
  let ?o2 = "with_sess (remove_pure now addr) o1"
  note rem = o_Remove_eq [OF o1(2), of now addr]
  have n: "\<not> ss_has addr (o_sess ?o2)" using inv by (simp add: ss_has_get remove_pure_get)
  have "portForwardingCallback split c now addr o0 = Inr (False, ?o2)"
    using o1(1,6) rem by (simp add: portForwardingCallback_def)
  moreover have "connectionFailedCallback split c now addr e o0 = Inr (if e = ''EOF'' then o1 else ?o2)"
    using cr o1(6) rem by (simp add: connectionFailedCallback_def deref_def)
  moreover have "\<forall>o' \<in> {?o2, if e = ''EOF'' then o1 else ?o2}. ossh_inv split c o' \<and>
      o_loot o' = o_loot o0 \<and> o_logins o' = o_logins o0 \<and> o_disk o' = o_disk o0 \<and>
      others_kept addr (o_sess o0) (o_sess o')"
    using o1(2-5) rem k others_kept_trans [OF k remove_pure_others] o1(2)
    by (simp add: ossh_inv_def world_inv_def)
  moreover have "ss_has addr (o_sess (if e = ''EOF'' then o1 else ?o2)) \<longleftrightarrow> e = ''EOF''"
    using n has by simp
  ultimately show ?thesis using n by blast
qed

theorem denied_connections_leave_nothing_witness:
  "\<exists>o1. portForwardingCallback sample_split sample_conf 5 ''6.6.6.6:22'' sample_ossh = Inr (False, o1) \<and>
    \<not> ss_has ''6.6.6.6:22'' (o_sess o1)"
  using denied_connections_leave_nothing [OF sample_ossh_inv sample_canonical, of sample_conf 5] by blast

definition o_cleanUp :: "conf \<Rightarrow> int \<Rightarrow> string list \<Rightarrow> ossh \<Rightarrow> go_panic + ossh" where
  "o_cleanUp c now ks o1 =
     bind_res (cleanUp now (c_MaxSessionAge c) ks (o_sess o1)) (\<lambda>w. Inr (o1\<lparr>o_sess := w\<rparr>))"

lemma expire_counters:
  "expire now age a w = Inr (b, w') \<Longrightarrow> w_metrics w' = w_metrics w"
  by (auto simp: expire_def Let_def split: if_splits)

lemma cleanUp_loop_counters:
  assumes "cleanUp_loop now age ks w = Inr w'" and "sess_wf w" and "w_locked w"
  shows "counters (w_metrics w') = counters (w_metrics w)"
  using assms
proof (induction ks arbitrary: w)
  case Nil
  then show ?case by simp
next
  case (Cons i ks)
  show ?case
  proof (cases "ss_get i w")
    case None
    with Cons show ?thesis by simp
  next
    case (Some a)
    with Cons.prems obtain b w1 where e: "expire now age a w = Inr (b, w1)"
      by (auto simp: bind_res_Inr_iff)
    then have nd: "\<not> doomed now age (sess a w)" using expire_doomed by fastforce
    have w1: "sess_wf w1" "w_locked w1"
      using expire_cases [OF nd] e Cons.prems(2,3) by (metis Inr_inject prod.inject)+
    have m1: "w_metrics w1 = w_metrics w" by (rule expire_counters [OF e])
    show ?thesis
    proof (cases b)
      case False
      with Cons.IH [of w1] Cons.prems(1) Some e w1 m1 show ?thesis by simp
    next
      case True
      let ?w2 = "(remove_pure now i (w1\<lparr>w_locked := False\<rparr>))\<lparr>w_locked := True\<rparr>"
      have "cleanUp_loop now age ks ?w2 = Inr w'"
        using Cons.prems(1) Some e True w1
        by (simp add: ss_Unlock_def ss_Lock_def Remove_eq sess_wf_def)
      from Cons.IH [OF this] w1 m1 show ?thesis by (simp add: remove_pure_wf)
    qed
  qed
qed

lemma o_cleanUp_inv:
  assumes "ossh_inv split c o1" and "600 \<le> c_MaxSessionAge c" and "map_order (w_map (o_sess o1)) ks"
  shows "\<exists>o2. o_cleanUp c now ks o1 = Inr o2 \<and> ossh_inv split c o2 \<and>
    o_loot o2 = o_loot o1 \<and> o_logins o2 = o_logins o1 \<and> o_disk o2 = o_disk o1"
proof -
  let ?w = "(o_sess o1)\<lparr>w_locked := True\<rparr>"
  have w: "sess_wf (o_sess o1)" "\<not> w_locked (o_sess o1)" "gm_inv (w_map (o_sess o1))"
    "sess_conf split c (o_sess o1)"
    using assms(1) by (simp_all add: ossh_inv_def world_inv_def sess_wf_def)
  have "\<not> doomed now (c_MaxSessionAge c) s" for s
    using assms(2) by (simp add: doomed_def second_def)
  then have "\<not> key_sat (doomed now (c_MaxSessionAge c)) i v" for i v
    by (simp add: key_sat_def split: option.split)
  then obtain w' where w': "cleanUp_loop now (c_MaxSessionAge c) ks ?w = Inr w'"
    "sess_wf w'" "w_locked w'"
    and get: "\<And>j. ss_get j w' = (if j \<in> set ks \<and> key_sat (expired now (c_MaxSessionAge c)) j ?w
       then None else ss_get j ?w)"
    and same: "\<And>j a. ss_get j w' = Some a \<Longrightarrow> sess a w' = sess a ?w"
    using cleanUp_loop_spec [of ?w ks now "c_MaxSessionAge c", OF _ _ map_order_distinct [OF w(3) assms(3)]]
      w(1) by auto
  let ?o2 = "o1\<lparr>o_sess := w'\<lparr>w_locked := False\<rparr>\<rparr>"
  have "sess_conf split c (w'\<lparr>w_locked := False\<rparr>)"
    using w(4) get same by (auto simp: sess_conf_def split: if_splits)
  moreover have "counters (w_metrics w') = counters (w_metrics (o_sess o1))"
    using cleanUp_loop_counters [OF w'(1)] w(1) by simp
  ultimately have "ossh_inv split c ?o2"
    using with_sess_inv [OF assms(1), of "\<lambda>_. w'\<lparr>w_locked := False\<rparr>"] w'(2)
    by (simp add: with_sess_def world_inv_def)
  moreover have "o_cleanUp c now ks o1 = Inr ?o2"
    using w(2) w'(1,3) by (simp add: o_cleanUp_def cleanUp_def ss_Lock_def ss_Unlock_def)
  ultimately show ?thesis by simp
qed

section \<open>Runs of the server\<close>

text \<open>The callbacks and the clean-up pass as events. \<open>ord\<close> chooses the order in which the clean-up pass
  visits the map.\<close>

datatype srv_event =
    EvPassword int int int string string string
  | EvKey int string string string
  | EvForward int string
  | EvPty int int string string
  | EvRequest int int string string
  | EvConnect int int string
  | EvFailed int string string
  | EvCleanUp int

fun ev_addr :: "srv_event \<Rightarrow> string option" where
  "ev_addr (EvPassword now u7 u3 addr user pwd) = Some addr"
| "ev_addr (EvKey now addr user kb) = Some addr"
| "ev_addr (EvForward now addr) = Some addr"
| "ev_addr (EvPty now later addr term) = Some addr"
| "ev_addr (EvRequest now later addr ty) = Some addr"
| "ev_addr (EvConnect now later addr) = Some addr"
| "ev_addr (EvFailed now addr e) = Some addr"
| "ev_addr (EvCleanUp now) = None"

fun srv_step ::
  "(string \<Rightarrow> string \<times> int) \<Rightarrow> (fsys \<Rightarrow> string \<Rightarrow> bool) \<Rightarrow> (string \<Rightarrow> string) \<Rightarrow>
   ((string, nat) gomap \<Rightarrow> string list) \<Rightarrow> conf \<Rightarrow> srv_event \<Rightarrow> ossh \<Rightarrow> go_panic + ossh" where
  "srv_step split fe sha1 ord c (EvPassword now u7 u3 addr user pwd) o0 =
     bind_res (authHandler split c now u7 u3 addr user pwd o0) (\<lambda>(_, o1). Inr o1)"
| "srv_step split fe sha1 ord c (EvKey now addr user kb) o0 =
     bind_res (publicKeyHandler split fe sha1 c now addr user kb o0) (\<lambda>(_, o1). Inr o1)"
| "srv_step split fe sha1 ord c (EvForward now addr) o0 =
     bind_res (portForwardingCallback split c now addr o0) (\<lambda>(_, o1). Inr o1)"
| "srv_step split fe sha1 ord c (EvPty now later addr term) o0 =
     bind_res (ptyCallback split c now later addr term o0) (\<lambda>(_, o1). Inr o1)"
| "srv_step split fe sha1 ord c (EvRequest now later addr ty) o0 =
     bind_res (sessionRequestCallback split c now later addr ty o0) (\<lambda>(_, o1). Inr o1)"
| "srv_step split fe sha1 ord c (EvConnect now later addr) o0 =
     connectionCallback split c now later addr o0"
| "srv_step split fe sha1 ord c (EvFailed now addr e) o0 =
     connectionFailedCallback split c now addr e o0"
| "srv_step split fe sha1 ord c (EvCleanUp now) o0 =
     o_cleanUp c now (ord (w_map (o_sess o0))) o0"

fun srv_run ::
  "(string \<Rightarrow> string \<times> int) \<Rightarrow> (fsys \<Rightarrow> string \<Rightarrow> bool) \<Rightarrow> (string \<Rightarrow> string) \<Rightarrow>
   ((string, nat) gomap \<Rightarrow> string list) \<Rightarrow> conf \<Rightarrow> srv_event list \<Rightarrow> ossh \<Rightarrow> go_panic + ossh" where
  "srv_run split fe sha1 ord c [] o0 = Inr o0"
| "srv_run split fe sha1 ord c (e # es) o0 =
     bind_res (srv_step split fe sha1 ord c e o0) (srv_run split fe sha1 ord c es)"

lemma SetTerm_frame [simp]:
  "counters (w_metrics (SetTerm now t a w)) = counters (w_metrics w)"
  "counters (w_metrics (SetType now t a w)) = counters (w_metrics w)"
  "counters (w_metrics (SetShell now a w)) = counters (w_metrics w)"
  "counters (w_metrics (SetSSHSession now a w)) = counters (w_metrics w)"
  "counters (w_metrics (RandomSleep now a w)) = counters (w_metrics w)"
  by (simp_all add: setter_defs)

lemma o_session_of_ok:
  assumes "ossh_inv split c o0" and "canonical split addr"
  shows "\<exists>a o1. o_session_of split c now addr o0 = Inr (a, o1) \<and>
    o_Create split c now addr o0 = Inr (Some a, o1) \<and> ossh_inv split c o1"
proof -
  obtain a o1 where o1: "o_session_of split c now addr o0 = Inr (a, o1)" "ossh_inv split c o1"
    using o_session_of_canonical [OF assms, of now] by metis
  then have "o_Create split c now addr o0 = Inr (Some a, o1)"
    by (auto simp: o_session_of_def bind_res_Inr_iff deref_def split: option.splits)
  with o1 show ?thesis by blast
qed

lemma srv_step_inv:
  assumes "ossh_inv split c o0" and "\<forall>addr. ev_addr e = Some addr \<longrightarrow> canonical split addr"
    and "600 \<le> c_MaxSessionAge c" and "\<And>m. map_order m (ord m)"
  shows "\<exists>o1. srv_step split fe sha1 ord c e o0 = Inr o1 \<and> ossh_inv split c o1"
proof (cases e)
  case (EvPassword now u7 u3 addr user pwd)
  with authHandler_eq [OF assms(1), of addr now u7 u3 user pwd] assms(2) show ?thesis by fastforce
next
  case (EvKey now addr user kb)
  with publicKeyHandler_eq [OF assms(1), of addr fe sha1 now user kb] assms(2) show ?thesis by fastforce
next
  case (EvForward now addr)
  with assms(2) obtain a o1 where o1: "o_session_of split c now addr o0 = Inr (a, o1)"
    "o_Create split c now addr o0 = Inr (Some a, o1)" "ossh_inv split c o1"
    using o_session_of_ok [OF assms(1), of addr now] by auto
  with EvForward o_Remove_eq [OF o1(3)] show ?thesis by (simp add: portForwardingCallback_def)
next
  case (EvPty now later addr tm)
  with assms(2) obtain a o1 where o1: "o_session_of split c now addr o0 = Inr (a, o1)"
    "o_Create split c now addr o0 = Inr (Some a, o1)" "ossh_inv split c o1"
    using o_session_of_ok [OF assms(1), of addr now] by auto
  with EvPty show ?thesis
    by (auto simp: ptyCallback_def intro!: with_sess_inv setters_world)
next
  case (EvRequest now later addr ty)
  with assms(2) obtain a o1 where o1: "o_session_of split c now addr o0 = Inr (a, o1)"
    "o_Create split c now addr o0 = Inr (Some a, o1)" "ossh_inv split c o1"
    using o_session_of_ok [OF assms(1), of addr now] by auto
  with EvRequest show ?thesis
    by (auto simp: sessionRequestCallback_def intro!: with_sess_inv setters_world)
next
  case (EvConnect now later addr)
  with assms(2) obtain a o1 where o1: "o_session_of split c now addr o0 = Inr (a, o1)"
    "o_Create split c now addr o0 = Inr (Some a, o1)" "ossh_inv split c o1"
    using o_session_of_ok [OF assms(1), of addr now] by auto
  with EvConnect o1 show ?thesis
    by (auto simp: connectionCallback_def intro!: with_sess_inv setters_world)
next
  case (EvFailed now addr err)
  with assms(2) obtain a o1 where o1: "o_session_of split c now addr o0 = Inr (a, o1)"
    "o_Create split c now addr o0 = Inr (Some a, o1)" "ossh_inv split c o1"
    using o_session_of_ok [OF assms(1), of addr now] by auto
  with EvFailed o1 o_Remove_eq [OF o1(3)] show ?thesis
    by (simp add: connectionFailedCallback_def deref_def)
next
  case (EvCleanUp now)
  with o_cleanUp_inv [OF assms(1,3) assms(4)] show ?thesis by auto
qed

lemma srv_run_inv:
  assumes "ossh_inv split c o0" and "\<forall>e \<in> set es. \<forall>addr. ev_addr e = Some addr \<longrightarrow> canonical split addr"
    and "600 \<le> c_MaxSessionAge c" and "\<And>m. map_order m (ord m)"
  shows "\<exists>o1. srv_run split fe sha1 ord c es o0 = Inr o1 \<and> ossh_inv split c o1"
  using assms(1,2)
proof (induction es arbitrary: o0)
  case Nil
  then show ?case by simp
next
  case (Cons e es)
  then obtain o1 where "srv_step split fe sha1 ord c e o0 = Inr o1" "ossh_inv split c o1"
    using srv_step_inv [OF Cons.prems(1) _ assms(3,4), of e fe sha1] by auto
  with Cons show ?case by simp
qed

lemma loadDataFile_inv:
  assumes "loot_inv s" and "\<And>fp s. loot_inv s \<Longrightarrow> loot_inv (snd (fnAdd fp s))"
  shows "loot_inv (loadDataFile fe d path fnAdd s)"
proof -
  have "loot_inv (fold (\<lambda>fp s. snd (fnAdd fp s)) fps s)" for fps
    using assms by (induction fps arbitrary: s) simp_all
  with assms(1) show ?thesis by (simp add: loadDataFile_def split: sum.split)
qed

lemma loadData_inv: "loot_inv s \<Longrightarrow> loot_inv (loadData fe c d s)"
  by (simp add: loadData_def Let_def loadDataFile_inv add_inv)

lemma loot_adds_sessions:
  "l_activeSessions (snd (fold (\<lambda>fp s. snd (f fp s)) fps s)) = l_activeSessions (snd s)"
  if "\<And>u. loot_op_ok (f u)"
proof -
  have "l_activeSessions (snd (snd (f u s))) = l_activeSessions (snd s)" for u s
    using that unfolding loot_op_ok_def by blast
  then show ?thesis by (induction fps arbitrary: s) simp_all
qed

lemma loadData_sessions: "l_activeSessions (snd (loadData fe c d s)) = l_activeSessions (snd s)"
  by (simp add: loadData_def Let_def loadDataFile_def loot_adds_sessions loot_ops_ok
      split: sum.split)

lemma NewOSSHServer_inv:
  "ossh_inv split c' (NewOSSHServer fe c (NewMetricsServer name ips) d)"
proof -
  let ?s = "loadData fe c d (NewLoot, NewMetricsServer name ips)"
  have "loot_inv ?s" by (intro loadData_inv NewLoot_inv)
  moreover have "l_activeSessions (snd ?s) = 0"
    by (simp add: loadData_sessions NewMetricsServer_def metrics_zero_def metrics_defs)
  ultimately show ?thesis
    by (simp add: ossh_inv_def NewOSSHServer_def split_def world_inv_def sess_wf_def
        sess_conf_def NewActiveSessions_def ss_get_def o_metrics_def NewLogins_def Let_def)
qed

text \<open>C2. From start-up, whatever the data files hold, any sequence of connection callbacks on canonical
  addresses and clean-up passes runs without panic or deadlock when the maximum session age is at
  least ten minutes, and keeps the server invariant: the session map is keyed by session ID, the
  active-sessions gauge counts it, the mutex is free, every session knows its host and whether it
  is whitelisted, and the loot is well-formed and counted by the metrics server.\<close>

theorem server_invariant:
  assumes "\<forall>e \<in> set es. \<forall>addr. ev_addr e = Some addr \<longrightarrow> canonical split addr"
    and "600 \<le> c_MaxSessionAge c" and "\<And>m. map_order m (ord m)"
  shows "\<exists>o1. srv_run split fe sha1 ord c es (NewOSSHServer fe c (NewMetricsServer name ips) d) =
    Inr o1 \<and> ossh_inv split c o1"
  by (rule srv_run_inv [OF NewOSSHServer_inv assms])

theorem server_invariant_witness:
  "\<exists>o1. srv_run sample_split sample_file_exists (\<lambda>k. k) gm_keys sample_conf
      [EvConnect 1 2 ''6.6.6.6:22'', EvPassword 3 7 3 ''6.6.6.6:22'' ''root'' ''pi'',
       EvCleanUp (4000 * second)]
      (NewOSSHServer sample_file_exists sample_conf (NewMetricsServer ''pot'' []) sample_disk) = Inr o1 \<and>
    ossh_inv sample_split sample_conf o1"
  using server_invariant [of "[EvConnect 1 2 ''6.6.6.6:22'', EvPassword 3 7 3 ''6.6.6.6:22'' ''root'' ''pi'',
       EvCleanUp (4000 * second)]" sample_split sample_conf gm_keys sample_file_exists "\<lambda>k. k" "''pot''" "[]"
      sample_disk, OF _ _ map_order_keys]
  by (simp add: sample_canonical sample_conf_def)

section \<open>Saving and loading the data files\<close>

lemma Split_data: "\<forall>x \<in> set xs. newline \<notin> set x \<Longrightarrow>
    set (Split newline (Join [newline] xs @ [newline])) = insert [] (set xs)"
proof -
  assume x: "\<forall>x \<in> set xs. newline \<notin> set x"
  have "Join [newline] xs @ [newline] = Join [newline] (xs @ [[]])" if "xs \<noteq> []"
    using that by (induction xs rule: Join.induct [of _ "[newline]"]) auto
  with x show ?thesis
    using Split_Join [of "xs @ [[]]" newline] by (cases "xs = []") (auto simp: Split_Join)
qed

text \<open>A file that was saved and is read back adds its lines.\<close>

definition data_ok :: "(string, 'v) gomap \<Rightarrow> bool" where
  "data_ok m \<longleftrightarrow> (\<forall>k. gm_has k m \<longrightarrow> newline \<notin> set k)"

lemma saved_file:
  assumes "writable d (path_comps path)" and "\<forall>x \<in> set ks. newline \<notin> set x"
  obtains s where "os_write_file d (path_comps path) s = Inr (saveDataFile path ks d)"
    and "os_read_file (saveDataFile path ks d) (path_comps path) = Inr s"
    and "set (Split newline s) = insert [] (set ks)"
proof -
  let ?s = "Join [newline] ks @ [newline]"
  have w: "os_write_file d (path_comps path) ?s = Inr (saveDataFile path ks d)"
    using assms(1) os_write_file_iff [of d "path_comps path" ?s] by (auto simp: saveDataFile_def)
  then show thesis
    using that [OF w os_write_then_read(1) [OF w] Split_data [OF assms(2)]] by blast
qed

lemma loadDataFile_eq:
  assumes "file_exists_ok fe" and "os_read_file d (path_comps path) = Inr s"
  shows "loadDataFile fe d path add st = fold (\<lambda>fp s. snd (add fp s)) (Split newline s) st"
proof -
  have "fe d path"
    using assms by (auto simp: file_exists_ok_def os_is_file_def os_read_file_def
        split: sum.splits node.splits)
  with assms(2) show ?thesis by (simp add: loadDataFile_def)
qed

lemma loadDataFile_frame:
  assumes "\<And>fp s. P (snd (add fp s)) = P s"
  shows "P (loadDataFile fe d path add s) = P s"
proof -
  have "P (fold (\<lambda>fp s. snd (add fp s)) fps s) = P s" for fps
    using assms by (induction fps arbitrary: s) simp_all
  then show ?thesis by (simp add: loadDataFile_def split: sum.split)
qed

lemma HasPayload_frames [simp]:
  "HasPayload j (fst (snd (AddUser p s))) = HasPayload j (fst s)"
  "HasPayload j (fst (snd (AddPassword p s))) = HasPayload j (fst s)"
  "HasPayload j (fst (snd (AddHost c p s))) = HasPayload j (fst s)"
  "HasUser j (fst (snd (AddPayload c p s))) = HasUser j (fst s)"
  "HasPassword j (fst (snd (AddPayload c p s))) = HasPassword j (fst s)"
  "HasHost j (fst (snd (AddPayload c p s))) = HasHost j (fst s)"
  by (simp_all add: AddUser_def AddPassword_def AddHost_def AddPayload_def HasUser_def
      HasPassword_def HasHost_def HasPayload_def Let_def split_def)

lemma loadData_frames:
  "HasUser j (fst (loadDataFile fe d path AddPassword s)) = HasUser j (fst s)"
  "HasUser j (fst (loadDataFile fe d path (AddHost c) s)) = HasUser j (fst s)"
  "HasUser j (fst (loadDataFile fe d path (AddPayload c) s)) = HasUser j (fst s)"
  "HasPassword j (fst (loadDataFile fe d path AddUser s)) = HasPassword j (fst s)"
  "HasPassword j (fst (loadDataFile fe d path (AddHost c) s)) = HasPassword j (fst s)"
  "HasPassword j (fst (loadDataFile fe d path (AddPayload c) s)) = HasPassword j (fst s)"
  "HasHost j (fst (loadDataFile fe d path AddPassword s)) = HasHost j (fst s)"
  "HasHost j (fst (loadDataFile fe d path AddUser s)) = HasHost j (fst s)"
  "HasHost j (fst (loadDataFile fe d path (AddPayload c) s)) = HasHost j (fst s)"
  "HasPayload j (fst (loadDataFile fe d path AddPassword s)) = HasPayload j (fst s)"
  "HasPayload j (fst (loadDataFile fe d path AddUser s)) = HasPayload j (fst s)"
  "HasPayload j (fst (loadDataFile fe d path (AddHost c) s)) = HasPayload j (fst s)"
  by (rule loadDataFile_frame, simp)+

lemma loadData_has:
  assumes "file_exists_ok fe" and "os_read_file d (path_comps path) = Inr s"
    and "set (Split newline s) = insert [] S" and "\<forall>k \<in> S. k \<noteq> [] \<and> TrimSpace k = k"
    and "loot_inv st"
  shows "HasUser j (fst (loadDataFile fe d path AddUser st)) \<longleftrightarrow> HasUser j (fst st) \<or> j \<in> S"
    and "HasPassword j (fst (loadDataFile fe d path AddPassword st)) \<longleftrightarrow> HasPassword j (fst st) \<or> j \<in> S"
    and "HasHost j (fst (loadDataFile fe d path (AddHost c) st)) \<longleftrightarrow>
      HasHost j (fst st) \<or> (j \<in> S \<and> \<not> isIPWhitelisted c j)"
    and "HasPayload j (fst (loadDataFile fe d path (AddPayload c) st)) \<longleftrightarrow>
      HasPayload j (fst st) \<or> j \<in> S"
  using assms(3,4)
  unfolding loadDataFile_eq [OF assms(1,2)] ru.has_adds [OF assms(5)] rp.has_adds [OF assms(5)]
    rh.has_adds [OF assms(5)] rl.has_adds [OF assms(5)]
  by fastforce+

definition data_paths :: "conf \<Rightarrow> string list list" where
  "data_paths c =
     [path_comps (c_PathHosts c), path_comps (c_PathUsers c), path_comps (c_PathPasswords c),
      path_comps (c_PathPayloads c)]"

text \<open>The four data files are four different writable files, none of them a capture file of a known
  payload.\<close>

definition data_files_ok :: "conf \<Rightarrow> loot \<Rightarrow> fsys \<Rightarrow> bool" where
  "data_files_ok c l d \<longleftrightarrow>
     distinct (data_paths c) \<and> (\<forall>p \<in> set (data_paths c). writable d p) \<and>
     (\<forall>k. HasPayload k l \<longrightarrow> path_comps (payload_path c k) \<notin> set (data_paths c))"

definition loot_lines_ok :: "loot \<Rightarrow> bool" where
  "loot_lines_ok l \<longleftrightarrow>
     data_ok (users l) \<and> data_ok (passwords l) \<and> data_ok (hosts l) \<and> data_ok (payloads l)"

lemma set_order_clean:
  assumes "map_order m ks" and "data_ok m" and "clean_keys m"
  shows "\<forall>x \<in> set ks. newline \<notin> set x" and "\<forall>k \<in> set ks. k \<noteq> [] \<and> TrimSpace k = k"
  using assms map_order_set [OF assms(1)] by (auto simp: data_ok_def clean_keys_def)

text \<open>What the four files hold after \<^verbatim>\<open>SaveData\<close>.\<close>

lemma SaveData_files:
  assumes "data_files_ok c l d" and "loot_lines_ok l" and "loot_wf l" and "file_exists_ok fe"
    and "map_order (hosts l) hs" "map_order (users l) us" "map_order (passwords l) ps"
      "map_order (payloads l) ls"
  obtains sh su sp sl where
    "os_read_file (SaveData fe c hs us ps ls d) (path_comps (c_PathHosts c)) = Inr sh"
    "set (Split newline sh) = insert [] (set hs)"
    "os_read_file (SaveData fe c hs us ps ls d) (path_comps (c_PathUsers c)) = Inr su"
    "set (Split newline su) = insert [] (set us)"
    "os_read_file (SaveData fe c hs us ps ls d) (path_comps (c_PathPasswords c)) = Inr sp"
    "set (Split newline sp) = insert [] (set ps)"
    "os_read_file (SaveData fe c hs us ps ls d) (path_comps (c_PathPayloads c)) = Inr sl"
    "set (Split newline sl) = insert [] {k \<in> set ls. fe d (payload_path c k)}"
proof -
  let ?H = "path_comps (c_PathHosts c)" and ?U = "path_comps (c_PathUsers c)"
  let ?P = "path_comps (c_PathPasswords c)" and ?L = "path_comps (c_PathPayloads c)"
  have ds: "?H \<noteq> ?U" "?H \<noteq> ?P" "?H \<noteq> ?L" "?U \<noteq> ?P" "?U \<noteq> ?L" "?P \<noteq> ?L"
    using assms(1) by (auto simp: data_files_ok_def data_paths_def)
  have wr: "writable d ?H" "writable d ?U" "writable d ?P" "writable d ?L"
    using assms(1) by (auto simp: data_files_ok_def data_paths_def)
  have nl: "\<forall>x \<in> set hs. newline \<notin> set x" "\<forall>x \<in> set us. newline \<notin> set x"
    "\<forall>x \<in> set ps. newline \<notin> set x" "\<forall>x \<in> set ls. newline \<notin> set x"
    using assms(2,3) set_order_clean(1) assms(5-8) by (metis loot_lines_ok_def loot_wf_def)+
  define d1 where "d1 = saveDataFile (c_PathHosts c) hs d"
  define d2 where "d2 = saveDataFile (c_PathUsers c) us d1"
  define d3 where "d3 = saveDataFile (c_PathPasswords c) ps d2"
  define pls where "pls = GetPayloads fe c d3 ls"
  define d4 where "d4 = saveDataFile (c_PathPayloads c) pls d3"
  obtain sh where sh: "os_write_file d ?H sh = Inr d1" "os_read_file d1 ?H = Inr sh"
    "set (Split newline sh) = insert [] (set hs)"
    using saved_file [OF wr(1) nl(1)] unfolding d1_def by metis
  obtain su where su: "os_write_file d1 ?U su = Inr d2" "os_read_file d2 ?U = Inr su"
    "set (Split newline su) = insert [] (set us)"
    using saved_file [of d1 "c_PathUsers c" us] wr(2) nl(2) os_write_file_writable [OF sh(1)]
    unfolding d2_def by metis
  obtain sp where sp: "os_write_file d2 ?P sp = Inr d3" "os_read_file d3 ?P = Inr sp"
    "set (Split newline sp) = insert [] (set ps)"
    using saved_file [of d2 "c_PathPasswords c" ps] wr(3) nl(3) os_write_file_writable [OF sh(1)]
      os_write_file_writable [OF su(1)]
    unfolding d3_def by metis
  have ex: "fe d3 (payload_path c k) = fe d (payload_path c k)" if "k \<in> set ls" for k
  proof -
    have "HasPayload k l"
      using that map_order_set [OF assms(8)] by (simp add: HasPayload_def Payloads_Has_def)
    then have "path_comps (payload_path c k) \<noteq> ?H" "path_comps (payload_path c k) \<noteq> ?U"
      "path_comps (payload_path c k) \<noteq> ?P"
      using assms(1) by (auto simp: data_files_ok_def data_paths_def)
    then show ?thesis
      using assms(4) os_write_file_other(1) [OF sh(1)] os_write_file_other(1) [OF su(1)]
        os_write_file_other(1) [OF sp(1)] by (simp add: file_exists_ok_def)
  qed
  then have pls: "set pls = {k \<in> set ls. fe d (payload_path c k)}"
    by (auto simp: pls_def GetPayloads_def payload_Exists_def SetHash_def)
  obtain sl where sl: "os_write_file d3 ?L sl = Inr d4" "os_read_file d4 ?L = Inr sl"
    "set (Split newline sl) = insert [] (set pls)"
    using saved_file [of d3 "c_PathPayloads c" pls] wr(4) nl(4) pls os_write_file_writable [OF sh(1)]
      os_write_file_writable [OF su(1)] os_write_file_writable [OF sp(1)]
    unfolding d4_def by (metis (mono_tags, lifting) mem_Collect_eq)
  have d4: "SaveData fe c hs us ps ls d = d4"
    by (simp add: SaveData_def d1_def d2_def d3_def d4_def pls_def Let_def)
  have "os_read_file d4 ?H = Inr sh" "os_read_file d4 ?U = Inr su" "os_read_file d4 ?P = Inr sp"
    using ds sh(2) su(2) sp(2) os_write_file_other(2) [OF su(1)] os_write_file_other(2) [OF sp(1)]
      os_write_file_other(2) [OF sl(1)] by simp_all
  then show thesis
    using that [of sh su sp sl] sh(3) su(3) sp(3) sl(2,3) pls unfolding d4 by blast
qed

text \<open>C23. Saving the loot and loading it into a fresh server restores it, for entries without newlines and
  separate data files: the same users and passwords, the hosts that are not whitelisted (now), and
  the payloads whose capture file exists.\<close>

theorem SaveData_loadData:
  assumes "data_files_ok c l d" and "loot_lines_ok l" and "loot_wf l" and "file_exists_ok fe"
    and "map_order (hosts l) hs" "map_order (users l) us" "map_order (passwords l) ps"
      "map_order (payloads l) ls"
    and "l' = o_loot (NewOSSHServer fe c (NewMetricsServer name ips) (SaveData fe c hs us ps ls d))"
  shows "\<forall>j. (HasUser j l' \<longleftrightarrow> HasUser j l) \<and> (HasPassword j l' \<longleftrightarrow> HasPassword j l) \<and>
    (HasHost j l' \<longleftrightarrow> HasHost j l \<and> \<not> isIPWhitelisted c j) \<and>
    (HasPayload j l' \<longleftrightarrow> HasPayload j l \<and> fe d (payload_path c j))"
proof -
  let ?d = "SaveData fe c hs us ps ls d"
  let ?s0 = "(NewLoot, NewMetricsServer name ips)"
  let ?s1 = "loadDataFile fe ?d (c_PathHosts c) (AddHost c) ?s0"
  let ?s2 = "loadDataFile fe ?d (c_PathUsers c) AddUser ?s1"
  let ?s3 = "loadDataFile fe ?d (c_PathPasswords c) AddPassword ?s2"
  obtain sh su sp sl where f:
    "os_read_file ?d (path_comps (c_PathHosts c)) = Inr sh"
    "set (Split newline sh) = insert [] (set hs)"
    "os_read_file ?d (path_comps (c_PathUsers c)) = Inr su"
    "set (Split newline su) = insert [] (set us)"
    "os_read_file ?d (path_comps (c_PathPasswords c)) = Inr sp"
    "set (Split newline sp) = insert [] (set ps)"
    "os_read_file ?d (path_comps (c_PathPayloads c)) = Inr sl"
    "set (Split newline sl) = insert [] {k \<in> set ls. fe d (payload_path c k)}"
    by (rule SaveData_files [OF assms(1-8)])
  have cl: "\<forall>k \<in> set hs. k \<noteq> [] \<and> TrimSpace k = k" "\<forall>k \<in> set us. k \<noteq> [] \<and> TrimSpace k = k"
    "\<forall>k \<in> set ps. k \<noteq> [] \<and> TrimSpace k = k"
    "\<forall>k \<in> {k \<in> set ls. fe d (payload_path c k)}. k \<noteq> [] \<and> TrimSpace k = k"
    using assms(2,3) set_order_clean(2) assms(5-8)
    by (metis loot_lines_ok_def loot_wf_def mem_Collect_eq)+
  have inv: "loot_inv ?s0" "loot_inv ?s1" "loot_inv ?s2" "loot_inv ?s3"
    by (simp_all add: NewLoot_inv loadDataFile_inv add_inv)
  have l': "l' = fst (loadDataFile fe ?d (c_PathPayloads c) (AddPayload c) ?s3)"
    by (simp add: assms(9) NewOSSHServer_def loadData_def Let_def split_def)
  note has = loadData_has(1) [OF assms(4) f(3,4) cl(2) inv(2)]
    loadData_has(2) [OF assms(4) f(5,6) cl(3) inv(3)] loadData_has(3) [OF assms(4) f(1,2) cl(1) inv(1)]
    loadData_has(4) [OF assms(4) f(7,8) cl(4) inv(4)]
  have new: "\<not> HasUser j NewLoot" "\<not> HasPassword j NewLoot" "\<not> HasHost j NewLoot"
    "\<not> HasPayload j NewLoot" for j
    by (simp_all add: NewLoot_def HasUser_def HasPassword_def HasHost_def HasPayload_def
        Payloads_Has_def NewPayloads_def)
  show ?thesis
    unfolding l' using new map_order_set [OF assms(5)] map_order_set [OF assms(6)]
      map_order_set [OF assms(7)] map_order_set [OF assms(8)]
    by (simp add: loadData_frames has) (simp add: HasUser_def HasPassword_def HasHost_def
        HasPayload_def Payloads_Has_def)
qed

theorem SaveData_loadData_witness:
  "HasUser ''root'' (o_loot (NewOSSHServer sample_file_exists sample_conf (NewMetricsServer ''pot'' [])
     (SaveData sample_file_exists sample_conf [] [''root''] [] [] sample_disk)))"
proof -
  let ?l = "NewLoot\<lparr>users := [(''root'', True)]\<rparr>"
  have pc: "path_comps ''/etc/ossh/hosts.txt'' = [''etc'', ''ossh'', ''hosts.txt'']"
    "path_comps ''/etc/ossh/users.txt'' = [''etc'', ''ossh'', ''users.txt'']"
    "path_comps ''/etc/ossh/passwords.txt'' = [''etc'', ''ossh'', ''passwords.txt'']"
    "path_comps ''/etc/ossh/payloads.txt'' = [''etc'', ''ossh'', ''payloads.txt'']"
    by code_simp+
  have dp: "data_paths sample_conf = [[''etc'', ''ossh'', ''hosts.txt''], [''etc'', ''ossh'', ''users.txt''],
      [''etc'', ''ossh'', ''passwords.txt''], [''etc'', ''ossh'', ''payloads.txt'']]"
    by (simp add: data_paths_def sample_conf_def pc)
  have "\<forall>p \<in> set [[''etc'', ''ossh'', ''hosts.txt''], [''etc'', ''ossh'', ''users.txt''],
      [''etc'', ''ossh'', ''passwords.txt''], [''etc'', ''ossh'', ''payloads.txt'']]. writable sample_disk p"
    unfolding writable_def sample_disk_def by code_simp
  then have ok: "data_files_ok sample_conf ?l sample_disk"
    unfolding data_files_ok_def dp
    by (simp add: HasPayload_def Payloads_Has_def NewLoot_def NewPayloads_def)
  have "loot_lines_ok ?l"
    by (simp add: loot_lines_ok_def data_ok_def NewLoot_def NewPayloads_def gm_has_def gm_get_def
        newline_def)
  moreover have "loot_wf ?l"
    by (simp add: loot_wf_def NewLoot_def NewPayloads_def clean_keys_def gm_has_def gm_get_def
        gm_inv_def trim_examples)
  moreover have "map_order (hosts ?l) []" "map_order (users ?l) [''root'']"
    "map_order (passwords ?l) []" "map_order (payloads ?l) []"
    by (simp_all add: map_order_def gm_keys_def NewLoot_def NewPayloads_def)
  moreover have "HasUser ''root'' ?l" by (simp add: HasUser_def gm_has_def gm_get_def)
  ultimately show ?thesis
    using SaveData_loadData [OF ok _ _ sample_file_exists_ok, of "[]" "[''root'']" "[]" "[]" _ "''pot''" "[]"]
    by blast
qed

section \<open>Statistics\<close>

lemma server_stats_ok:
  assumes "ossh_inv split c o0"
  shows "\<exists>st o1. server_stats up ks js ss fs o0 = Some (st, o1) \<and> ossh_inv split c o1 \<and>
    ns_Sessions st = sint (l_activeSessions (o_metrics o1)) \<and> ns_Hosts st = sint (l_knownHosts (o_metrics o1)) \<and>
    ns_Users st = sint (l_knownUsers (o_metrics o1)) \<and> ns_Passwords st = sint (l_knownPasswords (o_metrics o1)) \<and>
    ns_Payloads st = sint (l_knownPayloads (o_metrics o1)) \<and>
    ns_Uptime st = up \<and> l_timeOnline (o_metrics o1) = up"
proof -
  let ?f = "\<lambda>w. w\<lparr>w_metrics := SetTimeOnline up (w_metrics w)\<rparr>"
  let ?o1 = "with_sess ?f o0"
  have inv: "ossh_inv split c ?o1"
    using assms by (rule with_sess_inv)
      (simp_all add: world_metrics metrics_defs Let_def counters_def)
  have l: "\<not> w_locked (o_sess ?o1)" using inv by (simp add: ossh_inv_def world_inv_def)
  then have "(o_sess ?o1)\<lparr>w_locked := False\<rparr> = o_sess ?o1" by (rule sworld_unlock)
  with l have cnt: "ss_Count (o_sess ?o1) = Some (gm_len (w_map (o_sess ?o1)), o_sess ?o1)"
    by (simp add: ss_Count_def ss_Lock_def ss_Unlock_def)
  have g: "l_activeSessions (o_metrics ?o1) = of_nat (gm_len (w_map (o_sess ?o1)))"
    "loot_counted (o_loot ?o1, o_metrics ?o1)"
    using inv by (simp_all add: ossh_inv_def world_inv_def sess_wf_def o_metrics_def loot_inv_def)
  have "?o1\<lparr>o_sess := o_sess ?o1\<rparr> = ?o1" by simp
  moreover have "l_timeOnline (o_metrics ?o1) = up"
    by (simp add: o_metrics_def metrics_defs Let_def)
  ultimately show ?thesis
    using cnt g inv unfolding server_stats_def Let_def
    by (simp add: loot_counted_def go_len_def del: with_sess_frame)
qed

text \<open>C34. Under the server invariant the statistics of the node are always produced, leave the mutex free,
  and agree with the metrics server: sessions, hosts, users, passwords and payloads are the values
  of the corresponding gauges.\<close>

theorem server_stats_agree:
  assumes "ossh_inv split c o0"
  shows "\<exists>st o1. server_stats up ks js ss fs o0 = Some (st, o1) \<and> ossh_inv split c o1 \<and>
    ns_Sessions st = sint (l_activeSessions (o_metrics o1)) \<and> ns_Hosts st = sint (l_knownHosts (o_metrics o1)) \<and>
    ns_Users st = sint (l_knownUsers (o_metrics o1)) \<and> ns_Passwords st = sint (l_knownPasswords (o_metrics o1)) \<and>
    ns_Payloads st = sint (l_knownPayloads (o_metrics o1)) \<and>
    ns_Uptime st = up \<and> l_timeOnline (o_metrics o1) = up"
  using assms by (rule server_stats_ok)

theorem server_stats_agree_witness:
  "\<exists>st o1. server_stats 7 [] [] [] [] sample_ossh = Some (st, o1) \<and> ns_Uptime st = 7"
  using server_stats_agree [OF sample_ossh_inv, of 7 "[]" "[]" "[]" "[]"] by blast

text \<open>The reported wasted time is the counter as long as that is at most 9223372036 seconds; beyond
  that (and up to twice as much) the conversion to nanoseconds wraps and the report is negative.\<close>

theorem getWastedTime_range:
  assumes "0 \<le> w_wasted w" and "w_wasted w \<le> 18446744073"
  shows "if w_wasted w \<le> 9223372036 then getWastedTime w = of_int (w_wasted w)
    else getWastedTime w < 0"
proof (cases "w_wasted w \<le> 9223372036")
  case True
  then have "wrap64 (w_wasted w * second) = w_wasted w * second"
    using assms(1) by (intro wrap64_id) (simp_all add: second_def)
  with True show ?thesis by (simp add: getWastedTime_def second_def)
next
  case False
  have "(w_wasted w * second + 2 ^ 63) mod 2 ^ 64 = w_wasted w * second + 2 ^ 63 - 2 ^ 64"
  proof -
    have "(w_wasted w * second + 2 ^ 63 - 2 ^ 64) mod 2 ^ 64 = w_wasted w * second + 2 ^ 63 - 2 ^ 64"
      using False assms(2) by (intro mod_pos_pos_trivial) (simp_all add: second_def)
    then show ?thesis by (simp only: minus_mod_self2)
  qed
  then have "wrap64 (w_wasted w * second) < 0"
    using assms(2) by (simp add: wrap64_def second_def)
  then have "getWastedTime w < 0"
    unfolding getWastedTime_def by (intro divide_neg_pos) (simp_all add: second_def)
  with False show ?thesis by simp
qed

theorem getWastedTime_range_witness:
  "getWastedTime ((NewActiveSessions metrics_zero)\<lparr>w_wasted := 9223372037\<rparr>) < 0"
  using getWastedTime_range [of "(NewActiveSessions metrics_zero)\<lparr>w_wasted := 9223372037\<rparr>"] by simp

end
