(* ===== verification/Fake_Shell.thy ===== *)
theory Fake_Shell
  imports Shell_Commands OSSH_Server
begin

text \<open>
  \<^verbatim>\<open>fake_shell.go\<close>: the fake shell itself: which answer a line gets (\<^verbatim>\<open>Exec\<close>), the interactive loop, the
  execution of a command passed by the client, and the creation of a shell for a session. The shell
  runs on the server object, whose disk the fake file system is part of; the session is the heap
  address \<open>a\<close>. Delays and log output are left out.
\<close>

section \<open>Environment prefixes\<close>

text \<open>The regular expression \<^verbatim>\<open>[A-Z_\-0-9]+=.*?\s+(.*)\<close> with the replacement \<^verbatim>\<open>$1\<close>, on a line (without
  line breaks): the leftmost match runs to the end of the line, so at most one assignment goes.\<close>

definition env_chars :: string where
  "env_chars = ''ABCDEFGHIJKLMNOPQRSTUVWXYZ_-0123456789''"

definition space_chars :: string where
  "space_chars = [CHR 0x09, CHR 0x0A, CHR 0x0C, CHR 0x0D, CHR '' '']"

definition env_match :: "string \<Rightarrow> string option" where
  "env_match s =
     (let name = takeWhile (\<lambda>x. List.member env_chars x) s;
          rest = dropWhile (\<lambda>x. List.member env_chars x) s;
          tail = dropWhile (\<lambda>x. \<not> List.member space_chars x) rest
      in if name \<noteq> [] \<and> HasPrefix rest ''='' \<and> tail \<noteq> []
         then Some (dropWhile (\<lambda>x. List.member space_chars x) tail) else None)"

fun env_strip :: "string \<Rightarrow> string" where
  "env_strip [] = []"
| "env_strip (x # s) = (case env_match (x # s) of Some r \<Rightarrow> r | None \<Rightarrow> x # env_strip s)"

section \<open>The answer to a line\<close>

text \<open>\<^verbatim>\<open>strings.HasPrefix(line+"  ", cmd+" ")\<close>, and the variant with one blank.\<close>

definition matches2 :: "string \<Rightarrow> string \<Rightarrow> bool" where
  "matches2 line cmd = HasPrefix (line @ ''  '') (cmd @ '' '')"

definition matches1 :: "string \<Rightarrow> string \<Rightarrow> bool" where
  "matches1 line cmd = HasPrefix (line @ '' '') (cmd @ '' '')"

text \<open>What \<^verbatim>\<open>Exec\<close> does with a line. The loop over the simple commands panics on an empty entry, and on a
  matching one without answer.\<close>

datatype action =
    Nothing
  | ExitShell
  | Answer string
  | DiskErrorAnswer
  | Garbage
  | GoCommand string
  | FromTemplate

fun simple_answer :: "string list list \<Rightarrow> string \<Rightarrow> go_panic + string option" where
  "simple_answer [] line = Inr None"
| "simple_answer (cmd # cmds) line =
     (if cmd = [] then Inl IndexOutOfRange
      else if matches2 line (cmd ! 0)
      then (if length cmd < 2 then Inl IndexOutOfRange else Inr (Some (cmd ! 1)))
      else simple_answer cmds line)"

definition first_word :: "string \<Rightarrow> string" where
  "first_word line = Split (CHR '' '') (TrimSpace line) ! 0"

definition decide :: "command_conf \<Rightarrow> string \<Rightarrow> go_panic + action" where
  "decide cc line =
     (if TrimSpace line = [] then Inr Nothing
      else if list_ex (matches2 line) (cc_Exit cc) then Inr ExitShell
      else bind_res (simple_answer (cc_Simple cc) line) (\<lambda>s.
        case s of
          Some t \<Rightarrow> Inr (Answer t)
        | None \<Rightarrow>
            (if list_ex (matches2 line) (cc_PermissionDenied cc)
               then Inr (Answer ''{{ .Command }}: permission denied'')
             else if list_ex (matches2 line) (cc_DiskError cc) then Inr DiskErrorAnswer
             else if list_ex (matches2 line) (cc_CommandNotFound cc)
               then Inr (Answer ''{{ .Command }}: command not found'')
             else if list_ex (matches2 line) (cc_FileNotFound cc)
               then Inr (Answer ([CHR 0x22] @ ''{{ .Command }}'' @ [CHR 0x22] @
                      '': No such file or directory (os error 2)''))
             else if list_ex (matches1 line) (cc_NotImplemented cc)
               then Inr (Answer ''{{ .Command }}: Function not implemented'')
             else if list_ex (matches1 line) (cc_Bullshit cc) then Inr Garbage
             else if gm_has (first_word line) CmdLookup then Inr (GoCommand (first_word line))
             else Inr FromTemplate)))"

definition line_data :: "conf \<Rightarrow> shell \<Rightarrow> session \<Rightarrow> string \<Rightarrow> tdata" where
  "line_data c sh s line =
     (let pieces = Split (CHR '' '') line; se = sh_session sh
      in \<lparr>td_User = s_User s, td_IP = se_RemoteHost se, td_IPLocal = se_LocalHost se,
          td_Port = se_RemotePort se, td_PortLocal = se_LocalPort se, td_HostName = c_HostName c,
          td_InputRaw = line, td_Command = hd pieces, td_Arguments = tl pieces\<rparr>)"

text \<open>Carrying the action out. The garbage is a thousand characters.\<close>

fun perform ::
  "shell_lib \<Rightarrow> conf \<Rightarrow> fake_fs option \<Rightarrow> string \<Rightarrow> tdata \<Rightarrow> action \<Rightarrow> shell \<Rightarrow> fsys \<Rightarrow> bool shell_res" where
  "perform lib c afs line data Nothing sh d = (Inr False, sh, d)"
| "perform lib c afs line data ExitShell sh d =
     (Inr True, RecordExec lib line (sl_GeneratePseudoEmptyString lib (sh_tick sh)) sh, d)"
| "perform lib c afs line data (Answer t) sh d =
     (Inr False, RecordExec lib line (ParseTemplateFromString (sl_engine lib) t data) sh, d)"
| "perform lib c afs line data DiskErrorAnswer sh d =
     (Inr False, RecordExec lib line (ParseTemplateFromString (sl_engine lib)
        (sl_GenerateGarbageString lib (sh_tick sh) 1000 @ [newline] @ ''end_request: I/O error'') data) sh, d)"
| "perform lib c afs line data Garbage sh d =
     (Inr False, RecordExec lib line (sl_GenerateGarbageString lib (sh_tick sh) 1000) sh, d)"
| "perform lib c afs line data (GoCommand k) sh d =
     (case gm_get k CmdLookup of
        Some f \<Rightarrow> f lib c afs (TrimSpace line) sh d
      | None \<Rightarrow> (Inr False, sh, d))"
| "perform lib c afs line data FromTemplate sh d =
     (Inr False, RecordExec lib line
        (ParseTemplateToString (sl_engine lib) c d (td_Command data) data) sh, d)"

definition run_line ::
  "shell_lib \<Rightarrow> conf \<Rightarrow> fake_fs option \<Rightarrow> string \<Rightarrow> session \<Rightarrow> shell \<Rightarrow> fsys \<Rightarrow> bool shell_res" where
  "run_line lib c afs line s sh d =
     (case decide (c_Commands c) line of
        Inl p \<Rightarrow> (Inl p, sh, d)
      | Inr act \<Rightarrow> perform lib c afs line (line_data c sh s line) act sh d)"

text \<open>The metric counts every line that is neither blank nor an exit command.\<close>

definition counts :: "command_conf \<Rightarrow> string \<Rightarrow> bool" where
  "counts cc line \<longleftrightarrow> TrimSpace line \<noteq> [] \<and> \<not> list_ex (matches2 line) (cc_Exit cc)"

definition count_command :: "sworld \<Rightarrow> sworld" where
  "count_command w = w\<lparr>w_metrics := IncrementExecutedCommands (w_metrics w)\<rparr>"

text \<open>The activity of the session is updated before and, by \<^verbatim>\<open>defer\<close>, after the line, also on a panic;
  each reads the clock.\<close>

definition Exec ::
  "shell_lib \<Rightarrow> conf \<Rightarrow> fake_fs option \<Rightarrow> nat \<Rightarrow> string \<Rightarrow> shell \<times> ossh \<Rightarrow> (go_panic + bool) \<times> shell \<times> ossh" where
  "Exec lib c afs a line0 = (\<lambda>(sh0, o0).
     (let line = env_strip line0;
          sh1 = sh0\<lparr>sh_stats := AddCommandToHistory line0 (sh_stats sh0), sh_tick := Suc (sh_tick sh0)\<rparr>;
          o1 = with_sess (UpdateActivity (sl_clk lib (sh_tick sh0)) a) o0;
          o2 = (if counts (c_Commands c) line then with_sess count_command o1 else o1)
      in case run_line lib c afs line (o_session a o1) sh1 (o_disk o2) of
           (r, sh2, d) \<Rightarrow>
             (r, sh2\<lparr>sh_tick := Suc (sh_tick sh2)\<rparr>,
              with_sess (UpdateActivity (sl_clk lib (sh_tick sh2)) a) (o2\<lparr>o_disk := d\<rparr>))))"

section \<open>Loops\<close>

fun rewrite_line :: "shell_lib \<Rightarrow> string list list \<Rightarrow> string \<Rightarrow> go_panic + string" where
  "rewrite_line lib [] line = Inr line"
| "rewrite_line lib (rw # rws) line =
     (if rw = [] then Inl IndexOutOfRange
      else case sl_regexp lib (rw ! 0) of
             None \<Rightarrow> Inl (PanicValue ''regexp: Compile'')
           | Some (matchString, replaceAll) \<Rightarrow>
               (if matchString line
                then (if length rw < 2 then Inl IndexOutOfRange
                      else rewrite_line lib rws (replaceAll line (rw ! 1)))
                else rewrite_line lib rws line))"

fun exec_lines ::
  "shell_lib \<Rightarrow> conf \<Rightarrow> fake_fs option \<Rightarrow> nat \<Rightarrow> string list \<Rightarrow> shell \<times> ossh \<Rightarrow>
   (go_panic + bool) \<times> shell \<times> ossh" where
  "exec_lines lib c afs a [] st = (Inr False, st)"
| "exec_lines lib c afs a (l # ls) st =
     (case Exec lib c afs a l st of
        (Inl p, st') \<Rightarrow> (Inl p, st')
      | (Inr True, st') \<Rightarrow> (Inr True, st')
      | (Inr False, st') \<Rightarrow> exec_lines lib c afs a ls st')"

definition exec_input ::
  "shell_lib \<Rightarrow> conf \<Rightarrow> fake_fs option \<Rightarrow> nat \<Rightarrow> string \<Rightarrow> shell \<times> ossh \<Rightarrow> (go_panic + bool) \<times> shell \<times> ossh" where
  "exec_input lib c afs a line st =
     (case rewrite_line lib (cc_Rewriters (c_Commands c)) line of
        Inl p \<Rightarrow> (Inl p, st)
      | Inr line \<Rightarrow> exec_lines lib c afs a (Split newline line) st)"

text \<open>The interactive loop, on the lines the terminal will deliver and the error after them.\<close>

fun HandleInput ::
  "shell_lib \<Rightarrow> conf \<Rightarrow> fake_fs option \<Rightarrow> nat \<Rightarrow> string \<Rightarrow> string list \<Rightarrow> shell \<times> ossh \<Rightarrow>
   (go_panic + unit) \<times> shell \<times> ossh" where
  "HandleInput lib c afs a err [] st = ((if err = ''EOF'' then Inr () else Inl (PanicValue err)), st)"
| "HandleInput lib c afs a err (line # lines) st =
     (case exec_input lib c afs a line st of
        (Inl p, st') \<Rightarrow> (Inl p, st')
      | (Inr True, st') \<Rightarrow> (Inr (), st')
      | (Inr False, st') \<Rightarrow> HandleInput lib c afs a err lines st')"

definition shell_Close :: "shell \<times> ossh \<Rightarrow> (go_panic + unit) \<times> shell \<times> ossh" where
  "shell_Close = (\<lambda>(sh, o1).
     (let se = sh_session sh; closed_sh = sh\<lparr>sh_session := se\<lparr>se_closed := True\<rparr>\<rparr>
      in case se_write_err se of
           Some e \<Rightarrow> (if e = ''EOF'' then (Inr (), closed_sh, o1) else (Inl (PanicValue e), sh, o1))
         | None \<Rightarrow> (Inr (), closed_sh, o1)))"

text \<open>\<^verbatim>\<open>Process\<close> gives the statistics; without a panic the session is closed.\<close>

definition Process ::
  "shell_lib \<Rightarrow> conf \<Rightarrow> fake_fs option \<Rightarrow> nat \<Rightarrow> shell \<times> ossh \<Rightarrow> (go_panic + shell_stats) \<times> shell \<times> ossh" where
  "Process lib c afs a st =
     (let se = sh_session (fst st)
      in case (if se_RawCommand se \<noteq> []
               then (case exec_input lib c afs a (se_RawCommand se) st of
                       (Inl p, st') \<Rightarrow> (Inl p, st')
                     | (Inr _, st') \<Rightarrow> (Inr (), st'))
               else HandleInput lib c afs a (se_lines_err se) (se_lines se) st) of
           (Inl p, st') \<Rightarrow> (Inl p, st')
         | (Inr _, st') \<Rightarrow>
             (case shell_Close st' of
                (Inl p, st2) \<Rightarrow> (Inl p, st2)
              | (Inr _, st2) \<Rightarrow> (Inr (sh_stats (fst st2)), st2)))"

definition fakeShellInitialWidth :: int where
  "fakeShellInitialWidth = 80"

definition fakeShellInitialHeight :: int where
  "fakeShellInitialHeight = 24"

definition NewFakeShell :: "shell_lib \<Rightarrow> conf \<Rightarrow> ssh_session \<Rightarrow> bool \<Rightarrow> nat \<Rightarrow> shell" where
  "NewFakeShell lib c se whitelisted tick =
     (let w = NewSlowWriter (c_Ratelimit c) []
      in UpdatePrompt c ''~''
           \<lparr>sh_session = se,
            sh_writer = (if whitelisted then SetRatelimit 10000 w else w),
            sh_stats = \<lparr>fss_Host = se_RemoteHost se, fss_User = se_User se, fss_CommandsExecuted = 0,
              fss_CommandHistory = [],
              fss_recording = NewASCIICastV2 (sl_clk lib (Suc tick)) fakeShellInitialWidth
                fakeShellInitialHeight\<rparr>,
            sh_prompt = [], sh_cwd = ''/home/'' @ se_User se, sh_tick = Suc (Suc tick)\<rparr>)"

section \<open>One line\<close>

text \<open>The history and the counter of executed commands agree.\<close>

definition sh_wf :: "shell \<Rightarrow> bool" where
  "sh_wf sh \<longleftrightarrow> fss_CommandsExecuted (sh_stats sh) = of_nat (length (fss_CommandHistory (sh_stats sh)))"

lemma perform_ok:
  assumes "perform lib c afs line data act sh d = (r, sh', d')"
  shows "clk_ok lib \<Longrightarrow> shell_step_ok lib sh sh'"
    and "afs = Some ofs \<Longrightarrow> lib_ok lib \<Longrightarrow> fs_ready ofs d \<Longrightarrow> sl_busy lib (merged ofs) \<Longrightarrow>
      host_kept ofs d d'"
    and "r = Inr True \<longleftrightarrow> act = ExitShell"
proof -
  show "clk_ok lib \<Longrightarrow> shell_step_ok lib sh sh'"
    using assms shell_command.client [OF CmdLookup_ok]
    by (cases act) (auto simp: cmd_frame split: option.splits)
  show "afs = Some ofs \<Longrightarrow> lib_ok lib \<Longrightarrow> fs_ready ofs d \<Longrightarrow> sl_busy lib (merged ofs) \<Longrightarrow>
      host_kept ofs d d'"
    using assms shell_command.host [OF CmdLookup_ok]
    by (cases act) (auto simp: cmd_frame split: option.splits)
  show "r = Inr True \<longleftrightarrow> act = ExitShell"
    using assms shell_command.no_exit [OF CmdLookup_ok]
    by (cases act) (auto split: option.splits)
qed

lemma simple_answer_exit: "bind_res (simple_answer cmds line) f = Inr x \<Longrightarrow> \<exists>s. f s = Inr x"
  by (auto simp: bind_res_Inr_iff)

lemma decide_exit:
  "decide cc line = Inr ExitShell \<longleftrightarrow> TrimSpace line \<noteq> [] \<and> list_ex (matches2 line) (cc_Exit cc)"
  by (auto simp: decide_def bind_res_Inr_iff split: if_splits option.splits)

lemma decide_nothing: "decide cc line = Inr Nothing \<longleftrightarrow> TrimSpace line = []"
  by (auto simp: decide_def bind_res_Inr_iff split: if_splits option.splits)

lemma count_command_world: "world_inv split c w \<Longrightarrow> world_inv split c (count_command w)"
  unfolding count_command_def by (rule world_metrics) (simp_all add: metrics_defs Let_def)

lemma count_command_counters [simp]: "counters (w_metrics (count_command w)) = counters (w_metrics w)"
  by (simp add: count_command_def counters_def metrics_defs Let_def)

lemma ossh_inv_disk [simp]: "ossh_inv split c (o1\<lparr>o_disk := d\<rparr>) = ossh_inv split c o1"
  by (simp add: ossh_inv_def o_metrics_def)

text \<open>What one line leaves alone and keeps, over the whole state.\<close>

definition line_ok ::
  "(string \<Rightarrow> string \<times> int) \<Rightarrow> shell_lib \<Rightarrow> conf \<Rightarrow> fake_fs \<Rightarrow> shell \<times> ossh \<Rightarrow> shell \<times> ossh \<Rightarrow> bool" where
  "line_ok split lib c ofs st st' \<longleftrightarrow>
     (ossh_inv split c (snd st) \<longrightarrow> ossh_inv split c (snd st')) \<and>
     o_loot (snd st') = o_loot (snd st) \<and> o_logins (snd st') = o_logins (snd st) \<and>
     w_map (o_sess (snd st')) = w_map (o_sess (snd st)) \<and>
     (\<forall>b. s_ID (o_session b (snd st')) = s_ID (o_session b (snd st)) \<and>
        s_Whitelisted (o_session b (snd st')) = s_Whitelisted (o_session b (snd st))) \<and>
     host_kept ofs (o_disk (snd st)) (o_disk (snd st')) \<and>
     (sh_inv lib (fst st) \<longrightarrow> sh_inv lib (fst st')) \<and> (sh_wf (fst st) \<longrightarrow> sh_wf (fst st')) \<and>
     (sh_session (fst st'))\<lparr>se_in := []\<rparr> = (sh_session (fst st))\<lparr>se_in := []\<rparr>"

lemma line_ok_refl: "fs_ready ofs (o_disk (snd st)) \<Longrightarrow> line_ok split lib c ofs st st"
  by (simp add: line_ok_def host_kept_refl)

lemma line_ok_trans: "line_ok split lib c ofs a b \<Longrightarrow> line_ok split lib c ofs b d \<Longrightarrow> line_ok split lib c ofs a d"
  unfolding line_ok_def by (auto intro: host_kept_trans)

lemma line_ok_ready: "line_ok split lib c ofs st st' \<Longrightarrow> fs_ready ofs (o_disk (snd st'))"
  unfolding line_ok_def using host_kept_ready by blast

lemma commandsExecuted_frame [simp]:
  "l_commandsExecuted (w_metrics (UpdateActivity now a w)) = l_commandsExecuted (w_metrics w)"
  "l_commandsExecuted (w_metrics (count_command w)) = l_commandsExecuted (w_metrics w) + 1"
  by (simp_all add: UpdateActivity_def addWastedTime_def count_command_def metrics_defs Let_def)

lemma count_command_frame [simp]:
  "w_map (count_command w) = w_map w" "sess b (count_command w) = sess b w"
  by (simp_all add: count_command_def sess_def)

text \<open>The counter of executed commands, as the metrics server has it.\<close>

abbreviation executed :: "ossh \<Rightarrow> goint" where
  "executed o1 \<equiv> l_commandsExecuted (w_metrics (o_sess o1))"

lemma run_line_ok:
  assumes "run_line lib c afs line s sh d = (r, sh', d')"
  shows "clk_ok lib \<Longrightarrow> shell_step_ok lib sh sh'"
    and "afs = Some ofs \<Longrightarrow> lib_ok lib \<Longrightarrow> fs_ready ofs d \<Longrightarrow> sl_busy lib (merged ofs) \<Longrightarrow>
      host_kept ofs d d'"
    and "r = Inr True \<longleftrightarrow> TrimSpace line \<noteq> [] \<and> list_ex (matches2 line) (cc_Exit (c_Commands c))"
  using assms perform_ok(1) perform_ok(2) perform_ok(3) decide_exit [of "c_Commands c" line]
  by (cases "decide (c_Commands c) line"; force simp: run_line_def step_ok_refl host_kept_refl)+

definition before_line :: "string \<Rightarrow> shell \<Rightarrow> shell" where
  "before_line line0 sh =
     sh\<lparr>sh_stats := AddCommandToHistory line0 (sh_stats sh), sh_tick := Suc (sh_tick sh)\<rparr>"

definition count_line :: "conf \<Rightarrow> string \<Rightarrow> sworld \<Rightarrow> sworld" where
  "count_line c line w = (if counts (c_Commands c) line then count_command w else w)"

lemma Exec_eq:
  assumes "run_line lib c afs (env_strip line0)
      (o_session a (with_sess (UpdateActivity (sl_clk lib (sh_tick sh)) a) o0))
      (before_line line0 sh) (o_disk o0) = (r, sh2, d)"
  shows "Exec lib c afs a line0 (sh, o0) =
    (r, sh2\<lparr>sh_tick := Suc (sh_tick sh2)\<rparr>,
     with_sess (UpdateActivity (sl_clk lib (sh_tick sh2)) a)
       ((with_sess (count_line c (env_strip line0))
          (with_sess (UpdateActivity (sl_clk lib (sh_tick sh)) a) o0))\<lparr>o_disk := d\<rparr>))"
  using assms by (simp add: Exec_def Let_def before_line_def count_line_def with_sess_def)

lemma count_line_world: "world_inv split c w \<Longrightarrow> world_inv split c (count_line c line w)"
  by (simp add: count_line_def count_command_world)

lemma count_line_frame [simp]:
  "w_map (count_line c line w) = w_map w" "sess b (count_line c line w) = sess b w"
  "counters (w_metrics (count_line c line w)) = counters (w_metrics w)"
  "l_commandsExecuted (w_metrics (count_line c line w)) =
     l_commandsExecuted (w_metrics w) + (if counts (c_Commands c) line then 1 else 0)"
  by (simp_all add: count_line_def)

lemma tick_inv: "clk_ok lib \<Longrightarrow> sh_inv lib sh \<Longrightarrow> sh_inv lib (sh\<lparr>sh_tick := Suc (sh_tick sh)\<rparr>)"
  using cast_inv_mono by (auto simp: sh_inv_def clk_ok_def)

lemma before_line_inv:
  assumes "clk_ok lib" and "sh_inv lib sh" shows "sh_inv lib (before_line line0 sh)"
  using tick_inv [OF assms] by (simp add: sh_inv_def before_line_def AddCommandToHistory_def)

text \<open>Everything one line keeps, and the three things it does.\<close>

lemma Exec_ok:
  assumes "Exec lib c afs a line0 (sh, o0) = (r, sh', o')" and "lib_ok lib"
  shows "afs = Some ofs \<Longrightarrow> fs_ready ofs (o_disk o0) \<Longrightarrow> sl_busy lib (merged ofs) \<Longrightarrow>
      line_ok split lib c ofs (sh, o0) (sh', o')"
    and "fss_CommandHistory (sh_stats sh') = fss_CommandHistory (sh_stats sh) @ [line0]"
    and "executed o' = executed o0 + (if counts (c_Commands c) (env_strip line0) then 1 else 0)"
    and "r = Inr True \<longleftrightarrow> TrimSpace (env_strip line0) \<noteq> [] \<and>
      list_ex (matches2 (env_strip line0)) (cc_Exit (c_Commands c))"
proof -
  have clk: "clk_ok lib" using assms(2) by (simp add: lib_ok_def)
  let ?o1 = "with_sess (UpdateActivity (sl_clk lib (sh_tick sh)) a) o0"
  obtain r2 sh2 d where x: "run_line lib c afs (env_strip line0) (o_session a ?o1)
      (before_line line0 sh) (o_disk o0) = (r2, sh2, d)"
    by (metis prod_cases3)
  note e = Exec_eq [OF x, unfolded assms(1), simplified]
  note ok = run_line_ok [OF x]
  have step: "shell_step_ok lib (before_line line0 sh) sh2" using ok(1) clk by blast
  show "fss_CommandHistory (sh_stats sh') = fss_CommandHistory (sh_stats sh) @ [line0]"
    using e step by (simp add: shell_step_ok_def same_client_def before_line_def AddCommandToHistory_def)
  show "executed o' = executed o0 + (if counts (c_Commands c) (env_strip line0) then 1 else 0)"
    using e by simp
  show "r = Inr True \<longleftrightarrow> TrimSpace (env_strip line0) \<noteq> [] \<and>
      list_ex (matches2 (env_strip line0)) (cc_Exit (c_Commands c))"
    using e ok(3) by simp
  assume afs: "afs = Some ofs" "fs_ready ofs (o_disk o0)" "sl_busy lib (merged ofs)"
  have "host_kept ofs (o_disk o0) d" using ok(2) [OF afs(1) assms(2) afs(2,3)] .
  moreover have "ossh_inv split c o0 \<Longrightarrow> ossh_inv split c o'"
    using e by (auto intro!: with_sess_inv UpdateActivity_world count_line_world)
  moreover have "sh_inv lib sh \<Longrightarrow> sh_inv lib sh'"
    using e step before_line_inv [OF clk] tick_inv [OF clk] by (auto simp: shell_step_ok_def)
  moreover have "sh_wf sh \<Longrightarrow> sh_wf sh'"
    using e step by (simp add: sh_wf_def shell_step_ok_def same_client_def before_line_def
        AddCommandToHistory_def)
  ultimately show "line_ok split lib c ofs (sh, o0) (sh', o')"
    using e step
    by (simp add: line_ok_def shell_step_ok_def same_client_def before_line_def)
qed

section \<open>Many lines\<close>

text \<open>From one state to another the lines \<open>ls\<close> were executed, all kept what a line keeps, and all were
  recorded and counted.\<close>

definition ran ::
  "(string \<Rightarrow> string \<times> int) \<Rightarrow> shell_lib \<Rightarrow> conf \<Rightarrow> fake_fs \<Rightarrow> string list \<Rightarrow> shell \<times> ossh \<Rightarrow> shell \<times> ossh \<Rightarrow> bool" where
  "ran split lib c ofs ls st st' \<longleftrightarrow>
     line_ok split lib c ofs st st' \<and>
     fss_CommandHistory (sh_stats (fst st')) = fss_CommandHistory (sh_stats (fst st)) @ ls \<and>
     executed (snd st') = executed (snd st) +
       of_nat (length (filter (\<lambda>l. counts (c_Commands c) (env_strip l)) ls))"

lemma ran_Nil: "fs_ready ofs (o_disk (snd st)) \<Longrightarrow> ran split lib c ofs [] st st"
  by (simp add: ran_def line_ok_refl)

lemma ran_append: "ran split lib c ofs ls st st1 \<Longrightarrow> ran split lib c ofs ms st1 st2 \<Longrightarrow> ran split lib c ofs (ls @ ms) st st2"
  unfolding ran_def using line_ok_trans by fastforce

lemma ran_ready: "ran split lib c ofs ls st st' \<Longrightarrow> fs_ready ofs (o_disk (snd st'))"
  unfolding ran_def using line_ok_ready by blast

lemma Exec_ran:
  assumes "Exec lib c (Some ofs) a l st = (r, st')" and "lib_ok lib"
    and "fs_ready ofs (o_disk (snd st))" and "sl_busy lib (merged ofs)"
  shows "ran split lib c ofs [l] st st'"
  using Exec_ok [of lib c "Some ofs" a l "fst st" "snd st" r "fst st'" "snd st'"] assms
  by (simp add: ran_def)

text \<open>Exit commands end the execution.\<close>

definition is_exit :: "conf \<Rightarrow> string \<Rightarrow> bool" where
  "is_exit c l \<longleftrightarrow> TrimSpace (env_strip l) \<noteq> [] \<and> list_ex (matches2 (env_strip l)) (cc_Exit (c_Commands c))"

fun upto_exit :: "conf \<Rightarrow> string list \<Rightarrow> string list" where
  "upto_exit c [] = []"
| "upto_exit c (l # ls) = l # (if is_exit c l then [] else upto_exit c ls)"

lemma upto_exit_append:
  "upto_exit c (xs @ ys) = (if list_ex (is_exit c) xs then upto_exit c xs else xs @ upto_exit c ys)"
  by (induction xs) auto

text \<open>What a line of the client becomes.\<close>

definition input_lines :: "shell_lib \<Rightarrow> conf \<Rightarrow> string \<Rightarrow> string list" where
  "input_lines lib c line =
     (case rewrite_line lib (cc_Rewriters (c_Commands c)) line of
        Inl p \<Rightarrow> [] | Inr l \<Rightarrow> Split newline l)"

definition session_lines :: "shell_lib \<Rightarrow> conf \<Rightarrow> ssh_session \<Rightarrow> string list" where
  "session_lines lib c se =
     (if se_RawCommand se \<noteq> [] then input_lines lib c (se_RawCommand se)
      else concat (map (input_lines lib c) (se_lines se)))"

lemma exec_lines_ran:
  assumes "lib_ok lib" and "sl_busy lib (merged ofs)" and "fs_ready ofs (o_disk (snd st))"
    and "exec_lines lib c (Some ofs) a ls st = (r, st')"
  shows "\<exists>ms. ran split lib c ofs ms st st' \<and> prefix ms (upto_exit c ls) \<and>
    (\<forall>b. r = Inr b \<longrightarrow> ms = upto_exit c ls \<and> b = list_ex (is_exit c) ls)"
  using assms(3,4)
proof (induction ls arbitrary: st)
  case Nil
  then show ?case by (auto simp: ran_Nil)
next
  case (Cons l ls)
  obtain r1 st1 where e: "Exec lib c (Some ofs) a l st = (r1, st1)" by (meson surj_pair)
  have r: "ran split lib c ofs [l] st st1" using Exec_ran [OF e assms(1) Cons.prems(1) assms(2)] .
  have x: "r1 = Inr True \<longleftrightarrow> is_exit c l"
    using Exec_ok(4) [of lib c "Some ofs" a l "fst st" "snd st" r1 "fst st1" "snd st1"] e assms(1)
    by (simp add: is_exit_def)
  show ?case
  proof (cases "r1 = Inr False")
    case True
    then have ne: "\<not> is_exit c l" using x by simp
    have "exec_lines lib c (Some ofs) a ls st1 = (r, st')" using True Cons.prems(2) e by simp
    from Cons.IH [OF ran_ready [OF r] this] obtain ms where ms: "ran split lib c ofs ms st1 st'"
      "prefix ms (upto_exit c ls)"
      "\<forall>b. r = Inr b \<longrightarrow> ms = upto_exit c ls \<and> b = list_ex (is_exit c) ls" by blast
    have "ran split lib c ofs (l # ms) st st'" using ran_append [OF r ms(1)] by simp
    with ms(2,3) ne show ?thesis by (intro exI [of _ "l # ms"]) simp
  next
    case False
    have "st' = st1" "r = r1" using False Cons.prems(2) e by (auto split: sum.splits bool.splits)
    moreover have "b" if "r1 = Inr b" for b using that False by (cases b) simp_all
    ultimately show ?thesis using r x by (intro exI [of _ "[l]"]) auto
  qed
qed

text \<open>A shell that runs what the client sends executes some lines.\<close>

lemma exec_input_ran:
  assumes "lib_ok lib" and "sl_busy lib (merged ofs)" and "fs_ready ofs (o_disk (snd st))"
    and "exec_input lib c (Some ofs) a line st = (r, st')"
  shows "\<exists>ms. ran split lib c ofs ms st st' \<and> prefix ms (upto_exit c (input_lines lib c line)) \<and>
    (\<forall>b. r = Inr b \<longrightarrow> ms = upto_exit c (input_lines lib c line) \<and>
       b = list_ex (is_exit c) (input_lines lib c line))"
proof (cases "rewrite_line lib (cc_Rewriters (c_Commands c)) line")
  case (Inl p)
  with assms have "st' = st" "r = Inl p" by (simp_all add: exec_input_def)
  with ran_Nil [OF assms(3), of split lib c] show ?thesis by (intro exI [of _ "[]"]) auto
next
  case (Inr l)
  then have i: "input_lines lib c line = Split newline l" by (simp add: input_lines_def)
  from Inr assms(4) have "exec_lines lib c (Some ofs) a (Split newline l) st = (r, st')"
    by (simp add: exec_input_def)
  from exec_lines_ran [OF assms(1-3) this] show ?thesis unfolding i .
qed

lemma upto_exit_more: "prefix (upto_exit c xs) (upto_exit c (xs @ ys))"
  by (induction xs) simp_all

lemma HandleInput_ran:
  assumes "lib_ok lib" and "sl_busy lib (merged ofs)" and "fs_ready ofs (o_disk (snd st))"
    and "HandleInput lib c (Some ofs) a err ls st = (r, st')"
  shows "\<exists>ms. ran split lib c ofs ms st st' \<and>
    prefix ms (upto_exit c (concat (map (input_lines lib c) ls))) \<and>
    (r = Inr () \<longrightarrow> ms = upto_exit c (concat (map (input_lines lib c) ls)))"
  using assms(3,4)
proof (induction ls arbitrary: st)
  case Nil
  then show ?case by (auto intro: ran_Nil)
next
  case (Cons l ls)
  let ?xs = "input_lines lib c l" and ?ys = "concat (map (input_lines lib c) ls)"
  obtain r1 st1 where e: "exec_input lib c (Some ofs) a l st = (r1, st1)" by (meson surj_pair)
  obtain ms where ms: "ran split lib c ofs ms st st1" "prefix ms (upto_exit c ?xs)"
    "\<forall>b. r1 = Inr b \<longrightarrow> ms = upto_exit c ?xs \<and> b = list_ex (is_exit c) ?xs"
    using exec_input_ran [OF assms(1,2) Cons.prems(1) e] by blast
  show ?case
  proof (cases "r1 = Inr False")
    case True
    then have ne: "\<not> list_ex (is_exit c) ?xs" and m: "ms = ?xs"
      using ms(3) upto_exit_append [of c ?xs "[]"] by auto
    have "HandleInput lib c (Some ofs) a err ls st1 = (r, st')" using True Cons.prems(2) e by simp
    from Cons.IH [OF ran_ready [OF ms(1)] this] obtain ns where ns: "ran split lib c ofs ns st1 st'"
      "prefix ns (upto_exit c ?ys)" "r = Inr () \<longrightarrow> ns = upto_exit c ?ys" by blast
    with ran_append [OF ms(1) ns(1)] ne m show ?thesis
      by (intro exI [of _ "ms @ ns"]) (simp add: upto_exit_append)
  next
    case False
    have "st' = st1" "r = Inr () \<longleftrightarrow> r1 = Inr True"
      using False Cons.prems(2) e by (auto split: sum.splits bool.splits)
    moreover have "ms = upto_exit c (?xs @ ?ys)" if "r1 = Inr True"
      using ms(3) that by (auto simp: upto_exit_append)
    moreover have "prefix ms (upto_exit c (?xs @ ?ys))"
      using ms(2) upto_exit_more prefix_order.order_trans by blast
    ultimately show ?thesis using ms(1) by auto
  qed
qed

text \<open>No session but the one of the shell is touched.\<close>

lemma Exec_others:
  assumes "Exec lib c afs a l st = (r, st')" and "b \<noteq> a"
  shows "o_session b (snd st') = o_session b (snd st)"
proof (cases st)
  case (Pair sh o0)
  obtain r2 sh2 d where x: "run_line lib c afs (env_strip l)
      (o_session a (with_sess (UpdateActivity (sl_clk lib (sh_tick sh)) a) o0))
      (before_line l sh) (o_disk o0) = (r2, sh2, d)" by (metis prod_cases3)
  with Exec_eq [OF x] assms Pair show ?thesis
    by (auto simp: with_sess_def sess_UpdateActivity_other)
qed

lemma exec_lines_others:
  "exec_lines lib c afs a ls st = (r, st') \<Longrightarrow> b \<noteq> a \<Longrightarrow> o_session b (snd st') = o_session b (snd st)"
proof (induction ls arbitrary: st)
  case (Cons l ls)
  obtain r1 st1 where e: "Exec lib c afs a l st = (r1, st1)" by (meson surj_pair)
  show ?case
  proof (cases "r1 = Inr False")
    case True
    with Cons e Exec_others [OF e] show ?thesis by simp
  next
    case False
    with Cons.prems e have "st' = st1" by (auto split: sum.splits bool.splits)
    with Exec_others [OF e] Cons.prems(2) show ?thesis by simp
  qed
qed simp

lemma exec_input_others:
  "exec_input lib c afs a l st = (r, st') \<Longrightarrow> b \<noteq> a \<Longrightarrow> o_session b (snd st') = o_session b (snd st)"
  by (auto simp: exec_input_def exec_lines_others split: sum.splits)

lemma HandleInput_others:
  "HandleInput lib c afs a err ls st = (r, st') \<Longrightarrow> b \<noteq> a \<Longrightarrow> o_session b (snd st') = o_session b (snd st)"
proof (induction ls arbitrary: st)
  case (Cons l ls)
  obtain r1 st1 where e: "exec_input lib c afs a l st = (r1, st1)" by (meson surj_pair)
  show ?case
  proof (cases "r1 = Inr False")
    case True
    with Cons e exec_input_others [OF e] show ?thesis by simp
  next
    case False
    with Cons.prems e have "st' = st1" by (auto split: sum.splits bool.splits)
    with exec_input_others [OF e] Cons.prems(2) show ?thesis by simp
  qed
qed simp

section \<open>A whole session\<close>

definition process_input ::
  "shell_lib \<Rightarrow> conf \<Rightarrow> fake_fs option \<Rightarrow> nat \<Rightarrow> shell \<times> ossh \<Rightarrow> (go_panic + unit) \<times> shell \<times> ossh" where
  "process_input lib c afs a st =
     (let se = sh_session (fst st)
      in if se_RawCommand se \<noteq> []
         then (case exec_input lib c afs a (se_RawCommand se) st of
                 (Inl p, st') \<Rightarrow> (Inl p, st')
               | (Inr _, st') \<Rightarrow> (Inr (), st'))
         else HandleInput lib c afs a (se_lines_err se) (se_lines se) st)"

lemma Process_eq:
  "Process lib c afs a st =
     (case process_input lib c afs a st of
        (Inl p, st') \<Rightarrow> (Inl p, st')
      | (Inr _, st') \<Rightarrow>
          (case shell_Close st' of
             (Inl p, st2) \<Rightarrow> (Inl p, st2)
           | (Inr _, st2) \<Rightarrow> (Inr (sh_stats (fst st2)), st2)))"
  by (simp add: Process_def process_input_def Let_def)

text \<open>Closing changes nothing but the flag of the session.\<close>

lemma shell_Close_cases:
  assumes "shell_Close st = (r, st')"
  shows "snd st' = snd st \<and> sh_stats (fst st') = sh_stats (fst st) \<and> sh_tick (fst st') = sh_tick (fst st) \<and>
    (r = Inr () \<longrightarrow> se_closed (sh_session (fst st')))"
  using assms by (cases st) (auto simp: shell_Close_def Let_def split: option.splits if_splits)

lemma shell_Close_returns:
  "se_write_err (sh_session (fst st)) \<in> {None, Some ''EOF''} \<Longrightarrow> \<exists>st'. shell_Close st = (Inr (), st')"
  by (cases st) (auto simp: shell_Close_def Let_def)

lemma process_input_ran:
  assumes "lib_ok lib" and "sl_busy lib (merged ofs)" and "fs_ready ofs (o_disk (snd st))"
    and "process_input lib c (Some ofs) a st = (r, st')"
  shows "\<exists>ls. ran split lib c ofs ls st st' \<and>
    prefix ls (upto_exit c (session_lines lib c (sh_session (fst st)))) \<and>
    (r = Inr () \<longrightarrow> ls = upto_exit c (session_lines lib c (sh_session (fst st))))"
proof (cases "se_RawCommand (sh_session (fst st)) = []")
  case True
  with assms(4) have "HandleInput lib c (Some ofs) a (se_lines_err (sh_session (fst st)))
      (se_lines (sh_session (fst st))) st = (r, st')" by (simp add: process_input_def Let_def)
  from HandleInput_ran [OF assms(1-3) this] True show ?thesis by (simp add: session_lines_def)
next
  case False
  let ?se = "sh_session (fst st)"
  obtain r1 st1 where e: "exec_input lib c (Some ofs) a (se_RawCommand ?se) st = (r1, st1)"
    by (meson surj_pair)
  with False assms(4) have "st1 = st'" "r = Inr () \<longleftrightarrow> (\<exists>b. r1 = Inr b)"
    by (auto simp: process_input_def Let_def split: sum.splits)
  with exec_input_ran [OF assms(1-3) e] False show ?thesis by (auto simp: session_lines_def)
qed

lemma Process_others:
  assumes "Process lib c afs a st = (r, sh, o1)" and "b \<noteq> a"
  shows "o_session b o1 = o_session b (snd st)"
proof -
  obtain r1 st1 where p: "process_input lib c afs a st = (r1, st1)" by (meson surj_pair)
  obtain r2 st2 where cl: "shell_Close st1 = (r2, st2)" by (meson surj_pair)
  have "o1 = snd st1"
    using assms(1) p cl shell_Close_cases [OF cl] unfolding Process_eq by (auto split: sum.splits)
  moreover have "o_session b (snd st1) = o_session b (snd st)"
  proof (cases "se_RawCommand (sh_session (fst st)) = []")
    case True
    with p HandleInput_others assms(2) show ?thesis by (simp add: process_input_def Let_def)
  next
    case False
    obtain r3 st3 where e: "exec_input lib c afs a (se_RawCommand (sh_session (fst st))) st = (r3, st3)"
      by (meson surj_pair)
    with False p have "st3 = st1" by (auto simp: process_input_def Let_def split: sum.splits)
    with exec_input_others [OF e assms(2)] show ?thesis by simp
  qed
  ultimately show ?thesis by simp
qed

text \<open>Running a shell, up to the closing of its session.\<close>

lemma Process_ran:
  assumes "lib_ok lib" and "fs_ready ofs (o_disk (snd st0))" and "sl_busy lib (merged ofs)"
    and "Process lib c (Some ofs) a st0 = (r, sh, o1)"
  shows "\<exists>ls st1. ran split lib c ofs ls st0 st1 \<and> o1 = snd st1 \<and> sh_stats sh = sh_stats (fst st1) \<and>
    sh_tick sh = sh_tick (fst st1) \<and>
    (\<forall>stats. r = Inr stats \<longrightarrow> stats = sh_stats sh \<and> se_closed (sh_session sh)) \<and>
    prefix ls (upto_exit c (session_lines lib c (sh_session (fst st0)))) \<and>
    (\<forall>stats. r = Inr stats \<longrightarrow> ls = upto_exit c (session_lines lib c (sh_session (fst st0))))"
proof -
  obtain r1 st1 where p: "process_input lib c (Some ofs) a st0 = (r1, st1)" by (meson surj_pair)
  obtain r2 st2 where cl: "shell_Close st1 = (r2, st2)" by (meson surj_pair)
  have "o1 = snd st1 \<and> sh_stats sh = sh_stats (fst st1) \<and> sh_tick sh = sh_tick (fst st1) \<and>
      (\<forall>stats. r = Inr stats \<longrightarrow> stats = sh_stats sh \<and> se_closed (sh_session sh) \<and> r1 = Inr ())"
    using assms(4) p cl shell_Close_cases [OF cl] unfolding Process_eq
    by (auto split: sum.splits)
  with process_input_ran [OF assms(1,3,2) p, of split] show ?thesis by blast
qed

text \<open>The shell as it is created for a session.\<close>

lemma NewFakeShell_start:
  assumes "clk_ok lib"
  shows "sh_inv lib (NewFakeShell lib c se wl tick)" and "sh_wf (NewFakeShell lib c se wl tick)"
    and "fss_CommandHistory (sh_stats (NewFakeShell lib c se wl tick)) = []"
    and "sh_session (NewFakeShell lib c se wl tick) = se"
  using cast_inv_mono [OF NewASCIICastV2_inv, of "sl_clk lib (Suc tick)" "sl_clk lib (Suc (Suc tick))"] assms
  by (simp_all add: NewFakeShell_def Let_def UpdatePrompt_def sh_inv_def sh_wf_def clk_ok_def)


definition sample_session :: "string \<Rightarrow> string list \<Rightarrow> ssh_session" where
  "sample_session raw lines =
     (sh_session (sample_shell []))\<lparr>se_RawCommand := raw, se_lines := lines\<rparr>"

definition sample_world :: ossh where
  "sample_world = sample_ossh\<lparr>o_disk := sample_host\<rparr>"

lemma sample_world_ok:
  "ossh_inv split c sample_world" "fs_ready sample_fs (o_disk sample_world)"
  "sl_busy sample_lib (merged sample_fs)"
  using sample_ossh_inv sample_host_ready by (simp_all add: sample_world_def sample_lib_def)

lemma sample_lines:
  "upto_exit sample_conf (session_lines sample_lib sample_conf
     (sample_session (''id'' @ [newline] @ ''exit'' @ [newline] @ ''ls'') [])) = [''id'', ''exit'']"
proof -
  have "session_lines sample_lib sample_conf
      (sample_session (''id'' @ [newline] @ ''exit'' @ [newline] @ ''ls'') []) = [''id'', ''exit'', ''ls'']"
    by (simp add: session_lines_def input_lines_def sample_conf_def sample_commands_def sample_session_def newline_def)
  moreover have "\<not> is_exit sample_conf ''id''" "is_exit sample_conf ''exit''"
    unfolding is_exit_def sample_conf_def sample_commands_def by code_simp+
  ultimately show ?thesis by simp
qed


section \<open>Sessions that end\<close>

text \<open>A configuration without the entries that make the shell panic, the part of \<^verbatim>\<open>gutils.RemoveCommandFlags\<close>
  that \<^verbatim>\<open>rm\<close> relies on (the command name stays), and the lines that cannot make a built-in command panic:
  those not handed to \<^verbatim>\<open>ls\<close>, \<^verbatim>\<open>dir\<close>, \<^verbatim>\<open>cat\<close>, \<^verbatim>\<open>touch\<close> or \<^verbatim>\<open>scp\<close>.\<close>

definition commands_ok :: "shell_lib \<Rightarrow> command_conf \<Rightarrow> bool" where
  "commands_ok lib cc \<longleftrightarrow>
     list_all (\<lambda>cmd. 2 \<le> length cmd) (cc_Simple cc) \<and>
     list_all (\<lambda>rw. 2 \<le> length rw \<and> sl_regexp lib (rw ! 0) \<noteq> None) (cc_Rewriters cc)"

definition flags_ok :: "shell_lib \<Rightarrow> bool" where
  "flags_ok lib \<longleftrightarrow> (\<forall>ps. sl_RemoveCommandFlags lib (''rm'' # ps) \<noteq> [])"

definition safe_line :: "conf \<Rightarrow> string \<Rightarrow> bool" where
  "safe_line c l \<longleftrightarrow>
     (case decide (c_Commands c) (env_strip l) of
        Inr (GoCommand k) \<Rightarrow> k \<in> {''cd'', ''pwd'', ''rm''} | _ \<Rightarrow> True)"

lemma rewrite_line_returns:
  "list_all (\<lambda>rw. 2 \<le> length rw \<and> sl_regexp lib (rw ! 0) \<noteq> None) rws \<Longrightarrow>
     \<exists>l'. rewrite_line lib rws l = Inr l'"
proof (induction rws arbitrary: l)
  case (Cons rw rws)
  then show ?case by (cases rw) auto
qed simp

lemma simple_answer_returns:
  "list_all (\<lambda>cmd. 2 \<le> length cmd) cmds \<Longrightarrow> \<exists>s. simple_answer cmds line = Inr s"
proof (induction cmds)
  case (Cons cmd cmds)
  then show ?case by (cases cmd) auto
qed simp

lemma decide_returns:
  assumes "list_all (\<lambda>cmd. 2 \<le> length cmd) (cc_Simple cc)"
  shows "\<exists>act. decide cc line = Inr act"
proof -
  obtain s where "simple_answer (cc_Simple cc) line = Inr s" using simple_answer_returns [OF assms] by blast
  then show ?thesis by (cases s) (simp_all add: decide_def bind_res_def)
qed

lemma decide_go: "decide cc line = Inr (GoCommand k) \<Longrightarrow> k = first_word line \<and> gm_has k CmdLookup"
  by (auto simp: decide_def bind_res_Inr_iff split: if_splits option.splits)

lemma some_false: "\<exists>b. \<not> b"
  by (rule exI [of _ False]) simp

lemma rm_loop_returns: "\<exists>b sh' d'. rm_loop lib (Some ofs) pts sh d = (Inr b, sh', d')"
  by (induction pts arbitrary: d) (simp_all add: with_fs_def Let_def some_false)

lemma perform_returns:
  assumes "act = GoCommand k \<longrightarrow> k \<in> {''cd'', ''pwd'', ''rm''} \<and> k = first_word line"
    and "\<And>k'. act = GoCommand k' \<Longrightarrow> k' = k" and "flags_ok lib"
  shows "\<exists>b sh' d'. perform lib c (Some ofs) line data act sh d = (Inr b, sh', d')"
proof (cases act)
  case (GoCommand k')
  then have k: "k' = k" "k \<in> {''cd'', ''pwd'', ''rm''}" "k = first_word line" using assms by auto
  then consider "k = ''cd''" | "k = ''pwd''" | "k = ''rm''" by blast
  then show ?thesis
  proof cases
    case 3
    then obtain ps where ps: "Split (CHR '' '') (TrimSpace line) = ''rm'' # ps"
      using k(3) Split_nonempty [of "CHR '' ''" "TrimSpace line"]
      by (cases "Split (CHR '' '') (TrimSpace line)") (auto simp: first_word_def simp del: Split_nonempty)
    obtain q qs where "sl_RemoveCommandFlags lib (''rm'' # ps) = q # qs"
      using assms(3) by (metis flags_ok_def neq_Nil_conv)
    with 3 GoCommand k(1) ps rm_loop_returns show ?thesis
      by (auto simp: CmdLookup_def gm_get_def cmdRm_def)
  qed (use GoCommand k(1) in \<open>simp_all add: CmdLookup_def gm_get_def cmdCd_def cmdPwd_def with_fs_def
      Let_def some_false\<close>)
qed auto

lemma Exec_returns:
  assumes "commands_ok lib (c_Commands c)" and "flags_ok lib" and "safe_line c l"
  shows "\<exists>b st'. Exec lib c (Some ofs) a l st = (Inr b, st')"
proof -
  obtain sh o0 where st: "st = (sh, o0)" by (cases st)
  let ?s = "o_session a (with_sess (UpdateActivity (sl_clk lib (sh_tick sh)) a) o0)"
  obtain act where act: "decide (c_Commands c) (env_strip l) = Inr act"
    using decide_returns assms(1) by (auto simp: commands_ok_def)
  have "\<exists>b sh' d'. perform lib c (Some ofs) (env_strip l) (line_data c (before_line l sh) ?s (env_strip l))
      act (before_line l sh) (o_disk o0) = (Inr b, sh', d')"
  proof (rule perform_returns [OF _ _ assms(2), where k = "first_word (env_strip l)"])
    show "act = GoCommand (first_word (env_strip l)) \<longrightarrow>
        first_word (env_strip l) \<in> {''cd'', ''pwd'', ''rm''} \<and>
        first_word (env_strip l) = first_word (env_strip l)"
      using assms(3) act by (auto simp: safe_line_def)
  next
    fix k' assume "act = GoCommand k'"
    with act show "k' = first_word (env_strip l)" using decide_go by blast
  qed
  then obtain b sh' d' where "run_line lib c (Some ofs) (env_strip l) ?s (before_line l sh) (o_disk o0) =
      (Inr b, sh', d')" using act by (auto simp: run_line_def)
  from Exec_eq [OF this] show ?thesis unfolding st by blast
qed

lemma Exec_exit: "Exec lib c afs a l st = (r, st') \<Longrightarrow> r = Inr True \<longleftrightarrow> is_exit c l"
  using Exec_eq [of lib c afs l a "fst st" "snd st"] run_line_ok(3)
  by (cases "run_line lib c afs (env_strip l)
      (o_session a (with_sess (UpdateActivity (sl_clk lib (sh_tick (fst st))) a) (snd st)))
      (before_line l (fst st)) (o_disk (snd st))") (auto simp: is_exit_def)

lemma exec_lines_returns:
  assumes "commands_ok lib (c_Commands c)" and "flags_ok lib" and "list_all (safe_line c) (upto_exit c ls)"
  shows "\<exists>b st'. exec_lines lib c (Some ofs) a ls st = (Inr b, st')"
  using assms(3)
proof (induction ls arbitrary: st)
  case (Cons l ls)
  obtain b st1 where e: "Exec lib c (Some ofs) a l st = (Inr b, st1)"
    using Exec_returns [OF assms(1,2)] Cons.prems by fastforce
  show ?case
  proof (cases b)
    case False
    then have "\<not> is_exit c l" using e Exec_exit [of lib c "Some ofs" a l st "Inr b" st1] by simp
    with False e Cons show ?thesis by simp
  qed (use e in auto)
qed (simp add: some_false)

lemma upto_exit_prefix:
  "list_all P (upto_exit c (xs @ ys)) \<Longrightarrow> list_all P (upto_exit c xs)"
proof (cases "list_ex (is_exit c) xs")
  case False
  then have "upto_exit c xs = xs" using upto_exit_append [of c xs "[]"] by simp
  with False show "list_all P (upto_exit c (xs @ ys)) \<Longrightarrow> ?thesis" by (simp add: upto_exit_append)
qed (simp add: upto_exit_append)

text \<open>One line of the client, with all it becomes.\<close>

lemma exec_input_returns:
  assumes "commands_ok lib (c_Commands c)" and "flags_ok lib" and "lib_ok lib" and "sl_busy lib (merged ofs)"
    and "fs_ready ofs (o_disk (snd st))" and "list_all (safe_line c) (upto_exit c (input_lines lib c line))"
  shows "\<exists>st'. exec_input lib c (Some ofs) a line st =
      (Inr (list_ex (is_exit c) (input_lines lib c line)), st') \<and>
    ran split lib c ofs (upto_exit c (input_lines lib c line)) st st'"
proof -
  obtain l where l: "rewrite_line lib (cc_Rewriters (c_Commands c)) line = Inr l"
    using rewrite_line_returns assms(1) unfolding commands_ok_def by blast
  then have i: "input_lines lib c line = Split newline l" by (simp add: input_lines_def)
  obtain b st' where e: "exec_lines lib c (Some ofs) a (Split newline l) st = (Inr b, st')"
    using exec_lines_returns [OF assms(1,2)] assms(6) unfolding i by blast
  from exec_lines_ran [OF assms(3-5) e] e l show ?thesis unfolding i by (auto simp: exec_input_def)
qed

lemma line_ok_session:
  "line_ok split lib c ofs st st' \<Longrightarrow> (sh_session (fst st'))\<lparr>se_in := []\<rparr> = (sh_session (fst st))\<lparr>se_in := []\<rparr>"
  by (simp add: line_ok_def)

lemma HandleInput_returns:
  assumes "commands_ok lib (c_Commands c)" and "flags_ok lib" and "lib_ok lib" and "sl_busy lib (merged ofs)"
    and "fs_ready ofs (o_disk (snd st))"
    and "list_all (safe_line c) (upto_exit c (concat (map (input_lines lib c) ls)))"
  shows "\<exists>st'. HandleInput lib c (Some ofs) a ''EOF'' ls st = (Inr (), st') \<and>
    ran split lib c ofs (upto_exit c (concat (map (input_lines lib c) ls))) st st'"
  using assms(5,6)
proof (induction ls arbitrary: st)
  case Nil
  then show ?case by (simp add: ran_Nil)
next
  case (Cons l ls)
  let ?xs = "input_lines lib c l"
  obtain st1 where e: "exec_input lib c (Some ofs) a l st = (Inr (list_ex (is_exit c) ?xs), st1)"
    and r: "ran split lib c ofs (upto_exit c ?xs) st st1"
    using exec_input_returns [OF assms(1-4) Cons.prems(1) upto_exit_prefix] Cons.prems(2)
    by (metis concat.simps(2) list.simps(9))
  show ?case
  proof (cases "list_ex (is_exit c) ?xs")
    case True
    with e r show ?thesis by (simp add: upto_exit_append)
  next
    case False
    from Cons.IH [OF ran_ready [OF r]] Cons.prems(2) False obtain st' where
      st': "HandleInput lib c (Some ofs) a ''EOF'' ls st1 = (Inr (), st')"
      "ran split lib c ofs (upto_exit c (concat (map (input_lines lib c) ls))) st1 st'"
      by (auto simp: upto_exit_append)
    have "upto_exit c ?xs = ?xs" using False upto_exit_append [of c ?xs "[]"] by simp
    with False e r st' ran_append [OF r st'(2)] show ?thesis by (simp add: upto_exit_append)
  qed
qed

lemma process_input_returns:
  assumes "commands_ok lib (c_Commands c)" and "flags_ok lib" and "lib_ok lib" and "sl_busy lib (merged ofs)"
    and "fs_ready ofs (o_disk (snd st))"
    and "se_lines_err (sh_session (fst st)) = ''EOF''"
    and "list_all (safe_line c) (upto_exit c (session_lines lib c (sh_session (fst st))))"
  shows "\<exists>st'. process_input lib c (Some ofs) a st = (Inr (), st') \<and>
    ran split lib c ofs (upto_exit c (session_lines lib c (sh_session (fst st)))) st st'"
proof (cases "se_RawCommand (sh_session (fst st)) = []")
  case True
  with HandleInput_returns [OF assms(1-5)] assms(6,7) show ?thesis
    by (simp add: process_input_def session_lines_def Let_def)
next
  case False
  let ?raw = "se_RawCommand (sh_session (fst st))"
  have l: "session_lines lib c (sh_session (fst st)) = input_lines lib c ?raw"
    using False by (simp add: session_lines_def)
  obtain b st' where "exec_input lib c (Some ofs) a ?raw st = (Inr b, st')"
    and r: "ran split lib c ofs (upto_exit c (input_lines lib c ?raw)) st st'"
    using exec_input_returns [OF assms(1-5)] assms(7) unfolding l by blast
  then have "process_input lib c (Some ofs) a st = (Inr (), st')"
    using False by (simp add: process_input_def Let_def)
  with r show ?thesis unfolding l by blast
qed

lemma Process_returns:
  assumes "commands_ok lib (c_Commands c)" and "flags_ok lib" and "lib_ok lib" and "sl_busy lib (merged ofs)"
    and "fs_ready ofs (o_disk (snd st0))" and "sh_session (fst st0) = se"
    and "se_lines_err se = ''EOF''" and "se_write_err se \<in> {None, Some ''EOF''}"
    and "list_all (safe_line c) (upto_exit c (session_lines lib c se))"
  shows "\<exists>stats sh o1. Process lib c (Some ofs) a st0 = (Inr stats, sh, o1) \<and>
    se_closed (sh_session sh) \<and>
    fss_CommandHistory stats =
      fss_CommandHistory (sh_stats (fst st0)) @ upto_exit c (session_lines lib c se)"
proof -
  obtain st1 where p: "process_input lib c (Some ofs) a st0 = (Inr (), st1)"
    and r: "ran undefined lib c ofs (upto_exit c (session_lines lib c se)) st0 st1"
    using process_input_returns [OF assms(1-5), of a undefined] assms(6-9) by metis
  have "(sh_session (fst st1))\<lparr>se_in := []\<rparr> = se\<lparr>se_in := []\<rparr>"
    using r assms(6) by (simp add: ran_def line_ok_def)
  then have "se_write_err (sh_session (fst st1)) = se_write_err se"
    by (metis ssh_session.ext_inject ssh_session.surjective ssh_session.update_convs(7))
  with assms(8) obtain st2 where c: "shell_Close st1 = (Inr (), st2)"
    using shell_Close_returns [of st1] by auto
  with p r shell_Close_cases [OF c] show ?thesis by (cases st2) (simp add: Process_eq ran_def)
qed

text \<open>C17. Every session ends. If the terminal ends with EOF and can be written to, or fails with EOF when
  it is written to, the configuration has no malformed entry, and no line up to the first exit command is handed to one of the built-in commands that can panic, then,
  whatever the lines are and however many, running the shell returns, closes the session, and gives
  as history exactly the lines of the client, after rewriting, up to and including the first exit
  command (all of them if there is none).\<close>

theorem Process_ends:
  assumes "commands_ok lib (c_Commands c)" and "flags_ok lib" and "lib_ok lib" and "sl_busy lib (merged ofs)"
    and "fs_ready ofs (o_disk o0)"
    and "se_lines_err se = ''EOF''" and "se_write_err se \<in> {None, Some ''EOF''}"
    and "list_all (safe_line c) (upto_exit c (session_lines lib c se))"
  shows "\<exists>stats sh o1. Process lib c (Some ofs) a (NewFakeShell lib c se wl tick, o0) = (Inr stats, sh, o1) \<and>
    se_closed (sh_session sh) \<and> fss_CommandHistory stats = upto_exit c (session_lines lib c se)"
proof -
  have clk: "clk_ok lib" using assms(3) by (simp add: lib_ok_def)
  show ?thesis
    using Process_returns [OF assms(1-4), of "(NewFakeShell lib c se wl tick, o0)" se a] assms(5-8)
      NewFakeShell_start(3,4) [OF clk] by simp
qed

lemma sample_flags_ok: "flags_ok sample_lib"
  by (simp add: flags_ok_def sample_lib_def HasPrefix_def)

theorem Process_ends_witness:
  "\<exists>stats sh o1. Process sample_lib sample_conf (Some sample_fs) 0
      (NewFakeShell sample_lib sample_conf (sample_session [] [''pwd'', ''id'', ''logout'', ''ls'']) False 0,
       sample_world) = (Inr stats, sh, o1) \<and>
    fss_CommandHistory stats = [''pwd'', ''id'', ''logout'']"
proof -
  let ?se = "sample_session [] [''pwd'', ''id'', ''logout'', ''ls'']"
  have lines: "session_lines sample_lib sample_conf ?se = [''pwd'', ''id'', ''logout'', ''ls'']"
    by (simp add: session_lines_def input_lines_def sample_conf_def sample_commands_def
        sample_session_def newline_def)
  have ex: "\<not> is_exit sample_conf ''pwd''" "\<not> is_exit sample_conf ''id''" "is_exit sample_conf ''logout''"
    unfolding is_exit_def sample_conf_def sample_commands_def by code_simp+
  have safe: "safe_line sample_conf ''pwd''" "safe_line sample_conf ''id''" "safe_line sample_conf ''logout''"
    unfolding safe_line_def sample_conf_def sample_commands_def by code_simp+
  have cs: "commands_ok sample_lib (c_Commands sample_conf)"
    by (simp add: commands_ok_def sample_conf_def sample_commands_def)
  have "se_lines_err ?se = ''EOF''" "se_write_err ?se \<in> {None, Some ''EOF''}"
    by (simp_all add: sample_session_def sample_shell_def)
  note ends = Process_ends [OF cs sample_flags_ok sample_lib_ok sample_world_ok(3,2) this, of 0 False 0]
  show ?thesis using ends lines ex safe by simp blast
qed

section \<open>Answers\<close>

text \<open>The rules of the configuration a line can match, what the recording has of a shell, and what it means
  that a line was answered with a text: it is written with a line break, and recorded, after the
  prompt with the line as input (and its echo). A silent line does neither.\<close>

abbreviation denied :: "conf \<Rightarrow> string \<Rightarrow> bool" where
  "denied c line \<equiv> list_ex (matches2 line) (cc_PermissionDenied (c_Commands c))"

abbreviation disk_error :: "conf \<Rightarrow> string \<Rightarrow> bool" where
  "disk_error c line \<equiv> list_ex (matches2 line) (cc_DiskError (c_Commands c))"

abbreviation no_command :: "conf \<Rightarrow> string \<Rightarrow> bool" where
  "no_command c line \<equiv> list_ex (matches2 line) (cc_CommandNotFound (c_Commands c))"

abbreviation no_file :: "conf \<Rightarrow> string \<Rightarrow> bool" where
  "no_file c line \<equiv> list_ex (matches2 line) (cc_FileNotFound (c_Commands c))"

abbreviation no_function :: "conf \<Rightarrow> string \<Rightarrow> bool" where
  "no_function c line \<equiv> list_ex (matches1 line) (cc_NotImplemented (c_Commands c))"

abbreviation nonsense :: "conf \<Rightarrow> string \<Rightarrow> bool" where
  "nonsense c line \<equiv> list_ex (matches1 line) (cc_Bullshit (c_Commands c))"

definition tape :: "shell \<Rightarrow> (string \<times> string) list" where
  "tape sh = map (\<lambda>e. (ev_Type e, ev_Data e)) (ca_EventStream (fss_recording (sh_stats sh)))"

definition silent :: "shell \<Rightarrow> shell \<Rightarrow> bool" where
  "silent sh sh' \<longleftrightarrow> sh_writer sh' = sh_writer sh \<and> tape sh' = tape sh"

definition answered :: "string \<Rightarrow> string \<Rightarrow> shell \<Rightarrow> shell \<Rightarrow> bool" where
  "answered line out sh sh' \<longleftrightarrow>
     sw_w (sh_writer sh') = sw_w (sh_writer sh) @ out @ [newline] \<and>
     tape sh' = tape sh @
       [(''i'', sh_prompt sh @ line @ [CHR 0x0D]), (''o'', sh_prompt sh @ line @ output_end),
        (''o'', out @ output_end)]"

text \<open>No template for the word can be run, whatever the data.\<close>

definition no_template :: "shell_lib \<Rightarrow> conf \<Rightarrow> fsys \<Rightarrow> string \<Rightarrow> bool" where
  "no_template lib c d word \<longleftrightarrow> (\<forall>data. snd (ParseTemplate (sl_engine lib) c d word data) \<noteq> None)"

lemma no_template_answer:
  "no_template lib c d word \<Longrightarrow> ParseTemplateToString (sl_engine lib) c d word data = word @ '': command not found''"
proof -
  assume "no_template lib c d word"
  then have "snd (ParseTemplate (sl_engine lib) c d word data) \<noteq> None" by (simp add: no_template_def)
  then obtain out e where "ParseTemplate (sl_engine lib) c d word data = (out, Some e)"
    by (cases "ParseTemplate (sl_engine lib) c d word data") auto
  then show ?thesis by (simp add: ParseTemplateToString_def)
qed

lemma RecordExec_answered: "answered line out sh (RecordExec lib line out sh)"
  by (simp add: answered_def tape_def RecordExec_def record_output_def record_input_def on_writer_def
      sw_WriteLn_def sw_Write_def AddOutputEvent_def AddInputEvent_def addEvent_stream)

lemma answered_frame:
  "answered line out (before_line l sh) (sh'\<lparr>sh_tick := n\<rparr>) = answered line out sh sh'"
  "silent (before_line l sh) (sh'\<lparr>sh_tick := n\<rparr>) = silent sh sh'"
  by (simp_all add: answered_def silent_def tape_def before_line_def AddCommandToHistory_def)

lemma canned_answers:
  assumes "engine_ok (sl_engine lib)"
  shows "ParseTemplateFromString (sl_engine lib) ''{{ .Command }}: permission denied'' data =
      Trim (td_Command data @ '': permission denied'') blanks"
    "ParseTemplateFromString (sl_engine lib) ''{{ .Command }}: command not found'' data =
      Trim (td_Command data @ '': command not found'') blanks"
    "ParseTemplateFromString (sl_engine lib) ''{{ .Command }}: Function not implemented'' data =
      Trim (td_Command data @ '': Function not implemented'') blanks"
    "ParseTemplateFromString (sl_engine lib) ([CHR 0x22] @ ''{{ .Command }}'' @ [CHR 0x22] @
        '': No such file or directory (os error 2)'') data =
      Trim ([CHR 0x22] @ td_Command data @ [CHR 0x22] @ '': No such file or directory (os error 2)'') blanks"
  using ParseTemplateFromString_command [OF assms, of "[]" "'': permission denied''" data]
    ParseTemplateFromString_command [OF assms, of "[]" "'': command not found''" data]
    ParseTemplateFromString_command [OF assms, of "[]" "'': Function not implemented''" data]
    ParseTemplateFromString_command [OF assms, of "[CHR 0x22]"
      "[CHR 0x22] @ '': No such file or directory (os error 2)''" data]
  by simp_all

lemma Exec_frame:
  assumes "Exec lib c afs a line0 (sh, o0) = (r, sh', o')"
  shows "\<exists>s sh2. run_line lib c afs (env_strip line0) s (before_line line0 sh) (o_disk o0) =
      (r, sh2, o_disk o') \<and> sh' = sh2\<lparr>sh_tick := Suc (sh_tick sh2)\<rparr> \<and>
    s_User s = s_User (o_session a o0)"
proof -
  let ?s = "o_session a (with_sess (UpdateActivity (sl_clk lib (sh_tick sh)) a) o0)"
  obtain r2 sh2 d where x: "run_line lib c afs (env_strip line0) ?s (before_line line0 sh) (o_disk o0) =
      (r2, sh2, d)" by (metis prod_cases3)
  from Exec_eq [OF this] assms have "r2 = r" "sh' = sh2\<lparr>sh_tick := Suc (sh_tick sh2)\<rparr>" "o_disk o' = d"
    by (simp_all add: with_sess_def)
  moreover have "s_User ?s = s_User (o_session a o0)"
    by (auto simp: with_sess_def UpdateActivity_def upd_def sess_def nth_upd)
  ultimately show ?thesis using x by blast
qed

lemma decide_rules:
  assumes "TrimSpace line \<noteq> []" and "\<not> list_ex (matches2 line) (cc_Exit (c_Commands c))"
    and "simple_answer (cc_Simple (c_Commands c)) line = Inr None"
  shows "decide (c_Commands c) line = Inr
    (if denied c line then Answer ''{{ .Command }}: permission denied''
     else if disk_error c line then DiskErrorAnswer
     else if no_command c line then Answer ''{{ .Command }}: command not found''
     else if no_file c line then Answer ([CHR 0x22] @ ''{{ .Command }}'' @ [CHR 0x22] @
       '': No such file or directory (os error 2)'')
     else if no_function c line then Answer ''{{ .Command }}: Function not implemented''
     else if nonsense c line then Garbage
     else if gm_has (first_word line) CmdLookup then GoCommand (first_word line)
     else FromTemplate)"
  using assms by (simp add: decide_def bind_res_def)

text \<open>C16. What a line gets as answer. Blank lines get none. An exit command is answered and ends the
  shell. Otherwise, when no simple command matches, the first matching rule decides: permission
  denied, disk error, command not found, file not found, not implemented, garbage. The canned answers
  name the first word of the line after its environment assignment is removed. Without a rule:
  a built-in command runs, on the trimmed line, when no command template can be run for the word; a
  word that is no built-in command is answered by its template, executed on the data of the line and
  the session, and by command not found when there is none that can be run. Answers are written and
  recorded with the prompt and the line; only built-in commands touch the disk.\<close>

theorem Exec_answers:
  fixes c line0
  defines "line \<equiv> env_strip line0"
  defines "word \<equiv> hd (Split (CHR '' '') (env_strip line0))"
  assumes "engine_ok (sl_engine lib)" and "Exec lib c afs a line0 (sh, o0) = (r, sh', o')"
  shows "(TrimSpace line = [] \<longrightarrow> r = Inr False \<and> silent sh sh' \<and> o_disk o' = o_disk o0) \<and>
    (TrimSpace line \<noteq> [] \<longrightarrow> list_ex (matches2 line) (cc_Exit (c_Commands c)) \<longrightarrow>
       r = Inr True \<and> (\<exists>out. answered line out sh sh') \<and> o_disk o' = o_disk o0) \<and>
    (TrimSpace line \<noteq> [] \<longrightarrow> \<not> list_ex (matches2 line) (cc_Exit (c_Commands c)) \<longrightarrow>
     simple_answer (cc_Simple (c_Commands c)) line = Inr None \<longrightarrow>
       (if denied c line then r = Inr False \<and> o_disk o' = o_disk o0 \<and>
          answered line (Trim (word @ '': permission denied'') blanks) sh sh'
        else if disk_error c line then r = Inr False \<and> o_disk o' = o_disk o0 \<and>
          (\<exists>out. answered line out sh sh')
        else if no_command c line then r = Inr False \<and> o_disk o' = o_disk o0 \<and>
          answered line (Trim (word @ '': command not found'') blanks) sh sh'
        else if no_file c line then r = Inr False \<and> o_disk o' = o_disk o0 \<and>
          answered line (Trim ([CHR 0x22] @ word @ [CHR 0x22] @
            '': No such file or directory (os error 2)'') blanks) sh sh'
        else if no_function c line then r = Inr False \<and> o_disk o' = o_disk o0 \<and>
          answered line (Trim (word @ '': Function not implemented'') blanks) sh sh'
        else if nonsense c line then r = Inr False \<and> o_disk o' = o_disk o0 \<and>
          (\<exists>out. answered line out sh sh')
        else (case gm_get (first_word line) CmdLookup of
          Some f \<Rightarrow> no_template lib c (o_disk o0) word \<longrightarrow>
            (\<exists>sh2. f lib c afs (TrimSpace line) (before_line line0 sh) (o_disk o0) =
               (r, sh2, o_disk o') \<and> sh' = sh2\<lparr>sh_tick := Suc (sh_tick sh2)\<rparr>)
        | None \<Rightarrow> r = Inr False \<and> o_disk o' = o_disk o0 \<and>
            answered line (ParseTemplateToString (sl_engine lib) c (o_disk o0) word
              (line_data c sh (o_session a o0) line)) sh sh' \<and>
            (no_template lib c (o_disk o0) word \<longrightarrow>
               answered line (word @ '': command not found'') sh sh'))))"
    (is "_ \<and> _ \<and> (_ \<longrightarrow> _ \<longrightarrow> _ \<longrightarrow> ?Rules)")
proof -
  obtain s sh2 where x: "run_line lib c afs line s (before_line line0 sh) (o_disk o0) = (r, sh2, o_disk o')"
    and sh': "sh' = sh2\<lparr>sh_tick := Suc (sh_tick sh2)\<rparr>" and u: "s_User s = s_User (o_session a o0)"
    using Exec_frame [OF assms(4)] unfolding line_def by blast
  have cmd: "td_Command (line_data c b s line) = word" for b
    by (simp add: line_data_def Let_def word_def line_def)
  have data: "line_data c (before_line line0 sh) s line = line_data c sh (o_session a o0) line"
    by (simp add: line_data_def Let_def before_line_def u)
  have cmd': "td_Command (line_data c sh (o_session a o0) line) = word" by (simp add: cmd flip: data)
  have ans: "answered line out sh ((RecordExec lib line out (before_line line0 sh))\<lparr>sh_tick := n\<rparr>)" for out n
    using RecordExec_answered [of line out "before_line line0 sh" lib]
    by (simp add: answered_def tape_def before_line_def AddCommandToHistory_def)
  have "TrimSpace line = [] \<Longrightarrow> r = Inr False \<and> silent sh sh' \<and> o_disk o' = o_disk o0"
    using x decide_nothing [of "c_Commands c" line] unfolding sh' run_line_def
    by (auto simp: silent_def tape_def before_line_def AddCommandToHistory_def)
  moreover have "r = Inr True \<and> (\<exists>out. answered line out sh sh') \<and> o_disk o' = o_disk o0"
    if "TrimSpace line \<noteq> []" "list_ex (matches2 line) (cc_Exit (c_Commands c))"
    using x ans that decide_exit [of "c_Commands c" line] unfolding sh' by (auto simp: run_line_def)
  moreover have "?Rules"
    if "TrimSpace line \<noteq> []" "\<not> list_ex (matches2 line) (cc_Exit (c_Commands c))"
      "simple_answer (cc_Simple (c_Commands c)) line = Inr None"
  proof -
    note p = x [unfolded run_line_def, unfolded decide_rules [OF that], simplified sum.case]
    note simps = canned_answers [OF assms(3), simplified append_Cons append_Nil] cmd sh' no_template_answer gm_has_def
    note out = ans exI [where P = "\<lambda>out. answered line out sh _", OF ans]
    consider "denied c line" | "\<not> denied c line" "disk_error c line"
      | "\<not> denied c line" "\<not> disk_error c line" "no_command c line"
      | "\<not> denied c line" "\<not> disk_error c line" "\<not> no_command c line" "no_file c line"
      | "\<not> denied c line" "\<not> disk_error c line" "\<not> no_command c line" "\<not> no_file c line"
        "no_function c line"
      | "\<not> denied c line" "\<not> disk_error c line" "\<not> no_command c line" "\<not> no_file c line"
        "\<not> no_function c line" "nonsense c line"
      | "\<not> denied c line" "\<not> disk_error c line" "\<not> no_command c line" "\<not> no_file c line"
        "\<not> no_function c line" "\<not> nonsense c line" by blast
    then show ?thesis
    proof cases
      case 7
      show ?thesis
      proof (cases "gm_get (first_word line) CmdLookup")
        case None
        let ?data = "line_data c sh (o_session a o0) line"
        have "r = Inr False" "o_disk o' = o_disk o0"
          "answered line (ParseTemplateToString (sl_engine lib) c (o_disk o0) word ?data) sh sh'"
          using p out None 7 cmd' unfolding data by (auto simp: simps)
        with None 7 show ?thesis by (auto simp: no_template_answer)
      qed (use p 7 in \<open>auto simp: simps\<close>)
    qed (use p out in \<open>auto simp: simps\<close>)
  qed
  ultimately show ?thesis by blast
qed

lemma sample_denied:
  "env_strip ''X=1 sudo id'' = ''sudo id''" "TrimSpace ''sudo id'' \<noteq> []"
  "\<not> list_ex (matches2 ''sudo id'') (cc_Exit (c_Commands sample_conf))"
  "simple_answer (cc_Simple (c_Commands sample_conf)) ''sudo id'' = Inr None" "denied sample_conf ''sudo id''"
  "Trim (hd (Split (CHR '' '') ''sudo id'') @ '': permission denied'') blanks = ''sudo: permission denied''"
  unfolding sample_conf_def sample_commands_def by code_simp+

theorem Exec_answers_witness:
  "\<exists>sh' o'. Exec sample_lib sample_conf (Some sample_fs) 0 ''X=1 sudo id'' (sample_shell [], sample_world) =
      (Inr False, sh', o') \<and>
    sw_w (sh_writer sh') = sw_w (sh_writer (sample_shell [])) @ ''sudo: permission denied'' @ [newline]"
proof -
  obtain r sh' o' where e: "Exec sample_lib sample_conf (Some sample_fs) 0 ''X=1 sudo id''
      (sample_shell [], sample_world) = (r, sh', o')" by (metis prod_cases3)
  show ?thesis
    using Exec_answers [OF sample_engine_ok e] e sample_denied by (simp add: answered_def)
qed

end
