(* ===== verification/Gutils.thy ===== *)
theory Gutils
  imports OSSH_Server
begin

text \<open>
  The helper library \<^verbatim>\<open>github.com/toxyl/gutils\<close> and the JSON decoder are not part of the
  repository. The functions of them that the synchronisation uses are the fields of one record,
  an argument of the definitions that call them. \<open>gutils_ok\<close> states their documented behaviour;
  \<open>sample_gutils\<close> is a concrete instance that satisfies it.
\<close>

record gutils =
  gu_FileExists :: "fsys \<Rightarrow> string \<Rightarrow> bool"
  gu_StringSliceToSha256 :: "string list \<Rightarrow> string"
  gu_ImplodeLines :: "string list \<Rightarrow> string"
  gu_ExplodeLines :: "string \<Rightarrow> string list"
  gu_StringSliceDifference :: "string list \<Rightarrow> string list \<Rightarrow> string list"
  gu_ChunkString :: "string \<Rightarrow> char \<Rightarrow> nat \<Rightarrow> string list list"
  gu_EncodeGzBase64String :: "string \<Rightarrow> string"
  gu_DecodeGzBase64String :: "string \<Rightarrow> string option"
  gu_MaxOfInts :: "int \<Rightarrow> int \<Rightarrow> int"
  gu_SumOfInts :: "int \<Rightarrow> int \<Rightarrow> int"
  gu_SumOfUints :: "uint64 \<Rightarrow> uint64 \<Rightarrow> uint64"
  gu_SumOfFloats :: "rat \<Rightarrow> rat \<Rightarrow> rat"
  gu_jsonStats :: "string \<Rightarrow> node_stats option"

text \<open>The orders in which \<^verbatim>\<open>maps.Keys\<close> returns the keys of the four collections.\<close>

record orders =
  ord_set :: "(string, bool) gomap \<Rightarrow> string list"
  ord_payloads :: "payloads \<Rightarrow> string list"

definition orders_ok :: "orders \<Rightarrow> bool" where
  "orders_ok ord \<longleftrightarrow>
     (\<forall>m. map_order m (ord_set ord m)) \<and> (\<forall>m. map_order m (ord_payloads ord m))"

text \<open>A word of a sync message: trimmed, non-empty, on one line and without blanks.\<close>

definition clean_word :: "string \<Rightarrow> bool" where
  "clean_word w \<longleftrightarrow> w \<noteq> [] \<and> TrimSpace w = w \<and> newline \<notin> set w \<and> CHR '' '' \<notin> set w"

definition codec_ok :: "gutils \<Rightarrow> bool" where
  "codec_ok g \<longleftrightarrow>
     (\<forall>s. gu_DecodeGzBase64String g (gu_EncodeGzBase64String g s) = Some s) \<and>
     (\<forall>s. s \<noteq> [] \<longrightarrow> gu_EncodeGzBase64String g s \<noteq> []) \<and>
     (\<forall>s. TrimSpace (gu_EncodeGzBase64String g s) = gu_EncodeGzBase64String g s \<and>
          newline \<notin> set (gu_EncodeGzBase64String g s))"

definition lists_ok :: "gutils \<Rightarrow> bool" where
  "lists_ok g \<longleftrightarrow>
     (\<forall>xs. (\<forall>x \<in> set xs. x \<noteq> [] \<and> TrimSpace x = x \<and> newline \<notin> set x) \<longrightarrow>
        set (gu_ExplodeLines g (TrimSpace (gu_ImplodeLines g xs))) - {[]} = set xs) \<and>
     (\<forall>xs ys. set (gu_StringSliceDifference g xs ys) = set xs - set ys) \<and>
     (\<forall>s c n. 0 < n \<longrightarrow> concat (gu_ChunkString g s c n) = Split c s)"

definition sums_ok :: "gutils \<Rightarrow> bool" where
  "sums_ok g \<longleftrightarrow>
     gu_MaxOfInts g = max \<and> gu_SumOfInts g = (\<lambda>a b. wrap64 (a + b)) \<and>
     gu_SumOfUints g = (+) \<and> gu_SumOfFloats g = (+)"

definition gutils_ok :: "gutils \<Rightarrow> bool" where
  "gutils_ok g \<longleftrightarrow>
     file_exists_ok (gu_FileExists g) \<and> codec_ok g \<and> lists_ok g \<and> sums_ok g"

section \<open>A concrete instance\<close>

definition sample_gutils :: gutils where
  "sample_gutils =
     \<lparr>gu_FileExists = sample_file_exists,
      gu_StringSliceToSha256 = (\<lambda>xs. b64_encode (concat (map (\<lambda>x. x @ [newline]) xs))),
      gu_ImplodeLines = Join [newline],
      gu_ExplodeLines = Split newline,
      gu_StringSliceDifference = (\<lambda>xs ys. filter (\<lambda>x. \<not> List.member ys x) xs),
      gu_ChunkString = (\<lambda>s c n. map (\<lambda>x. [x]) (Split c s)),
      gu_EncodeGzBase64String = b64_encode,
      gu_DecodeGzBase64String = b64_decode,
      gu_MaxOfInts = max,
      gu_SumOfInts = (\<lambda>a b. wrap64 (a + b)),
      gu_SumOfUints = (+),
      gu_SumOfFloats = (+),
      gu_jsonStats = (\<lambda>s. None)\<rparr>"

definition sample_orders :: orders where
  "sample_orders = \<lparr>ord_set = gm_keys, ord_payloads = gm_keys\<rparr>"

lemma sample_orders_ok: "orders_ok sample_orders"
  by (simp add: orders_ok_def sample_orders_def map_order_keys)

lemma TrimSpace_ends:
  assumes "TrimSpace x = x" and "x \<noteq> []"
  shows "strip_one space_runes x = None" and "strip_one (map rev space_runes) (rev x) = None"
proof -
  have "length (strip_all space_runes x) \<le> length x"
    using strip_all_suffix [of space_runes x] by (rule suffix_length_le)
  moreover have "length x \<le> length (strip_all space_runes x)"
    using assms(1) suffix_length_le [OF strip_all_suffix [of "map rev space_runes"
        "rev (strip_all space_runes x)"]]
    by (metis TrimSpace_def length_rev)
  ultimately have e: "strip_all space_runes x = x"
    using strip_all_suffix [of space_runes x] by (metis suffix_def append_eq_conv_conj
        append_self_conv2 le_antisym length_append add_cancel_right_left length_0_conv)
  then show "strip_one space_runes x = None" using strip_all_None by metis
  have "strip_all (map rev space_runes) (rev x) = rev x"
    using assms(1) e by (metis TrimSpace_def rev_rev_ident)
  then show "strip_one (map rev space_runes) (rev x) = None" using strip_all_None by metis
qed

text \<open>A text that starts like a trimmed word and ends, after a separator byte that is itself a one-byte
  space, like a trimmed word is trimmed.\<close>

lemma strip_one_sep:
  assumes "strip_one ws x = None" and "x \<noteq> []" and "\<forall>w \<in> set ws. c \<in> set w \<longrightarrow> w = [c]"
  shows "strip_one ws (x @ c # y) = None"
  unfolding strip_one_None_iff
proof (intro ballI impI notI)
  fix w assume w: "w \<in> set ws" "w \<noteq> []" and p: "prefix w (x @ c # y)"
  show False
  proof (cases "length w \<le> length x")
    case True
    then have "prefix w x" using p by (metis prefix_same_cases prefixI prefix_length_prefix)
    with assms(1) w show False unfolding strip_one_None_iff by blast
  next
    case False
    then have "prefix (x @ [c]) w"
      using p by (metis Suc_leI append.assoc append_Cons append_Nil length_append_singleton
          not_le prefixI prefix_length_prefix)
    then have "c \<in> set w" by (auto simp: prefix_def)
    with assms(3) w(1) have "w = [c]" by blast
    with False assms(2) show False by (cases x) simp_all
  qed
qed

lemma one_byte_spaces:
  "c \<in> {CHR '' '', newline} \<Longrightarrow> \<forall>w \<in> set space_runes. c \<in> set w \<longrightarrow> w = [c]"
  "c \<in> {CHR '' '', newline} \<Longrightarrow> \<forall>w \<in> set (map rev space_runes). c \<in> set w \<longrightarrow> w = [c]"
  by (auto simp: space_runes_def newline_def)

lemma TrimSpace_sep:
  assumes "TrimSpace x = x" "x \<noteq> []" "TrimSpace y = y" "y \<noteq> []" and "c \<in> {CHR '' '', newline}"
    and that: "m = [] \<or> last m = c"
  shows "TrimSpace (x @ c # m @ y) = x @ c # m @ y"
proof -
  have "strip_one space_runes (x @ c # m @ y) = None"
    using assms one_byte_spaces by (intro strip_one_sep TrimSpace_ends) auto
  moreover have "strip_one (map rev space_runes) (rev (x @ c # m @ y)) = None"
  proof (cases "m = []")
    case True
    then have "rev (x @ c # m @ y) = rev y @ c # rev x" by simp
    then show ?thesis
      using assms one_byte_spaces by (simp add: strip_one_sep TrimSpace_ends)
  next
    case False
    with that obtain m' where "m = m' @ [c]" by (metis append_butlast_last_id)
    then have "rev (x @ c # m @ y) = rev y @ c # rev m' @ c # rev x" by simp
    then show ?thesis
      using assms one_byte_spaces by (simp add: strip_one_sep TrimSpace_ends)
  qed
  ultimately show ?thesis by (simp add: TrimSpace_def strip_all_fix)
qed

lemma Join_last:
  assumes "zs \<noteq> []" and "\<forall>x \<in> set zs. x \<noteq> [] \<and> TrimSpace x = x"
  shows "\<exists>m z. Join [c] zs = m @ z \<and> (m = [] \<or> last m = c) \<and> z \<noteq> [] \<and> TrimSpace z = z"
  using assms
proof (induction zs)
  case (Cons z zs)
  show ?case
  proof (cases "zs = []")
    case True
    with Cons.prems show ?thesis by (intro exI [of _ "[]"] exI [of _ z]) simp
  next
    case False
    with Cons obtain m w where "Join [c] zs = m @ w" "m = [] \<or> last m = c" "w \<noteq> []" "TrimSpace w = w"
      by auto
    with False show ?thesis
      by (intro exI [of _ "z @ c # m"] exI [of _ w]) (auto simp: Join_Cons)
  qed
qed simp

lemma TrimSpace_Join:
  assumes "\<forall>x \<in> set xs. x \<noteq> [] \<and> TrimSpace x = x" and "c \<in> {CHR '' '', newline}"
  shows "TrimSpace (Join [c] xs) = Join [c] xs"
proof (cases xs)
  case (Cons x ys)
  show ?thesis
  proof (cases "ys = []")
    case True
    with Cons assms(1) show ?thesis by simp
  next
    case False
    with assms(1) Cons obtain m z where "Join [c] ys = m @ z" "m = [] \<or> last m = c" "z \<noteq> []"
      "TrimSpace z = z"
      using Join_last [of ys c] by auto
    with False Cons assms show ?thesis by (simp add: Join_Cons TrimSpace_sep)
  qed
qed simp

lemma sample_gutils_ok: "gutils_ok sample_gutils"
proof -
  have "newline \<notin> set b64_alphabet" unfolding b64_alphabet_def newline_def by code_simp
  then have "newline \<notin> set (b64_encode s)" for s using b64_encode_alphabet [of s] by auto
  then have "codec_ok sample_gutils"
    by (simp add: codec_ok_def sample_gutils_def b64_roundtrip TrimSpace_b64)
  moreover have "lists_ok sample_gutils"
    unfolding lists_ok_def
  proof (intro conjI allI impI)
    fix xs :: "string list"
    assume x: "\<forall>x \<in> set xs. x \<noteq> [] \<and> TrimSpace x = x \<and> newline \<notin> set x"
    then have t: "TrimSpace (Join [newline] xs) = Join [newline] xs" by (intro TrimSpace_Join) auto
    show "set (gu_ExplodeLines sample_gutils (TrimSpace (gu_ImplodeLines sample_gutils xs))) - {[]} = set xs"
    proof (cases "xs = []")
      case True
      then show ?thesis by (simp add: sample_gutils_def)
    next
      case False
      with x t show ?thesis by (auto simp: sample_gutils_def Split_Join)
    qed
  next
    fix s c and n :: nat
    have "concat (map (\<lambda>x. [x]) xs) = xs" for xs :: "string list" by (induction xs) auto
    then show "concat (gu_ChunkString sample_gutils s c n) = Split c s" by (simp add: sample_gutils_def)
  qed (auto simp: sample_gutils_def)
  ultimately show ?thesis
    using sample_file_exists_ok by (simp add: gutils_ok_def sums_ok_def sample_gutils_def)
qed

end
