(* ===== verification/Sync_Client.thy ===== *)
theory Sync_Client
  imports Gutils
begin

text \<open>
  \<^verbatim>\<open>sync_client.go\<close>: the client side of the synchronisation. The network is a parameter: a
  \<open>net\<close> says whether a peer can be dialled, what text it answers to a line (up to a newline or
  the end of the connection), and what the closing line does; \<open>'w\<close> is the state of the world
  behind it, in which the peers live. Log output is left out.
\<close>

record 'w net =
  net_dial :: "string \<Rightarrow> 'w \<Rightarrow> string option"
  net_send :: "string \<Rightarrow> string \<Rightarrow> 'w \<Rightarrow> (string + string) \<times> 'w"
  net_bye :: "string \<Rightarrow> string \<Rightarrow> 'w \<Rightarrow> 'w"

record sync_client =
  sc_Host :: string
  sc_Port :: int
  sc_connected :: bool

definition ExitCommand :: string where
  "ExitCommand = ''exit''"

definition NewSyncClient :: "string \<Rightarrow> int \<Rightarrow> sync_client" where
  "NewSyncClient host port = \<lparr>sc_Host = host, sc_Port = port, sc_connected = False\<rparr>"

definition sc_ID :: "sync_client \<Rightarrow> string" where
  "sc_ID sc = host_port (sc_Host sc) (sc_Port sc)"

text \<open>\<^verbatim>\<open>connect\<close>: the errors of \<^verbatim>\<open>net.DialTimeout\<close> it renames.\<close>

definition connect_error :: "string \<Rightarrow> string" where
  "connect_error e =
     (if Contains e ''connect: connection refused'' then ''connection refused''
      else if Contains e ''connect: connection timed out'' then ''timed out''
      else if Contains e ''connect: no route to host'' \<or> Contains e ''i/o timeout'' then ''unreachable''
      else e)"

definition sc_connect :: "'w net \<Rightarrow> sync_client \<Rightarrow> 'w \<Rightarrow> string option \<times> sync_client" where
  "sc_connect n sc w =
     (case net_dial n (sc_ID sc) w of
        Some e \<Rightarrow> (Some (connect_error e), sc)
      | None \<Rightarrow> (None, sc\<lparr>sc_connected := True\<rparr>))"

text \<open>The line that \<^verbatim>\<open>write\<close> sends.\<close>

definition sc_line :: "gutils \<Rightarrow> string \<Rightarrow> string" where
  "sc_line g msg = gu_EncodeGzBase64String g (TrimSpace msg)"

definition sc_disconnect :: "gutils \<Rightarrow> 'w net \<Rightarrow> sync_client \<Rightarrow> 'w \<Rightarrow> 'w" where
  "sc_disconnect g n sc w =
     (if sc_connected sc then net_bye n (sc_ID sc) (sc_line g ExitCommand) w else w)"

definition sc_read :: "gutils \<Rightarrow> string \<Rightarrow> string + string" where
  "sc_read g resp =
     (let resp = TrimSpace resp
      in if resp = [] then Inr []
         else case gu_DecodeGzBase64String g resp of
                None \<Rightarrow> Inl ''Decoding failed'' | Some s \<Rightarrow> Inr s)"

definition sc_Exec ::
  "gutils \<Rightarrow> 'w net \<Rightarrow> string \<Rightarrow> sync_client \<times> 'w \<Rightarrow> (string + string) \<times> sync_client \<times> 'w" where
  "sc_Exec g n cmd = (\<lambda>(sc, w).
     (case sc_connect n sc w of
        (Some e, sc) \<Rightarrow> (Inl e, sc, sc_disconnect g n sc w)
      | (None, sc) \<Rightarrow>
          (case net_send n (sc_ID sc) (sc_line g cmd) w of
             (Inl e, w) \<Rightarrow> (Inl e, sc, sc_disconnect g n sc w)
           | (Inr resp, w) \<Rightarrow> (sc_read g resp, sc, sc_disconnect g n sc w))))"

definition AddChunked ::
  "gutils \<Rightarrow> 'w net \<Rightarrow> string \<Rightarrow> string \<Rightarrow> sync_client \<times> 'w \<Rightarrow> sync_client \<times> 'w" where
  "AddChunked g n section data s =
     fold (\<lambda>chunk s. snd (sc_Exec g n (''ADD-'' @ section @ '' '' @ Join '' '' chunk) s))
       (gu_ChunkString g data (CHR '' '') 5000) s"

definition sc_AddHosts :: "gutils \<Rightarrow> 'w net \<Rightarrow> string \<Rightarrow> sync_client \<times> 'w \<Rightarrow> sync_client \<times> 'w" where
  "sc_AddHosts g n = AddChunked g n ''HOST''"

definition sc_AddUsers :: "gutils \<Rightarrow> 'w net \<Rightarrow> string \<Rightarrow> sync_client \<times> 'w \<Rightarrow> sync_client \<times> 'w" where
  "sc_AddUsers g n = AddChunked g n ''USER''"

definition sc_AddPasswords :: "gutils \<Rightarrow> 'w net \<Rightarrow> string \<Rightarrow> sync_client \<times> 'w \<Rightarrow> sync_client \<times> 'w" where
  "sc_AddPasswords g n = AddChunked g n ''PASSWORD''"

text \<open>\<open>l\<close> and \<open>d\<close> are the loot and the disk of the sending node.\<close>

definition sc_send_payload ::
  "gutils \<Rightarrow> 'w net \<Rightarrow> loot \<Rightarrow> fsys \<Rightarrow> string \<Rightarrow> sync_client \<times> 'w \<Rightarrow> sync_client \<times> 'w" where
  "sc_send_payload g n l d fp0 s =
     (let fp = TrimSpace fp0
      in if fp = [] then s
         else if \<not> Payloads_Has fp (payloads l) then s
         else case Payloads_Get fp (payloads l) of
                Inl e \<Rightarrow> s
              | Inr pl \<Rightarrow>
                  if payload_Exists (gu_FileExists g) d pl
                  then let penc = EncodeToString (gu_FileExists g) d pl
                       in if TrimSpace penc = [] then s
                          else snd (sc_Exec g n (''ADD-PAYLOAD '' @ p_hash pl @ '' '' @ penc) s)
                  else s)"

definition sc_AddPayload ::
  "gutils \<Rightarrow> 'w net \<Rightarrow> loot \<Rightarrow> fsys \<Rightarrow> string \<Rightarrow> sync_client \<times> 'w \<Rightarrow> sync_client \<times> 'w" where
  "sc_AddPayload g n l d fingerprint s =
     fold (sc_send_payload g n l d) (Split (CHR '' '') fingerprint) s"

definition SyncData ::
  "gutils \<Rightarrow> 'w net \<Rightarrow> string \<Rightarrow> string list \<Rightarrow>
   (string \<Rightarrow> sync_client \<times> 'w \<Rightarrow> sync_client \<times> 'w) \<Rightarrow> sync_client \<times> 'w \<Rightarrow> sync_client \<times> 'w" where
  "SyncData g n cmd mine fnAddRemote s =
     (case sc_Exec g n cmd s of
        (Inl e, s) \<Rightarrow> s
      | (Inr res, s) \<Rightarrow>
          fnAddRemote (Join '' '' (gu_StringSliceDifference g mine (gu_ExplodeLines g res))) s)"

end
