(* ===== verification/Sync_Nodes.thy ===== *)
theory Sync_Nodes
  imports Sync_Client
begin

text \<open>
  \<^verbatim>\<open>sync_nodes.go\<close>: the registry of peers, their clients and their reported statistics, and the
  cluster totals. A statistics entry is nil when the reported JSON could not be decoded. An
  operation that ranges over a map takes the visiting order.
\<close>

record sync_nodes =
  n_nodes :: "(string, sync_node) gomap"
  n_stats :: "(string, node_stats option) gomap"
  n_clients :: "(string, sync_client) gomap"

definition NewSyncNodes :: sync_nodes where
  "NewSyncNodes = \<lparr>n_nodes = gm_empty, n_stats = gm_empty, n_clients = gm_empty\<rparr>"

definition HasClient :: "string \<Rightarrow> sync_nodes \<Rightarrow> bool" where
  "HasClient i sn = gm_has i (n_clients sn)"

definition GetClient :: "string \<Rightarrow> sync_nodes \<Rightarrow> string + sync_client" where
  "GetClient i sn =
     (case gm_get i (n_clients sn) of None \<Rightarrow> Inl ''Client not found'' | Some sc \<Rightarrow> Inr sc)"

definition AddClient :: "sync_client \<Rightarrow> sync_nodes \<Rightarrow> sync_nodes" where
  "AddClient sc sn =
     (if HasClient (sc_ID sc) sn then sn
      else sn\<lparr>n_clients := gm_put (sc_ID sc) sc (n_clients sn)\<rparr>)"

definition RemoveClient :: "string \<Rightarrow> sync_nodes \<Rightarrow> sync_nodes" where
  "RemoveClient i sn =
     (if \<not> HasClient i sn then sn else sn\<lparr>n_clients := gm_del i (n_clients sn)\<rparr>)"

definition AddStats :: "string \<Rightarrow> node_stats option \<Rightarrow> sync_nodes \<Rightarrow> sync_nodes" where
  "AddStats i st sn = sn\<lparr>n_stats := gm_put i st (n_stats sn)\<rparr>"

definition zero_stats :: node_stats where
  "zero_stats =
     \<lparr>ns_Hosts = 0, ns_Passwords = 0, ns_Users = 0, ns_Payloads = 0, ns_Sessions = 0,
      ns_AttemptedLogins = 0, ns_SuccessfulLogins = 0, ns_FailedLogins = 0,
      ns_TimeWasted = 0, ns_Uptime = 0\<rparr>"

definition add_stats :: "gutils \<Rightarrow> node_stats \<Rightarrow> node_stats \<Rightarrow> node_stats" where
  "add_stats g s tot =
     \<lparr>ns_Hosts = gu_MaxOfInts g (ns_Hosts tot) (ns_Hosts s),
      ns_Passwords = gu_MaxOfInts g (ns_Passwords tot) (ns_Passwords s),
      ns_Users = gu_MaxOfInts g (ns_Users tot) (ns_Users s),
      ns_Payloads = gu_MaxOfInts g (ns_Payloads tot) (ns_Payloads s),
      ns_Sessions = gu_SumOfInts g (ns_Sessions tot) (ns_Sessions s),
      ns_AttemptedLogins = gu_SumOfUints g (ns_AttemptedLogins tot) (ns_AttemptedLogins s),
      ns_SuccessfulLogins = gu_SumOfUints g (ns_SuccessfulLogins tot) (ns_SuccessfulLogins s),
      ns_FailedLogins = gu_SumOfUints g (ns_FailedLogins tot) (ns_FailedLogins s),
      ns_TimeWasted = gu_SumOfFloats g (ns_TimeWasted tot) (ns_TimeWasted s),
      ns_Uptime = gu_SumOfFloats g (ns_Uptime tot) (ns_Uptime s)\<rparr>"

fun total_stats ::
  "gutils \<Rightarrow> (string, node_stats option) gomap \<Rightarrow> string list \<Rightarrow> node_stats \<Rightarrow> go_panic + node_stats" where
  "total_stats g m [] tot = Inr tot"
| "total_stats g m (k # ks) tot =
     (case gm_get k m of
        Some (Some s) \<Rightarrow> total_stats g m ks (add_stats g s tot)
      | _ \<Rightarrow> Inl NilDeref)"

text \<open>\<open>order\<close> chooses the visiting order of the statistics map, the own entry \<open>_\<close> included.\<close>

definition GetStats ::
  "gutils \<Rightarrow> ((string, node_stats option) gomap \<Rightarrow> string list) \<Rightarrow> node_stats \<Rightarrow> sync_nodes \<Rightarrow>
   (go_panic + node_stats) \<times> sync_nodes" where
  "GetStats g order hostStats sn =
     (let m = gm_put ''_'' (Some hostStats) (n_stats sn)
      in (total_stats g m (order m) zero_stats, sn\<lparr>n_stats := m\<rparr>))"

definition Nodes_Has :: "string \<Rightarrow> sync_nodes \<Rightarrow> bool" where
  "Nodes_Has host sn = gm_has host (n_nodes sn)"

definition IsAllowedHost :: "string \<Rightarrow> sync_nodes \<Rightarrow> bool" where
  "IsAllowedHost host sn = list_ex (\<lambda>(i, sc). sc_Host sc = host) (n_clients sn)"

definition Nodes_Add :: "string \<Rightarrow> sync_node option \<Rightarrow> sync_nodes \<Rightarrow> sync_nodes" where
  "Nodes_Add host node sn =
     (case node of
        None \<Rightarrow> sn
      | Some nd \<Rightarrow> (if Nodes_Has host sn then sn else sn\<lparr>n_nodes := gm_put host nd (n_nodes sn)\<rparr>))"

definition Nodes_Get :: "string \<Rightarrow> sync_nodes \<Rightarrow> string + sync_node" where
  "Nodes_Get host sn =
     (case gm_get host (n_nodes sn) of None \<Rightarrow> Inl ''Node not found'' | Some nd \<Rightarrow> Inr nd)"

text \<open>\<^verbatim>\<open>ExecBroadcast\<close> and \<^verbatim>\<open>Exec\<close> visit the clients in the order \<open>ks\<close>; running a command marks the
  client as connected.\<close>

fun ExecBroadcast ::
  "gutils \<Rightarrow> 'w net \<Rightarrow> string \<Rightarrow> string list \<Rightarrow> sync_nodes \<times> 'w \<Rightarrow>
   (string, string) gomap \<times> sync_nodes \<times> 'w" where
  "ExecBroadcast g n cmd [] s = (gm_empty, s)"
| "ExecBroadcast g n cmd (k # ks) (sn, w) =
     (case gm_get k (n_clients sn) of
        None \<Rightarrow> ExecBroadcast g n cmd ks (sn, w)
      | Some sc \<Rightarrow>
          (case sc_Exec g n cmd (sc, w) of (r, sc', w') \<Rightarrow>
             (case ExecBroadcast g n cmd ks (sn\<lparr>n_clients := gm_put k sc' (n_clients sn)\<rparr>, w') of
                (res, s') \<Rightarrow>
                  (case r of
                     Inl e \<Rightarrow> (res, s')
                   | Inr t \<Rightarrow> (if TrimSpace t \<noteq> [] then gm_put (sc_ID sc) t res else res, s')))))"

fun Nodes_Exec ::
  "gutils \<Rightarrow> 'w net \<Rightarrow> string \<Rightarrow> string list \<Rightarrow> sync_nodes \<times> 'w \<Rightarrow> string \<times> sync_nodes \<times> 'w" where
  "Nodes_Exec g n cmd [] s = ([], s)"
| "Nodes_Exec g n cmd (k # ks) (sn, w) =
     (case gm_get k (n_clients sn) of
        None \<Rightarrow> Nodes_Exec g n cmd ks (sn, w)
      | Some sc \<Rightarrow>
          (case sc_Exec g n cmd (sc, w) of (r, sc', w') \<Rightarrow>
             (let sn' = sn\<lparr>n_clients := gm_put k sc' (n_clients sn)\<rparr>
              in case r of
                   Inr t \<Rightarrow> (if TrimSpace t \<noteq> [] then (t, sn', w') else Nodes_Exec g n cmd ks (sn', w'))
                 | Inl e \<Rightarrow> Nodes_Exec g n cmd ks (sn', w'))))"

section \<open>Cluster totals\<close>

definition nodes_inv :: "sync_nodes \<Rightarrow> bool" where
  "nodes_inv sn \<longleftrightarrow> gm_inv (n_nodes sn) \<and> gm_inv (n_stats sn) \<and> gm_inv (n_clients sn) \<and>
     (\<forall>i sc. gm_get i (n_clients sn) = Some sc \<longrightarrow> sc_ID sc = i)"

lemma NewSyncNodes_inv: "nodes_inv NewSyncNodes"
  by (simp add: nodes_inv_def NewSyncNodes_def)

lemma nodes_ops_inv:
  assumes "nodes_inv sn"
  shows "nodes_inv (AddClient sc sn)" "nodes_inv (RemoveClient i sn)" "nodes_inv (AddStats i st sn)"
    "nodes_inv (snd (GetStats g order hs sn))" "nodes_inv (Nodes_Add h nd sn)"
  using assms
  by (auto simp: nodes_inv_def AddClient_def RemoveClient_def AddStats_def GetStats_def
      Nodes_Add_def Let_def gomap_simps split: option.split)

lemma wrap64_add_wrap64: "wrap64 (wrap64 a + b) = wrap64 (a + b)"
proof -
  have "wrap64 a + b + 2 ^ 63 = (a + 2 ^ 63) mod 2 ^ 64 + b" by (simp add: wrap64_def)
  then have "(wrap64 a + b + 2 ^ 63) mod 2 ^ 64 = (a + 2 ^ 63 + b) mod 2 ^ 64"
    by (simp only: mod_add_left_eq)
  also have "a + 2 ^ 63 + b = a + b + 2 ^ 63" by simp
  finally show ?thesis unfolding wrap64_def [of "wrap64 a + b"] wrap64_def [of "a + b"] by simp
qed

lemma wrap64_0 [simp]: "wrap64 0 = 0"
  by (simp add: wrap64_def)

definition stats_of :: "(string, node_stats option) gomap \<Rightarrow> string \<Rightarrow> node_stats" where
  "stats_of m k = (case gm_get k m of Some (Some s) \<Rightarrow> s | _ \<Rightarrow> zero_stats)"

definition has_nil :: "(string, node_stats option) gomap \<Rightarrow> string list \<Rightarrow> bool" where
  "has_nil m ks \<longleftrightarrow> (\<exists>k \<in> set ks. gm_get k m \<notin> range (Some \<circ> Some))"

lemma total_stats_fold:
  "total_stats g m ks t =
     (if has_nil m ks then Inl NilDeref
      else Inr (fold (\<lambda>k. add_stats g (stats_of m k)) ks t))"
proof (induction ks arbitrary: t)
  case Nil
  then show ?case by (simp add: has_nil_def)
next
  case (Cons k ks)
  then show ?case by (auto simp: has_nil_def stats_of_def split: option.splits)
qed

lemma field_fold:
  assumes "\<And>s t. f (add_stats g s t) = h (f t) (f s)"
  shows "f (fold (\<lambda>k. add_stats g (st k)) ks t) = fold (\<lambda>k a. h a (f (st k))) ks (f t)"
  using assms by (induction ks arbitrary: t) simp_all

lemma fold_max: "fold (\<lambda>k a. max a (x k :: int)) ks a = Max (insert a (x ` set ks))"
proof (induction ks arbitrary: a)
  case (Cons k ks)
  have "Max (insert (max a (x k)) (x ` set ks)) = max (max a (x k)) (Max (insert a (x ` set ks)))"
    by (cases "ks = []") (auto simp: max.assoc max.left_commute)
  also have "\<dots> = Max (insert a (x ` set (k # ks)))"
    by (cases "ks = []") (auto simp: max.assoc max.left_commute max.commute)
  finally show ?case using Cons by simp
qed simp

lemma fold_wrap: "fold (\<lambda>k a. wrap64 (a + x k)) ks (wrap64 n) = wrap64 (n + (\<Sum>k\<leftarrow>ks. x k))"
  by (induction ks arbitrary: n) (simp_all add: wrap64_add_wrap64 add.assoc)

lemma fold_plus:
  "distinct ks \<Longrightarrow> fold (\<lambda>k a. a + x k) ks (0::'a::comm_monoid_add) = (\<Sum>k \<in> set ks. x k)"
  using fold_sum [of x ks 0] by (simp add: sum_list_distinct_conv_sum_set)

text \<open>The totals, without an order: maxima of the collected data, sums of the activity.\<close>

definition cluster_totals :: "(string \<Rightarrow> node_stats) \<Rightarrow> string set \<Rightarrow> node_stats" where
  "cluster_totals st K =
     \<lparr>ns_Hosts = Max (insert 0 ((\<lambda>k. ns_Hosts (st k)) ` K)),
      ns_Passwords = Max (insert 0 ((\<lambda>k. ns_Passwords (st k)) ` K)),
      ns_Users = Max (insert 0 ((\<lambda>k. ns_Users (st k)) ` K)),
      ns_Payloads = Max (insert 0 ((\<lambda>k. ns_Payloads (st k)) ` K)),
      ns_Sessions = wrap64 (\<Sum>k \<in> K. ns_Sessions (st k)),
      ns_AttemptedLogins = (\<Sum>k \<in> K. ns_AttemptedLogins (st k)),
      ns_SuccessfulLogins = (\<Sum>k \<in> K. ns_SuccessfulLogins (st k)),
      ns_FailedLogins = (\<Sum>k \<in> K. ns_FailedLogins (st k)),
      ns_TimeWasted = (\<Sum>k \<in> K. ns_TimeWasted (st k)),
      ns_Uptime = (\<Sum>k \<in> K. ns_Uptime (st k))\<rparr>"

lemma fold_totals:
  assumes "sums_ok g" and "distinct ks"
  shows "fold (\<lambda>k. add_stats g (st k)) ks zero_stats = cluster_totals st (set ks)"
    (is "?t = _")
proof (rule node_stats.equality)
  note s = assms(1) [unfolded sums_ok_def]
  have m: "f ?t = Max (insert 0 ((\<lambda>k. f (st k)) ` set ks))"
    if "\<And>s t. f (add_stats g s t) = max (f t) (f s)" "f zero_stats = 0" for f :: "node_stats \<Rightarrow> int"
    unfolding field_fold [of f g max, OF that(1)] that(2) by (rule fold_max)
  have p: "f ?t = (\<Sum>k \<in> set ks. f (st k))"
    if "\<And>s t. f (add_stats g s t) = f t + f s" "f zero_stats = 0"
    for f :: "node_stats \<Rightarrow> 'a::comm_monoid_add"
    unfolding field_fold [of f g "(+)", OF that(1)] that(2) by (rule fold_plus [OF assms(2)])
  have "ns_Sessions ?t = wrap64 (\<Sum>k\<leftarrow>ks. ns_Sessions (st k))"
    using field_fold [of ns_Sessions g "\<lambda>a b. wrap64 (a + b)" st ks zero_stats] s
      fold_wrap [of "\<lambda>k. ns_Sessions (st k)" ks 0]
    by (simp add: add_stats_def zero_stats_def)
  then show "ns_Sessions ?t = ns_Sessions (cluster_totals st (set ks))"
    using assms(2) by (simp add: cluster_totals_def sum_list_distinct_conv_sum_set)
  show "ns_Hosts ?t = ns_Hosts (cluster_totals st (set ks))"
    "ns_Passwords ?t = ns_Passwords (cluster_totals st (set ks))"
    "ns_Users ?t = ns_Users (cluster_totals st (set ks))"
    "ns_Payloads ?t = ns_Payloads (cluster_totals st (set ks))"
    "ns_AttemptedLogins ?t = ns_AttemptedLogins (cluster_totals st (set ks))"
    "ns_SuccessfulLogins ?t = ns_SuccessfulLogins (cluster_totals st (set ks))"
    "ns_FailedLogins ?t = ns_FailedLogins (cluster_totals st (set ks))"
    "ns_TimeWasted ?t = ns_TimeWasted (cluster_totals st (set ks))"
    "ns_Uptime ?t = ns_Uptime (cluster_totals st (set ks))"
    using m [of ns_Hosts] m [of ns_Passwords] m [of ns_Users] m [of ns_Payloads]
      p [of ns_AttemptedLogins] p [of ns_SuccessfulLogins] p [of ns_FailedLogins]
      p [of ns_TimeWasted] p [of ns_Uptime] s
    by (simp_all add: cluster_totals_def add_stats_def zero_stats_def)
qed simp

text \<open>The cluster totals do not depend on the order in which the map is visited: they are the maxima
  of the collected hosts, users, passwords and payloads and the (wrapping) sums of sessions, logins
  and times over all reporting nodes and this one. They cannot be computed, and the broadcast worker
  panics, exactly when some peer's report could not be decoded.\<close>

lemma GetStats_totals:
  assumes "sums_ok g" and "nodes_inv sn" and "\<And>m. map_order m (order m)"
    and "m = gm_put ''_'' (Some hs) (n_stats sn)"
  shows "fst (GetStats g order hs sn) =
    (if \<exists>k. k \<noteq> ''_'' \<and> gm_get k (n_stats sn) = Some None then Inl NilDeref
     else Inr (cluster_totals (stats_of m) {k. gm_has k m}))"
proof -
  have inv: "gm_inv m" using assms(2,4) by (simp add: nodes_inv_def gm.inv_put)
  have st: "set (order m) = {k. gm_has k m}" by (rule map_order_set [OF assms(3)])
  have nil: "has_nil m (order m) \<longleftrightarrow> (\<exists>k. k \<noteq> ''_'' \<and> gm_get k (n_stats sn) = Some None)"
  proof -
    have "gm_get k m \<notin> range (Some \<circ> Some) \<and> gm_has k m \<longleftrightarrow> gm_get k m = Some None" for k
      by (cases "gm_get k m") (auto simp: gm_has_def image_def)
    then have "has_nil m (order m) \<longleftrightarrow> (\<exists>k. gm_get k m = Some None)"
      by (auto simp: has_nil_def st)
    then show ?thesis by (simp add: assms(4) gm.get_put) metis
  qed
  have "GetStats g order hs sn = (total_stats g m (order m) zero_stats, sn\<lparr>n_stats := m\<rparr>)"
    by (simp add: GetStats_def assms(4) Let_def)
  then show ?thesis
    using nil st fold_totals [OF assms(1) map_order_distinct [OF inv assms(3)], of "stats_of m"]
    by (simp add: total_stats_fold)
qed

lemma GetStats_totals_example:
  "fst (GetStats sample_gutils gm_keys (zero_stats\<lparr>ns_Users := 3\<rparr>)
     (AddStats ''10.0.0.2'' None NewSyncNodes)) = Inl NilDeref"
proof -
  have "\<exists>k. k \<noteq> ''_'' \<and> gm_get k (n_stats (AddStats ''10.0.0.2'' None NewSyncNodes)) = Some None"
    by (intro exI [of _ "''10.0.0.2''"]) (simp add: AddStats_def gm.get_put)
  moreover have "sums_ok sample_gutils" using sample_gutils_ok by (simp add: gutils_ok_def)
  ultimately show ?thesis
    using GetStats_totals [OF _ nodes_ops_inv(3) [OF NewSyncNodes_inv] map_order_keys refl,
        of sample_gutils "zero_stats\<lparr>ns_Users := 3\<rparr>" "''10.0.0.2''" None] by simp
qed

end
