(* ===== verification/Sync_Commands.thy ===== *)
theory Sync_Commands
  imports Sync_Nodes
begin

text \<open>
  \<^verbatim>\<open>sync_commands.go\<close>: the commands a peer can run. A command acts on the server object and on the
  registry of nodes (both global in the program) and returns a response or an error. Log output
  is left out.
\<close>

section \<open>State and helpers\<close>

record node_st =
  y_ossh :: ossh
  y_nodes :: sync_nodes

type_synonym sync_command = "string \<Rightarrow> string list \<Rightarrow> node_st \<Rightarrow> (string + string) \<times> node_st"

definition GetHosts :: "orders \<Rightarrow> loot \<Rightarrow> string list" where
  "GetHosts ord l = ord_set ord (hosts l)"

definition GetUsers :: "orders \<Rightarrow> loot \<Rightarrow> string list" where
  "GetUsers ord l = ord_set ord (users l)"

definition GetPasswords :: "orders \<Rightarrow> loot \<Rightarrow> string list" where
  "GetPasswords ord l = ord_set ord (passwords l)"

definition o_GetPayloads :: "gutils \<Rightarrow> orders \<Rightarrow> conf \<Rightarrow> ossh \<Rightarrow> string list" where
  "o_GetPayloads g ord c o1 =
     GetPayloads (gu_FileExists g) c (o_disk o1)
       (Payloads_GetKeys (ord_payloads ord (payloads (o_loot o1))) (payloads (o_loot o1)))"

definition o_Fingerprint :: "gutils \<Rightarrow> orders \<Rightarrow> conf \<Rightarrow> ossh \<Rightarrow> string" where
  "o_Fingerprint g ord c o1 =
     Fingerprint (gu_StringSliceToSha256 g) (GetHosts ord (o_loot o1)) (GetUsers ord (o_loot o1))
       (GetPasswords ord (o_loot o1)) (o_GetPayloads g ord c o1)"

definition o_SaveData :: "gutils \<Rightarrow> orders \<Rightarrow> conf \<Rightarrow> ossh \<Rightarrow> ossh" where
  "o_SaveData g ord c o1 =
     o1\<lparr>o_disk := SaveData (gu_FileExists g) c (GetHosts ord (o_loot o1)) (GetUsers ord (o_loot o1))
          (GetPasswords ord (o_loot o1)) (ord_payloads ord (payloads (o_loot o1))) (o_disk o1)\<rparr>"

section \<open>Commands\<close>

definition cmd_NAME :: "conf \<Rightarrow> sync_command" where
  "cmd_NAME c = (\<lambda>host args st. (Inr (c_HostName c), st))"

definition cmd_SYNC :: "gutils \<Rightarrow> orders \<Rightarrow> conf \<Rightarrow> sync_command" where
  "cmd_SYNC g ord c = (\<lambda>host args st.
     if length args < 1 then (Inl ''need your fingerprint'', st)
     else let fp = args ! 0
          in if fp = [] then (Inl ''need your fingerprint'', st)
             else let fpsrv = o_Fingerprint g ord c (y_ossh st)
                  in if fp = fpsrv then (Inr [], st)
                     else let fpRemote = Split (CHR '':'') fp; fpLocal = Split (CHR '':'') fpsrv
                          in if length fpRemote \<noteq> length fpLocal then (Inr [], st)
                             else if length fpRemote = 0 \<or> length fpLocal = 0 then (Inr [], st)
                             else (Inr (Join '',''
                               ((if fpRemote ! 0 \<noteq> fpLocal ! 0 then [''hosts''] else []) @
                                (if fpRemote ! 1 \<noteq> fpLocal ! 1 then [''users''] else []) @
                                (if fpRemote ! 2 \<noteq> fpLocal ! 2 then [''passwords''] else []) @
                                (if fpRemote ! 3 \<noteq> fpLocal ! 3 then [''payloads''] else []))), st))"

definition cmd_HOSTS :: "gutils \<Rightarrow> orders \<Rightarrow> sync_command" where
  "cmd_HOSTS g ord = (\<lambda>host args st.
     (Inr (gu_ImplodeLines g (GetHosts ord (o_loot (y_ossh st)))), st))"

definition cmd_USERS :: "gutils \<Rightarrow> orders \<Rightarrow> sync_command" where
  "cmd_USERS g ord = (\<lambda>host args st.
     (Inr (gu_ImplodeLines g (GetUsers ord (o_loot (y_ossh st)))), st))"

definition cmd_PASSWORDS :: "gutils \<Rightarrow> orders \<Rightarrow> sync_command" where
  "cmd_PASSWORDS g ord = (\<lambda>host args st.
     (Inr (gu_ImplodeLines g (GetPasswords ord (o_loot (y_ossh st)))), st))"

definition cmd_PAYLOADS :: "gutils \<Rightarrow> orders \<Rightarrow> conf \<Rightarrow> sync_command" where
  "cmd_PAYLOADS g ord c = (\<lambda>host args st.
     (Inr (gu_ImplodeLines g (o_GetPayloads g ord c (y_ossh st))), st))"

text \<open>The three batch commands, which save the data files when something was new.\<close>

definition cmd_add ::
  "gutils \<Rightarrow> orders \<Rightarrow> conf \<Rightarrow> (string list \<Rightarrow> loot_st \<Rightarrow> nat \<times> loot_st) \<Rightarrow> sync_command" where
  "cmd_add g ord c add = (\<lambda>host args st.
     if length args < 1 then (Inr [], st)
     else case with_loot (add args) (y_ossh st) of (added, o1) \<Rightarrow>
            (Inr [], st\<lparr>y_ossh := if added > 0 then o_SaveData g ord c o1 else o1\<rparr>))"

definition cmd_ADD_HOST :: "gutils \<Rightarrow> orders \<Rightarrow> conf \<Rightarrow> sync_command" where
  "cmd_ADD_HOST g ord c = cmd_add g ord c (AddHosts c)"

definition cmd_ADD_USER :: "gutils \<Rightarrow> orders \<Rightarrow> conf \<Rightarrow> sync_command" where
  "cmd_ADD_USER g ord c = cmd_add g ord c AddUsers"

definition cmd_ADD_PASSWORD :: "gutils \<Rightarrow> orders \<Rightarrow> conf \<Rightarrow> sync_command" where
  "cmd_ADD_PASSWORD g ord c = cmd_add g ord c AddPasswords"

definition cmd_ADD_PAYLOAD :: "gutils \<Rightarrow> orders \<Rightarrow> conf \<Rightarrow> sync_command" where
  "cmd_ADD_PAYLOAD g ord c = (\<lambda>host args st.
     if length args < 2 then (Inl ''need fingerprint and data'', st)
     else let hash = args ! 0; data = args ! 1;
              pl = snd (DecodeFromString data (SetHash c hash NewPayload));
              o1 = (y_ossh st)\<lparr>o_disk := payload_Save (gu_FileExists g) pl (o_disk (y_ossh st))\<rparr>
          in if payload_Exists (gu_FileExists g) (o_disk o1) pl
             then (case with_loot (AddPayload c hash) o1 of (added, o2) \<Rightarrow>
                     (Inr [], st\<lparr>y_ossh := if added then o_SaveData g ord c o2 else o2\<rparr>))
             else (Inr [], st\<lparr>y_ossh := o1\<rparr>))"

definition cmd_ADD_STATS :: "gutils \<Rightarrow> sync_command" where
  "cmd_ADD_STATS g = (\<lambda>host args st.
     if length args < 1 then (Inr [], st)
     else (Inr [], st\<lparr>y_nodes := AddStats host (gu_jsonStats g (Join '' '' args)) (y_nodes st)\<rparr>))"

definition sync_commands :: "gutils \<Rightarrow> orders \<Rightarrow> conf \<Rightarrow> (string, sync_command) gomap" where
  "sync_commands g ord c =
     [(''NAME'', cmd_NAME c), (''SYNC'', cmd_SYNC g ord c), (''HOSTS'', cmd_HOSTS g ord),
      (''USERS'', cmd_USERS g ord), (''PASSWORDS'', cmd_PASSWORDS g ord),
      (''PAYLOADS'', cmd_PAYLOADS g ord c), (''ADD-HOST'', cmd_ADD_HOST g ord c),
      (''ADD-USER'', cmd_ADD_USER g ord c), (''ADD-PASSWORD'', cmd_ADD_PASSWORD g ord c),
      (''ADD-PAYLOAD'', cmd_ADD_PAYLOAD g ord c), (''ADD-STATS'', cmd_ADD_STATS g)]"

definition Run :: "gutils \<Rightarrow> orders \<Rightarrow> conf \<Rightarrow> string \<Rightarrow> sync_command" where
  "Run g ord c command host args st =
     (case gm_get command (sync_commands g ord c) of
        Some f \<Rightarrow> f host args st
      | None \<Rightarrow> (Inl ''command not found'', st))"

section \<open>SYNC\<close>

definition sha_ok :: "gutils \<Rightarrow> bool" where
  "sha_ok g \<longleftrightarrow> (\<forall>xs. CHR '':'' \<notin> set (gu_StringSliceToSha256 g xs) \<and>
     CHR '' '' \<notin> set (gu_StringSliceToSha256 g xs))"

definition section_sums :: "gutils \<Rightarrow> orders \<Rightarrow> conf \<Rightarrow> ossh \<Rightarrow> string list" where
  "section_sums g ord c o1 =
     map (gu_StringSliceToSha256 g)
       [GetHosts ord (o_loot o1), GetUsers ord (o_loot o1), GetPasswords ord (o_loot o1),
        o_GetPayloads g ord c o1]"

lemma o_Fingerprint_Join: "o_Fingerprint g ord c o1 = Join '':'' (section_sums g ord c o1)"
  by (simp add: o_Fingerprint_def Fingerprint_def section_sums_def)

lemma Split_Fingerprint:
  "sha_ok g \<Longrightarrow> Split (CHR '':'') (o_Fingerprint g ord c o1) = section_sums g ord c o1"
  unfolding o_Fingerprint_Join by (rule Split_Join) (auto simp: section_sums_def sha_ok_def)

text \<open>C29. Asked to \<^verbatim>\<open>SYNC\<close> with the fingerprint of another node, a node answers with exactly the sections
  (hosts, users, passwords, payloads, in this order) whose checksums differ from its own, changes
  nothing, and never indexes out of range; the answer is empty exactly when all four agree.\<close>

theorem SYNC_lists_differences:
  assumes "sha_ok g" and "fp = o_Fingerprint g ord' c' other"
  shows "cmd_SYNC g ord c host [fp] st =
    (Inr (Join '','' (map fst (filter (\<lambda>(s, r, l). r \<noteq> l)
       (zip [''hosts'', ''users'', ''passwords'', ''payloads'']
         (zip (section_sums g ord' c' other) (section_sums g ord c (y_ossh st))))))), st)"
proof (cases "fp = o_Fingerprint g ord c (y_ossh st)")
  case True
  then have "section_sums g ord' c' other = section_sums g ord c (y_ossh st)"
    using Split_Fingerprint [OF assms(1)] assms(2) by metis
  moreover have "fp \<noteq> []" using assms(2) by (simp add: o_Fingerprint_def Fingerprint_def)
  ultimately show ?thesis using True
    by (simp add: cmd_SYNC_def Let_def section_sums_def)
next
  case False
  moreover have "fp \<noteq> []" using assms(2) by (simp add: o_Fingerprint_def Fingerprint_def)
  moreover have "Split (CHR '':'') fp = section_sums g ord' c' other"
    using Split_Fingerprint [OF assms(1)] assms(2) by simp
  ultimately show ?thesis
    using Split_Fingerprint [OF assms(1), of ord c "y_ossh st"]
    by (simp add: cmd_SYNC_def Let_def) (simp add: section_sums_def)
qed

definition sample_node :: node_st where
  "sample_node = \<lparr>y_ossh = sample_ossh\<lparr>o_disk := sample_disk\<rparr>, y_nodes = NewSyncNodes\<rparr>"

definition with_users :: "string list \<Rightarrow> ossh \<Rightarrow> ossh" where
  "with_users us o1 = o1\<lparr>o_loot := (o_loot o1)\<lparr>users := map (\<lambda>u. (u, True)) us\<rparr>\<rparr>"

lemma sample_sha_ok: "sha_ok sample_gutils"
proof -
  have "CHR '':'' \<notin> set b64_alphabet \<and> CHR '' '' \<notin> set b64_alphabet"
    unfolding b64_alphabet_def by code_simp
  then show ?thesis using b64_encode_alphabet by (fastforce simp: sha_ok_def sample_gutils_def)
qed

theorem SYNC_lists_differences_witness:
  "cmd_SYNC sample_gutils sample_orders sample_conf ''10.0.0.2''
     [o_Fingerprint sample_gutils sample_orders sample_conf (with_users [''root''] sample_ossh)] sample_node =
   (Inr ''users'', sample_node)"
proof -
  have e: "section_sums sample_gutils sample_orders sample_conf (y_ossh sample_node) = [[], [], [], []]"
    and r: "section_sums sample_gutils sample_orders sample_conf (with_users [''root''] sample_ossh) =
      [[], b64_encode (''root'' @ [newline]), [], []]"
    by (simp_all add: section_sums_def GetHosts_def GetUsers_def GetPasswords_def o_GetPayloads_def
        GetPayloads_def Payloads_GetKeys_def sample_orders_def sample_gutils_def with_users_def
        sample_node_def sample_ossh_def NewLoot_def NewPayloads_def gm_keys_def)
  have "b64_encode (''root'' @ [newline]) \<noteq> []" by (simp del: append.simps)
  then show ?thesis
    using SYNC_lists_differences [OF sample_sha_ok refl, of sample_orders sample_conf "''10.0.0.2''"
        sample_orders sample_conf "with_users [''root''] sample_ossh" sample_node] e r
    by (simp del: append.simps)
qed

section \<open>Commands keep the invariant\<close>

definition node_inv :: "(string \<Rightarrow> string \<times> int) \<Rightarrow> conf \<Rightarrow> node_st \<Rightarrow> bool" where
  "node_inv split c st \<longleftrightarrow> ossh_inv split c (y_ossh st) \<and> nodes_inv (y_nodes st)"

lemma disk_inv: "ossh_inv split c (o1\<lparr>o_disk := d\<rparr>) = ossh_inv split c o1"
  by (simp add: ossh_inv_def o_metrics_def)

lemma o_SaveData_inv [simp]: "ossh_inv split c (o_SaveData g ord c' o1) = ossh_inv split c o1"
  by (simp add: o_SaveData_def disk_inv)

lemma o_SaveData_frame [simp]:
  "o_loot (o_SaveData g ord c o1) = o_loot o1" "o_logins (o_SaveData g ord c o1) = o_logins o1"
  "o_sess (o_SaveData g ord c o1) = o_sess o1"
  by (simp_all add: o_SaveData_def)

lemma batch_sessions:
  assumes "\<And>x. loot_op_ok (add x)"
  shows "l_activeSessions (snd (snd (fold (add_counted skip add) xs (n, s)))) = l_activeSessions (snd s)"
proof (induction xs arbitrary: n s)
  case (Cons x xs)
  have "l_activeSessions (snd (snd (add y s))) = l_activeSessions (snd s)" for y
    using assms unfolding loot_op_ok_def by blast
  then have "l_activeSessions (snd (snd (add_counted skip add x (n, s)))) = l_activeSessions (snd s)"
    by (simp add: add_counted_def Let_def split_def)
  then show ?case using Cons.IH by (cases "add_counted skip add x (n, s)") simp
qed simp

lemma batches_ok: "loot_op_ok (AddUsers us)" "loot_op_ok (AddPasswords us)" "loot_op_ok (AddHosts c us)"
  using AddUsers_inv [of _ us] AddPasswords_inv [of _ us] AddHosts_inv [of _ c us]
  unfolding loot_op_ok_def
  by (auto simp: AddUsers_def AddPasswords_def AddHosts_def batch_sessions loot_ops_ok)

lemma cmd_add_inv:
  assumes "\<And>xs. loot_op_ok (add xs)" and "node_inv split c st"
  shows "node_inv split c (snd (cmd_add g ord c' add host args st))"
  using assms with_loot_inv [of "add args" split c "y_ossh st"]
  by (simp add: cmd_add_def node_inv_def split_def)

text \<open>C19. Whatever command, known or not, with whatever arguments a peer sends, the node invariant
  survives: sessions, loot, login counters and registry stay well-formed and counted by the
  metrics, the logins and sessions do not change, and a command that is not one of the ADD
  commands changes nothing.\<close>

theorem Run_invariant:
  assumes "node_inv split c st"
  shows "node_inv split c (snd (Run g ord c command host args st)) \<and>
    o_logins (y_ossh (snd (Run g ord c command host args st))) = o_logins (y_ossh st) \<and>
    w_map (o_sess (y_ossh (snd (Run g ord c command host args st)))) = w_map (o_sess (y_ossh st)) \<and>
    (snd (Run g ord c command host args st) = st \<or> HasPrefix command ''ADD-'')"
proof (cases "gm_get command (sync_commands g ord c)")
  case None
  with assms show ?thesis by (simp add: Run_def)
next
  case (Some f)
  then have f: "(command, f) \<in> set (sync_commands g ord c)"
    unfolding gm_get_def by (rule map_of_SomeD)
  have r: "Run g ord c command host args st = f host args st" using Some by (simp add: Run_def)
  have adds: "node_inv split c (snd (cmd_add g ord c add host args st)) \<and>
      o_logins (y_ossh (snd (cmd_add g ord c add host args st))) = o_logins (y_ossh st) \<and>
      w_map (o_sess (y_ossh (snd (cmd_add g ord c add host args st)))) = w_map (o_sess (y_ossh st))"
    if "\<And>xs. loot_op_ok (add xs)" for add
  proof (intro conjI)
    show "node_inv split c (snd (cmd_add g ord c add host args st))"
      by (rule cmd_add_inv [OF that assms])
  qed (simp_all add: cmd_add_def with_loot_def split_def)
  let ?p = "cmd_ADD_PAYLOAD g ord c host args st"
  have pl: "node_inv split c (snd ?p) \<and> o_logins (y_ossh (snd ?p)) = o_logins (y_ossh st) \<and>
      w_map (o_sess (y_ossh (snd ?p))) = w_map (o_sess (y_ossh st))"
  proof -
    have "ossh_inv split c (snd (with_loot (AddPayload c h) (o1\<lparr>o_disk := d\<rparr>)))"
      if "ossh_inv split c o1" for h o1 d
      using that by (intro with_loot_inv loot_ops_ok) (simp add: disk_inv)
    moreover have "o_sess (snd (with_loot (AddPayload c h) o1)) = (o_sess o1)\<lparr>w_metrics :=
        snd (snd (AddPayload c h (o_loot o1, o_metrics o1)))\<rparr>" for h o1
      by (simp add: with_loot_def split_def)
    ultimately show ?thesis
      using assms by (simp add: cmd_ADD_PAYLOAD_def Let_def split_def node_inv_def disk_inv)
  qed
  have stats: "node_inv split c (snd (cmd_ADD_STATS g host args st)) \<and>
      y_ossh (snd (cmd_ADD_STATS g host args st)) = y_ossh st"
    using assms by (simp add: cmd_ADD_STATS_def node_inv_def nodes_ops_inv)
  have ro: "snd (cmd_NAME c host args st) = st" "snd (cmd_SYNC g ord c host args st) = st"
    "snd (cmd_HOSTS g ord host args st) = st" "snd (cmd_USERS g ord host args st) = st"
    "snd (cmd_PASSWORDS g ord host args st) = st" "snd (cmd_PAYLOADS g ord c host args st) = st"
    by (simp_all add: cmd_NAME_def cmd_SYNC_def cmd_HOSTS_def cmd_USERS_def cmd_PASSWORDS_def
        cmd_PAYLOADS_def Let_def)
  from f show ?thesis
    unfolding sync_commands_def r
    using assms ro pl stats adds [OF batches_ok(1)] adds [OF batches_ok(2)] adds [OF batches_ok(3)]
    by (auto simp: cmd_ADD_HOST_def cmd_ADD_USER_def cmd_ADD_PASSWORD_def HasPrefix_def)
qed

theorem Run_invariant_witness:
  "node_inv sample_split sample_conf
     (snd (Run sample_gutils sample_orders sample_conf ''ADD-USER'' ''10.0.0.2'' [''root''] sample_node))"
proof -
  have "node_inv sample_split sample_conf sample_node"
    using sample_ossh_inv NewSyncNodes_inv by (simp add: node_inv_def sample_node_def disk_inv)
  from Run_invariant [OF this] show ?thesis by blast
qed

section \<open>Payload transfer\<close>

lemma saveDataFile_other:
  "q \<noteq> path_comps path \<Longrightarrow> os_read_file (saveDataFile path ks d) q = Inr s \<longleftrightarrow> os_read_file d q = Inr s"
  by (auto simp: saveDataFile_def os_write_file_other(2) split: sum.split)

lemma o_SaveData_read:
  "q \<notin> set (data_paths c) \<Longrightarrow>
     os_read_file (o_disk (o_SaveData g ord c o1)) q = Inr s \<longleftrightarrow> os_read_file (o_disk o1) q = Inr s"
  by (simp add: o_SaveData_def SaveData_def Let_def data_paths_def saveDataFile_other)

lemma HasPayload_add:
  "TrimSpace h = h \<Longrightarrow> h \<noteq> [] \<Longrightarrow> HasPayload h (fst (snd (AddPayload c h s))) \<and> fst (AddPayload c h s)"
  by (auto simp: AddPayload_def HasPayload_def Payloads_Has_Add Let_def split_def)

lemma ADD_PAYLOAD_stores:
  assumes "gutils_ok g" and "s \<noteq> []" "TrimSpace s = s" and "h \<noteq> []" "TrimSpace h = h"
    and dec: "snd (DecodeFromString data (SetHash c h NewPayload)) =
      (SetHash c h NewPayload)\<lparr>p_payload := s\<rparr>"
    and "path_comps (payload_path c h) \<notin> set (data_paths c)"
    and "writable (o_disk (y_ossh st)) (path_comps (payload_path c h))"
  shows "\<exists>st'. Run g ord c ''ADD-PAYLOAD'' host [h, data] st = (Inr [], st') \<and>
    HasPayload h (o_loot (y_ossh st')) \<and>
    os_read_file (o_disk (y_ossh st')) (path_comps (payload_path c h)) =
      (if gu_FileExists g (o_disk (y_ossh st)) (payload_path c h)
       then os_read_file (o_disk (y_ossh st)) (path_comps (payload_path c h)) else Inr s)"
proof -
  let ?o = "y_ossh st"
  let ?q = "path_comps (payload_path c h)"
  define pl where "pl = (SetHash c h NewPayload)\<lparr>p_payload := s\<rparr>"
  have fe: "file_exists_ok (gu_FileExists g)" using assms(1) by (simp add: gutils_ok_def)
  have pf: "p_file pl = payload_path c h" by (simp add: pl_def SetHash_def)
  define d1 where "d1 = payload_Save (gu_FileExists g) pl (o_disk ?o)"
  define r where "r = (if gu_FileExists g (o_disk ?o) (payload_path c h)
       then os_read_file (o_disk ?o) ?q else Inr s)"
  have d1: "gu_FileExists g d1 (payload_path c h) \<and> os_read_file d1 ?q = r"
  proof (cases "gu_FileExists g (o_disk ?o) (payload_path c h)")
    case True
    then have "d1 = o_disk ?o" by (simp add: d1_def payload_Save_def payload_Exists_def pf)
    with True show ?thesis by (simp add: r_def)
  next
    case False
    obtain d' where w: "os_write_file (o_disk ?o) ?q s = Inr d'"
      using assms(8) os_write_file_iff by blast
    have "d1 = d' \<and> payload_Exists (gu_FileExists g) d' pl"
      using payload_Save_reads [OF fe, of "o_disk ?o" pl d'] False w assms(2,3)
      by (simp add: d1_def pf) (simp add: pl_def)
    with False os_write_then_read(1) [OF w] show ?thesis by (simp add: r_def payload_Exists_def pf)
  qed
  have "\<exists>t. r = Inr t"
    using d1 fe by (auto simp: file_exists_ok_def os_is_file_def os_read_file_def
        split: sum.splits node.splits)
  then obtain t where t: "r = Inr t" by blast
  define o2 where "o2 = snd (with_loot (AddPayload c h) (?o\<lparr>o_disk := d1\<rparr>))"
  have o2: "HasPayload h (o_loot o2)" "o_disk o2 = d1"
    using HasPayload_add [OF assms(5,4)] by (simp_all add: o2_def)
  have added: "fst (with_loot (AddPayload c h) (?o\<lparr>o_disk := d1\<rparr>))"
    using HasPayload_add [OF assms(5,4)] by (simp add: with_loot_def split_def)
  have "Run g ord c ''ADD-PAYLOAD'' host [h, data] st =
      (Inr [], st\<lparr>y_ossh := o_SaveData g ord c o2\<rparr>)"
    using dec [folded pl_def] d1 added
    by (simp add: Run_def sync_commands_def gm_get_def cmd_ADD_PAYLOAD_def Let_def d1_def [symmetric]
        payload_Exists_def pf split_def o2_def)
  moreover have "os_read_file (o_disk (o_SaveData g ord c o2)) ?q = Inr t"
    using o_SaveData_read [OF assms(7), of g ord o2 t] d1 t o2(2) by simp
  ultimately show ?thesis using o2(1) t unfolding r_def by simp
qed

text \<open>C30. A payload that a node can read and encode arrives unchanged when it is sent with \<^verbatim>\<open>ADD-PAYLOAD\<close>:
  the receiver stores it under the same hash, knows the hash, and reads the same text back; a capture
  file that already exists is kept as it is.\<close>

theorem ADD_PAYLOAD_transfers:
  assumes "gutils_ok g" and "payload_Read (gu_FileExists g) d p = Inr s" and "s \<noteq> []" "TrimSpace s = s"
    and "p_hash p \<noteq> []" "TrimSpace (p_hash p) = p_hash p"
    and "path_comps (payload_path c (p_hash p)) \<notin> set (data_paths c)"
    and "writable (o_disk (y_ossh st)) (path_comps (payload_path c (p_hash p)))"
  shows "\<exists>st'. Run g ord c ''ADD-PAYLOAD'' host [p_hash p, EncodeToString (gu_FileExists g) d p] st =
      (Inr [], st') \<and> HasPayload (p_hash p) (o_loot (y_ossh st')) \<and>
    os_read_file (o_disk (y_ossh st')) (path_comps (payload_path c (p_hash p))) =
      (if gu_FileExists g (o_disk (y_ossh st)) (payload_path c (p_hash p))
       then os_read_file (o_disk (y_ossh st)) (path_comps (payload_path c (p_hash p))) else Inr s)"
proof (rule ADD_PAYLOAD_stores [OF assms(1,3-6) _ assms(7,8)])
  have "DecodeFromString (EncodeToString (gu_FileExists g) d p) q = (True, q\<lparr>p_payload := s\<rparr>)" for q
    using encode_decode_payload [OF assms(2-4)] by blast
  then show "snd (DecodeFromString (EncodeToString (gu_FileExists g) d p) (SetHash c (p_hash p) NewPayload)) =
      (SetHash c (p_hash p) NewPayload)\<lparr>p_payload := s\<rparr>" by simp
qed

definition sample_sender :: fsys where
  "sample_sender =
     fs_put [''etc'', ''ossh'', ''captures'', ''payloads'', ''ab.cast''] (FileN ''hi'') sample_disk"

lemma sample_payload_path:
  "payload_path sample_conf ''ab'' = ''/etc/ossh/captures/payloads/ab.cast''"
  "path_comps ''/etc/ossh/captures/payloads/ab.cast'' =
     [''etc'', ''ossh'', ''captures'', ''payloads'', ''ab.cast'']"
  "path_comps (payload_path sample_conf ''ab'') \<notin> set (data_paths sample_conf)"
proof -
  show p: "payload_path sample_conf ''ab'' = ''/etc/ossh/captures/payloads/ab.cast''"
    by (simp add: payload_path_def sample_conf_def)
  have "path_comps ''/etc/ossh/captures/payloads/ab.cast'' \<notin>
      set [path_comps ''/etc/ossh/hosts.txt'', path_comps ''/etc/ossh/users.txt'',
        path_comps ''/etc/ossh/passwords.txt'', path_comps ''/etc/ossh/payloads.txt'']"
    by code_simp
  then show "path_comps (payload_path sample_conf ''ab'') \<notin> set (data_paths sample_conf)"
    unfolding p by (simp add: data_paths_def sample_conf_def)
  show "path_comps ''/etc/ossh/captures/payloads/ab.cast'' =
     [''etc'', ''ossh'', ''captures'', ''payloads'', ''ab.cast'']"
    by code_simp
qed

theorem ADD_PAYLOAD_transfers_witness:
  "\<exists>st'. Run sample_gutils sample_orders sample_conf ''ADD-PAYLOAD'' ''10.0.0.2''
      [''ab'', EncodeToString sample_file_exists sample_sender (SetHash sample_conf ''ab'' NewPayload)]
      sample_node = (Inr [], st') \<and> HasPayload ''ab'' (o_loot (y_ossh st')) \<and>
    os_read_file (o_disk (y_ossh st')) [''etc'', ''ossh'', ''captures'', ''payloads'', ''ab.cast''] = Inr ''hi''"
proof -
  let ?p = "SetHash sample_conf ''ab'' NewPayload"
  let ?q = "[''etc'', ''ossh'', ''captures'', ''payloads'', ''ab.cast'']"
  have f: "os_is_file sample_sender ?q" "os_read_file sample_sender ?q = Inr ''hi''"
    "\<not> os_is_file sample_disk ?q" "writable sample_disk ?q"
    unfolding sample_sender_def sample_disk_def writable_def by code_simp+
  have t: "TrimSpace ''hi'' = ''hi''" "TrimSpace ''ab'' = ''ab''" by code_simp+
  have r: "payload_Read (gu_FileExists sample_gutils) sample_sender ?p = Inr ''hi''"
    using f(1,2) t(1) sample_payload_path
    by (simp add: payload_Read_def payload_Exists_def sample_gutils_def sample_file_exists_def SetHash_def)
  show ?thesis
    using ADD_PAYLOAD_transfers [OF sample_gutils_ok r _ t(1), of sample_conf sample_node sample_orders
        "''10.0.0.2''"] t(2) f(3,4) sample_payload_path
    by (simp add: sample_node_def) (simp add: sample_gutils_def sample_file_exists_def)
qed

text \<open>C39. The hash of \<^verbatim>\<open>ADD-PAYLOAD\<close> is put into the capture path unchecked: with \<open>../../pwned\<close> a peer
  creates a file of its choice next to the captures directory, outside of it.\<close>

theorem ADD_PAYLOAD_escapes:
  assumes "gutils_ok g" and "IsAbs (c_PathCaptures c)" and "path_comps (c_PathCaptures c) = cs @ [x]"
    and "s \<noteq> []" "TrimSpace s = s" and "cs @ [''pwned.cast''] \<notin> set (data_paths c)"
    and "x \<noteq> ''pwned.cast''" and "writable (o_disk (y_ossh st)) (cs @ [''pwned.cast''])"
    and "\<not> gu_FileExists g (o_disk (y_ossh st)) (payload_path c ''../../pwned'')"
  shows "\<exists>st'. Run g ord c ''ADD-PAYLOAD'' host [''../../pwned'', b64_encode s] st = (Inr [], st') \<and>
    os_read_file (o_disk (y_ossh st')) (cs @ [''pwned.cast'']) = Inr s \<and>
    \<not> prefix (path_comps (c_PathCaptures c)) (cs @ [''pwned.cast''])"
proof -
  have sp: "Split (CHR ''/'') ''payloads/../../pwned.cast'' = [''payloads'', ''..'', ''..'', ''pwned.cast'']"
    by code_simp
  have "x \<noteq> ''..''"
    using path_comps_proper [OF assms(2)] assms(3) by (simp add: proper_comp_def)
  moreover have "payload_path c ''../../pwned'' = c_PathCaptures c @ CHR ''/'' # ''payloads/../../pwned.cast''"
    by (simp add: payload_path_def)
  ultimately have q: "path_comps (payload_path c ''../../pwned'') = cs @ [''pwned.cast'']"
    by (simp only: path_comps_child [OF assms(2)] sp assms(3)) (simp add: clean_step_def)
  have t: "TrimSpace ''../../pwned'' = ''../../pwned''" by code_simp
  have "snd (DecodeFromString (b64_encode s) p) = p\<lparr>p_payload := s\<rparr>" for p
    using assms(4,5) by (simp add: DecodeFromString_def TrimSpace_b64 b64_roundtrip Let_def)
  from ADD_PAYLOAD_stores [OF assms(1,4,5) _ t this, of c st ord host] q assms(6-9)
  show ?thesis by (auto simp: assms(3))
qed

theorem ADD_PAYLOAD_escapes_witness:
  "\<exists>st'. Run sample_gutils sample_orders sample_conf ''ADD-PAYLOAD'' ''10.0.0.2''
      [''../../pwned'', b64_encode ''hi''] sample_node = (Inr [], st') \<and>
    os_read_file (o_disk (y_ossh st')) [''etc'', ''ossh'', ''pwned.cast''] = Inr ''hi''"
proof -
  have c: "c_PathCaptures sample_conf = ''/etc/ossh/captures''" by (simp add: sample_conf_def)
  have p: "path_comps ''/etc/ossh/captures'' = [''etc'', ''ossh''] @ [''captures'']"
    "path_comps ''/etc/ossh/captures/payloads/../../pwned.cast'' = [''etc'', ''ossh'', ''pwned.cast'']"
    "[''etc'', ''ossh'', ''pwned.cast''] \<notin>
      set [path_comps ''/etc/ossh/hosts.txt'', path_comps ''/etc/ossh/users.txt'',
        path_comps ''/etc/ossh/passwords.txt'', path_comps ''/etc/ossh/payloads.txt'']"
    "TrimSpace ''hi'' = ''hi''"
    by code_simp+
  have d: "writable sample_disk [''etc'', ''ossh'', ''pwned.cast'']"
    "\<not> os_is_file sample_disk [''etc'', ''ossh'', ''pwned.cast'']"
    unfolding sample_disk_def writable_def by code_simp+
  show ?thesis
    using ADD_PAYLOAD_escapes [OF sample_gutils_ok, of sample_conf "[''etc'', ''ossh'']" "''captures''" "''hi''"
        sample_node sample_orders "''10.0.0.2''"] c p d
    by (simp add: sample_node_def data_paths_def payload_path_def)
      (simp add: sample_gutils_def sample_file_exists_def sample_conf_def)
qed

end
