(* ===== verification/Session_Handler.thy ===== *)
theory Session_Handler
  imports Fake_Shell Sync_Commands
begin

text \<open>
  The composition in \<^verbatim>\<open>ossh_server.go\<close> of sessions, fake shell, loot and payloads: the handler of an SSH
  session, and the start of the server with its fake file system.
\<close>

section \<open>The handler of a session\<close>

text \<open>\<open>n\<close> counts the readings of the clock so far. The result is what the deferred function recovers (or
  nothing), and the server afterwards. \<^verbatim>\<open>Create\<close> may return nil, which \<^verbatim>\<open>SetSSHSession\<close> dereferences; the
  comparison of its result with nil comes too late.\<close>

definition finish_session ::
  "gutils \<Rightarrow> orders \<Rightarrow> (string \<Rightarrow> go_panic + string) \<Rightarrow> json \<Rightarrow> conf \<Rightarrow> shell_stats \<Rightarrow> ossh \<Rightarrow>
   (go_panic + unit) \<times> ossh" where
  "finish_session g ord toHash js c stats o1 =
     (let o2 = o_SaveData g ord c o1
      in case ToPayload toHash js c stats of
           Inl p \<Rightarrow> (Inl p, o2)
         | Inr pl \<Rightarrow>
             (let o3 = snd (with_loot (AddPayload c (p_hash pl)) o2)
              in (Inr (), o3\<lparr>o_disk := payload_Save (gu_FileExists g) pl (o_disk o3)\<rparr>)))"

definition run_session ::
  "shell_lib \<Rightarrow> conf \<Rightarrow> fake_fs option \<Rightarrow> nat \<Rightarrow> ssh_session \<Rightarrow> nat \<Rightarrow> ossh \<Rightarrow>
   (go_panic + shell_stats) \<times> shell \<times> ossh" where
  "run_session lib c afs n se a o1 =
     (let o2 = with_sess (RandomSleep (sl_clk lib (n + 1)) a) (with_sess (SetSSHSession (sl_clk lib n) a) o1);
          sh = NewFakeShell lib c se (s_Whitelisted (o_session a o2)) (n + 2);
          o3 = with_sess (SetShell (sl_clk lib (sh_tick sh)) a) o2
      in Process lib c afs a (sh\<lparr>sh_tick := Suc (sh_tick sh)\<rparr>, o3))"

definition sessionHandler ::
  "(string \<Rightarrow> string \<times> int) \<Rightarrow> shell_lib \<Rightarrow> gutils \<Rightarrow> orders \<Rightarrow> (string \<Rightarrow> go_panic + string) \<Rightarrow> json \<Rightarrow>
   conf \<Rightarrow> fake_fs option \<Rightarrow> nat \<Rightarrow> string \<Rightarrow> ssh_session \<Rightarrow> ossh \<Rightarrow> (go_panic + unit) \<times> ossh" where
  "sessionHandler split lib g ord toHash js c afs n addr se o0 =
     (case o_Create split c (sl_clk lib n) addr o0 of
        Inl p \<Rightarrow> (Inl p, o0)
      | Inr (None, o1) \<Rightarrow> (Inl NilDeref, o1)
      | Inr (Some a, o1) \<Rightarrow>
          (case run_session lib c afs (n + 1) se a o1 of
             (Inl p, sh, o2) \<Rightarrow> (Inl p, o2)
           | (Inr stats, sh, o2) \<Rightarrow>
               (case (if \<not> s_Whitelisted (o_session a o2) then finish_session g ord toHash js c stats o2
                      else (Inr (), o2)) of
                  (Inl p, o3) \<Rightarrow> (Inl p, o3)
                | (Inr _, o3) \<Rightarrow>
                    (case o_Remove (sl_clk lib (sh_tick sh)) (s_ID (o_session a o3)) o3 of
                       Inl p \<Rightarrow> (Inl p, o3)
                     | Inr o4 \<Rightarrow> (Inr (), o4)))))"

section \<open>Facts\<close>

lemma sess_setters:
  "s_ID (sess b (upd a (\<lambda>s. s\<lparr>s_Shell := x\<rparr>) w)) = s_ID (sess b w)"
  "s_Whitelisted (sess b (upd a (\<lambda>s. s\<lparr>s_Shell := x\<rparr>) w)) = s_Whitelisted (sess b w)"
  "s_ID (sess b (upd a (\<lambda>s. s\<lparr>s_SSHSession := x\<rparr>) w)) = s_ID (sess b w)"
  "s_Whitelisted (sess b (upd a (\<lambda>s. s\<lparr>s_SSHSession := x\<rparr>) w)) = s_Whitelisted (sess b w)"
  by (simp_all add: sess_def upd_def nth_upd)

text \<open>The server when the shell starts.\<close>

definition session_start :: "shell_lib \<Rightarrow> nat \<Rightarrow> nat \<Rightarrow> int \<Rightarrow> ossh \<Rightarrow> ossh" where
  "session_start lib n a t o1 =
     with_sess (SetShell t a)
       (with_sess (RandomSleep (sl_clk lib (n + 1)) a) (with_sess (SetSSHSession (sl_clk lib n) a) o1))"

lemma session_start_ok:
  assumes "ossh_inv split c o1"
  shows "ossh_inv split c (session_start lib n a t o1)"
    and "o_loot (session_start lib n a t o1) = o_loot o1" "o_logins (session_start lib n a t o1) = o_logins o1"
    and "o_disk (session_start lib n a t o1) = o_disk o1"
    and "w_map (o_sess (session_start lib n a t o1)) = w_map (o_sess o1)"
    and "s_ID (o_session b (session_start lib n a t o1)) = s_ID (o_session b o1)"
    and "s_Whitelisted (o_session b (session_start lib n a t o1)) = s_Whitelisted (o_session b o1)"
    and "b \<noteq> a \<Longrightarrow> o_session b (session_start lib n a t o1) = o_session b o1"
proof -
  show "ossh_inv split c (session_start lib n a t o1)"
    unfolding session_start_def using assms
    by (auto intro!: with_sess_inv setters_world simp: setter_defs)
qed (simp_all add: session_start_def with_sess_def setter_defs sess_setters sess_upd_other
    sess_UpdateActivity_other)

lemma run_session_Process:
  assumes "clk_ok lib"
  shows "\<exists>sh1 t. run_session lib c afs n se a o1 = Process lib c afs a (sh1, session_start lib n a t o1) \<and>
    sh_session sh1 = se \<and> fss_CommandHistory (sh_stats sh1) = []"
  unfolding run_session_def session_start_def Let_def
  by (intro exI conjI, rule refl) (simp_all add: NewFakeShell_start [OF assms])

lemma run_session_ok:
  assumes "lib_ok lib" and "fs_ready ofs (o_disk o1)" and "sl_busy lib (merged ofs)"
    and "ossh_inv split c o1" and "run_session lib c (Some ofs) n se a o1 = (r, sh, o2)"
  shows "ossh_inv split c o2 \<and> o_loot o2 = o_loot o1 \<and> o_logins o2 = o_logins o1 \<and>
    w_map (o_sess o2) = w_map (o_sess o1) \<and> host_kept ofs (o_disk o1) (o_disk o2) \<and>
    s_ID (o_session a o2) = s_ID (o_session a o1) \<and>
    s_Whitelisted (o_session a o2) = s_Whitelisted (o_session a o1) \<and>
    (\<forall>b. b \<noteq> a \<longrightarrow> o_session b o2 = o_session b o1) \<and>
    (\<forall>stats. r = Inr stats \<longrightarrow> fss_CommandHistory stats = upto_exit c (session_lines lib c se))"
proof -
  have clk: "clk_ok lib" using assms(1) by (simp add: lib_ok_def)
  obtain sh1 t where P: "Process lib c (Some ofs) a (sh1, session_start lib n a t o1) = (r, sh, o2)"
    and sh1: "sh_session sh1 = se" "fss_CommandHistory (sh_stats sh1) = []"
    using run_session_Process [OF clk, of c "Some ofs" n se a o1] assms(5) by metis
  note ran = Process_ran [OF assms(1) _ assms(3) P, of split,
      unfolded fst_conv snd_conv session_start_ok(4) [OF assms(4)] sh1(1), OF assms(2)]
  moreover have "\<forall>b. b \<noteq> a \<longrightarrow> o_session b o2 = o_session b o1"
    using Process_others [OF P] session_start_ok(8) [OF assms(4)] by simp
  ultimately show ?thesis
    using session_start_ok(1-7) [OF assms(4)] sh1(2) unfolding ran_def line_ok_def fst_conv snd_conv by (metis append_Nil)
qed

lemma o_Create_map:
  assumes "ossh_inv split c o0" and "canonical split addr"
  obtains a o1 where "o_Create split c now addr o0 = Inr (Some a, o1)" and "ossh_inv split c o1"
    and "o_loot o1 = o_loot o0" and "o_logins o1 = o_logins o0" and "o_disk o1 = o_disk o0"
    and "s_ID (o_session a o1) = addr"
    and "s_Whitelisted (o_session a o1) = isIPWhitelisted c (fst (split addr))"
    and "ss_get addr (o_sess o1) = Some a" and "others_kept addr (o_sess o0) (o_sess o1)"
proof -
  obtain a o1 where o1: "o_session_of split c now addr o0 = Inr (a, o1)" "ossh_inv split c o1"
    "o_loot o1 = o_loot o0" "o_logins o1 = o_logins o0" "o_disk o1 = o_disk o0"
    "s_ID (o_session a o1) = addr" "s_Whitelisted (o_session a o1) = isIPWhitelisted c (fst (split addr))"
    using o_session_of_canonical [OF assms, of now] by metis
  then have cr: "o_Create split c now addr o0 = Inr (Some a, o1)"
    by (auto simp: o_session_of_def bind_res_Inr_iff deref_def split: option.splits)
  note k = o_session_of_kept [OF assms o1(1)]
  with that cr o1 k show thesis by blast
qed

lemma finish_session_ok:
  assumes "ossh_inv split c o1" and "finish_session g ord toHash js c stats o1 = (r, o2)"
  shows "ossh_inv split c o2" and "o_logins o2 = o_logins o1" and "w_map (o_sess o2) = w_map (o_sess o1)"
    and "sess b (o_sess o2) = sess b (o_sess o1)"
    and "users (o_loot o2) = users (o_loot o1)" "passwords (o_loot o2) = passwords (o_loot o1)"
      "hosts (o_loot o2) = hosts (o_loot o1)"
    and "r \<noteq> Inr () \<Longrightarrow> o_loot o2 = o_loot o1"
    and "r = Inr () \<Longrightarrow> \<exists>h. toHash (Join [newline] (fss_CommandHistory stats)) = Inr h \<and>
      (\<forall>f. HasPayload f (o_loot o2) \<longleftrightarrow> HasPayload f (o_loot o1) \<or> f = TrimSpace h \<and> f \<noteq> [])"
proof -
  have inv: "ossh_inv split c (snd (with_loot (AddPayload c h) (o_SaveData g ord c o1)))" for h
    using with_loot_inv [OF loot_ops_ok(4)] assms(1) by simp
  show "ossh_inv split c o2"
    using assms inv by (auto simp: finish_session_def Let_def disk_inv split: sum.splits)
qed (use assms(2) in \<open>auto simp: finish_session_def Let_def ToPayload_def bind_res_Inr_iff payload_Set_def
    with_loot_def AddPayload_def HasPayload_def sess_def Payloads_Add_def Payloads_Has_def gm_has_put SetHash_def
    split: sum.splits if_splits\<close>)

text \<open>The same for any session: whitelisted ones record nothing.\<close>

lemma end_session_ok:
  assumes "ossh_inv split c o1"
    and "(if \<not> wl then finish_session g ord toHash js c stats o1 else (Inr (), o1)) = (r, o2)"
  shows "ossh_inv split c o2 \<and> o_logins o2 = o_logins o1 \<and> w_map (o_sess o2) = w_map (o_sess o1) \<and>
    (\<forall>b. sess b (o_sess o2) = sess b (o_sess o1)) \<and> users (o_loot o2) = users (o_loot o1) \<and>
    passwords (o_loot o2) = passwords (o_loot o1) \<and> hosts (o_loot o2) = hosts (o_loot o1) \<and>
    (if wl \<or> r \<noteq> Inr () then o_loot o2 = o_loot o1
     else \<exists>h. toHash (Join [newline] (fss_CommandHistory stats)) = Inr h \<and>
       (\<forall>f. HasPayload f (o_loot o2) \<longleftrightarrow> HasPayload f (o_loot o1) \<or> f = TrimSpace h \<and> f \<noteq> []))"
proof (cases wl)
  case True
  with assms show ?thesis by simp
next
  case False
  with assms(2) have fin: "finish_session g ord toHash js c stats o1 = (r, o2)" by simp
  show ?thesis
    using finish_session_ok(1-7) [OF assms(1) fin] finish_session_ok(8,9) [OF assms(1) fin] False by simp
qed

text \<open>C5. An SSH session from a well-formed address, handled from beginning to end. Whatever the client does
  the invariant of the server holds afterwards, and users, passwords, hosts, login counters and the
  sessions of other addresses, the entries of the map and the objects, are as before. Without a panic
  the session is gone, and unless the host is whitelisted exactly one payload was recorded, hashed from
  the lines the client sent (the command passed along or, without one, the lines typed), after
  rewriting, up to and including the first exit command. After a panic, which is recovered,
  and for whitelisted hosts, no payload is recorded, and after a panic the session stays in the map.\<close>

theorem sessionHandler_spec:
  assumes "lib_ok lib" and "fs_ready ofs (o_disk o0)" and "sl_busy lib (merged ofs)"
    and "ossh_inv split c o0" and "canonical split addr"
    and "sessionHandler split lib g ord toHash js c (Some ofs) n addr se o0 = (r, o1)"
  shows "ossh_inv split c o1 \<and> o_logins o1 = o_logins o0 \<and>
    users (o_loot o1) = users (o_loot o0) \<and> passwords (o_loot o1) = passwords (o_loot o0) \<and>
    hosts (o_loot o1) = hosts (o_loot o0) \<and>
    others_kept addr (o_sess o0) (o_sess o1) \<and>
    (ss_has addr (o_sess o1) \<longleftrightarrow> r \<noteq> Inr ()) \<and>
    (if isIPWhitelisted c (fst (split addr)) \<or> r \<noteq> Inr () then o_loot o1 = o_loot o0
     else \<exists>h. toHash (Join [newline] (upto_exit c (session_lines lib c se))) = Inr h \<and>
       (\<forall>f. HasPayload f (o_loot o1) \<longleftrightarrow> HasPayload f (o_loot o0) \<or> f = TrimSpace h \<and> f \<noteq> []))"
proof -
  obtain a o2 where cr: "o_Create split c (sl_clk lib n) addr o0 = Inr (Some a, o2)" "ossh_inv split c o2"
    "o_loot o2 = o_loot o0" "o_logins o2 = o_logins o0" "o_disk o2 = o_disk o0"
    "s_ID (o_session a o2) = addr"
    "s_Whitelisted (o_session a o2) = isIPWhitelisted c (fst (split addr))"
    "ss_get addr (o_sess o2) = Some a" "others_kept addr (o_sess o0) (o_sess o2)"
    using o_Create_map [OF assms(4,5), of "sl_clk lib n"] by metis
  obtain r3 sh o3 where run: "run_session lib c (Some ofs) (n + 1) se a o2 = (r3, sh, o3)"
    by (metis prod_cases3)
  note ro = run_session_ok [OF assms(1) _ assms(3) cr(2) run, unfolded cr(3-7), OF assms(2)]
  have get3: "ss_get j (o_sess o3) = ss_get j (o_sess o2)" for j using ro by (simp add: ss_get_def)
  have "sess_wf (o_sess o2)" using cr(2) by (simp add: ossh_inv_def world_inv_def)
  then have "others_kept addr (o_sess o2) (o_sess o3)"
    using ro by (intro others_kept_at [OF _ cr(8)]) auto
  with cr(9) have others3: "others_kept addr (o_sess o0) (o_sess o3)" by (rule others_kept_trans)
  show ?thesis
  proof (cases r3)
    case (Inl p)
    with assms(6) cr(1) run have "r = Inl p" "o1 = o3" by (simp_all add: sessionHandler_def)
    with ro get3 cr(8) others3 show ?thesis by (simp add: ss_has_get)
  next
    case (Inr stats)
    define wl where "wl = s_Whitelisted (o_session a o3)"
    obtain r4 o4 where fin4: "(if \<not> wl then finish_session g ord toHash js c stats o3 else (Inr (), o3)) =
        (r4, o4)" by (meson surj_pair)
    have wl: "wl = isIPWhitelisted c (fst (split addr))" using ro by (simp add: wl_def)
    have inv3: "ossh_inv split c o3" using ro by blast
    note f = end_session_ok [OF inv3 fin4]
    have get4: "ss_get j (o_sess o4) = ss_get j (o_sess o2)" for j using f get3 by (simp add: ss_get_def)
    have others4: "others_kept addr (o_sess o0) (o_sess o4)"
      using f others3 get4 get3 by (simp add: others_kept_def)
    show ?thesis
    proof (cases r4)
      case (Inl p)
      with assms(6) cr(1) run Inr fin4 have "r = Inl p" "o1 = o4"
        by (simp_all add: sessionHandler_def flip: wl_def)
      with f ro get4 cr(8) others4 Inl show ?thesis by (simp add: ss_has_get)
    next
      case (Inr u)
      let ?o5 = "with_sess (remove_pure (sl_clk lib (sh_tick sh)) addr) o4"
      have inv4: "ossh_inv split c o4" using f by blast
      note rem = o_Remove_eq [OF inv4, of "sl_clk lib (sh_tick sh)" addr]
      have "s_ID (o_session a o4) = addr" using f ro by simp
      with assms(6) cr(1) run \<open>r3 = Inr stats\<close> Inr fin4 rem have o5: "r = Inr ()" "o1 = ?o5"
        by (simp_all add: sessionHandler_def flip: wl_def)
      have "sess_wf (o_sess o4)" using inv4 by (simp add: ossh_inv_def world_inv_def)
      then have others5: "others_kept addr (o_sess o0) (o_sess o1)"
        using o5(2) others_kept_trans [OF others4 remove_pure_others] by (simp add: with_sess_def)
      have "gm_inv (w_map (o_sess o4))" using inv4 by (simp add: ossh_inv_def world_inv_def sess_wf_def)
      then have gone: "\<not> ss_has addr (o_sess o1)"
        using o5(2) by (simp add: with_sess_def remove_pure_get ss_has_get)
      have same: "o_loot o1 = o_loot o4" "o_logins o1 = o_logins o4" "ossh_inv split c o1"
        using o5(2) rem by simp_all
      have hist: "fss_CommandHistory stats = upto_exit c (session_lines lib c se)"
        using ro \<open>r3 = Inr stats\<close> by blast
      have loot3: "o_loot o3 = o_loot o0" using ro by blast
      have "if wl then o_loot o1 = o_loot o0
        else \<exists>h. toHash (Join [newline] (upto_exit c (session_lines lib c se))) = Inr h \<and>
          (\<forall>f. HasPayload f (o_loot o1) \<longleftrightarrow> HasPayload f (o_loot o0) \<or> f = TrimSpace h \<and> f \<noteq> [])"
      proof (cases wl)
        case True
        with f loot3 same(1) show ?thesis by simp
      next
        case False
        with f Inr obtain h where "toHash (Join [newline] (upto_exit c (session_lines lib c se))) = Inr h"
          "\<forall>f. HasPayload f (o_loot o1) \<longleftrightarrow> HasPayload f (o_loot o0) \<or> f = TrimSpace h \<and> f \<noteq> []"
          unfolding same(1) loot3 hist by auto
        with False show ?thesis unfolding if_not_P [OF False] by blast
      qed
      moreover have "users (o_loot o1) = users (o_loot o0)" "passwords (o_loot o1) = passwords (o_loot o0)"
        "hosts (o_loot o1) = hosts (o_loot o0)" "o_logins o1 = o_logins o0"
        using f ro same by simp_all
      ultimately show ?thesis using same(3) o5(1) others5 gone wl by simp
    qed
  qed
qed

text \<open>A session that cannot panic, handled completely.\<close>

lemma sessionHandler_returns:
  assumes "commands_ok lib (c_Commands c)" and "flags_ok lib" and "lib_ok lib" and "sl_busy lib (merged ofs)"
    and "fs_ready ofs (o_disk o0)" and "ossh_inv split c o0" and "canonical split addr"
    and "se_lines_err se = ''EOF''" and "se_write_err se \<in> {None, Some ''EOF''}"
    and "list_all (safe_line c) (upto_exit c (session_lines lib c se))" and "\<forall>s. \<exists>h. toHash s = Inr h"
  shows "\<exists>o1. sessionHandler split lib g ord toHash js c (Some ofs) n addr se o0 = (Inr (), o1)"
proof -
  obtain a o2 where cr: "o_Create split c (sl_clk lib n) addr o0 = Inr (Some a, o2)" "ossh_inv split c o2"
    "o_disk o2 = o_disk o0"
    using o_Create_map [OF assms(6,7), of "sl_clk lib n"] by metis
  have clk: "clk_ok lib" using assms(3) by (simp add: lib_ok_def)
  obtain sh1 t where sh1: "run_session lib c (Some ofs) (n + 1) se a o2 =
      Process lib c (Some ofs) a (sh1, session_start lib (n + 1) a t o2)" "sh_session sh1 = se"
    using run_session_Process [OF clk] by metis
  then obtain stats sh o3 where run: "run_session lib c (Some ofs) (n + 1) se a o2 = (Inr stats, sh, o3)"
    using Process_returns [OF assms(1-4), of "(sh1, session_start lib (n + 1) a t o2)" se a] assms(5,8-10)
      session_start_ok(4) [OF cr(2)] cr(3) by auto
  have fs: "fs_ready ofs (o_disk o2)" using assms(5) cr(3) by simp
  have inv3: "ossh_inv split c o3" using run_session_ok [OF assms(3) fs assms(4) cr(2) run] by blast
  obtain r4 o4 where fin: "(if \<not> s_Whitelisted (o_session a o3) then finish_session g ord toHash js c stats o3
      else (Inr (), o3)) = (r4, o4)" by (meson surj_pair)
  moreover obtain h where "toHash (Join [newline] (fss_CommandHistory stats)) = Inr h" using assms(11) by blast
  ultimately have "r4 = Inr ()"
    by (auto simp: finish_session_def ToPayload_def payload_Set_def Let_def split: if_splits)
  moreover have "ossh_inv split c o4" using end_session_ok [OF inv3 fin] by blast
  ultimately show ?thesis
    using cr(1) run fin o_Remove_eq by (auto simp: sessionHandler_def)
qed

theorem sessionHandler_spec_witness:
  "\<exists>o1. sessionHandler sample_split sample_lib sample_gutils sample_orders (\<lambda>s. Inr ''ab_cd'') sample_json
      sample_conf (Some sample_fs) 0 ''6.6.6.6:22'' (sample_session (''id'' @ [newline] @ ''exit'') [])
      sample_world = (Inr (), o1) \<and>
    \<not> ss_has ''6.6.6.6:22'' (o_sess o1) \<and> HasPayload ''ab_cd'' (o_loot o1)"
proof -
  let ?se = "sample_session (''id'' @ [newline] @ ''exit'') []"
  have cs: "commands_ok sample_lib (c_Commands sample_conf)"
    by (simp add: commands_ok_def sample_conf_def sample_commands_def)
  have lines: "session_lines sample_lib sample_conf ?se = [''id'', ''exit'']"
    by (simp add: session_lines_def input_lines_def sample_conf_def sample_commands_def
        sample_session_def newline_def)
  have "\<not> is_exit sample_conf ''id''" "is_exit sample_conf ''exit''"
    unfolding is_exit_def sample_conf_def sample_commands_def by code_simp+
  moreover have "safe_line sample_conf ''id''" "safe_line sample_conf ''exit''"
    unfolding safe_line_def sample_conf_def sample_commands_def by code_simp+
  ultimately have safe: "list_all (safe_line sample_conf)
      (upto_exit sample_conf (session_lines sample_lib sample_conf ?se))" unfolding lines by simp
  have err: "se_lines_err ?se = ''EOF''" "se_write_err ?se \<in> {None, Some ''EOF''}"
    by (simp_all add: sample_session_def sample_shell_def)
  obtain o1 where run: "sessionHandler sample_split sample_lib sample_gutils sample_orders (\<lambda>s. Inr ''ab_cd'')
      sample_json sample_conf (Some sample_fs) 0 ''6.6.6.6:22'' ?se sample_world = (Inr (), o1)"
    using sessionHandler_returns [OF cs sample_flags_ok sample_lib_ok sample_world_ok(3,2,1) sample_canonical
        err safe, of "\<lambda>s. Inr ''ab_cd''"] by blast
  have "TrimSpace ''ab_cd'' = ''ab_cd''" by code_simp
  with run sessionHandler_spec [OF sample_lib_ok sample_world_ok(2,3,1) sample_canonical run]
  show ?thesis by (auto simp: isIPWhitelisted_iff)
qed

end
