(* ===== verification/OSSH_Start.thy ===== *)
theory OSSH_Start
  imports Session_Handler
begin

text \<open>
  The start of the SSH server in \<^verbatim>\<open>ossh_server.go\<close>: the overlay file system, the data files and the
  addresses to listen on. \<open>dirExists\<close> is \<^verbatim>\<open>gutils.DirExists\<close> and \<open>mount\<close> the system call.
\<close>

text \<open>The exit codes of \<^verbatim>\<open>initOverlayFS\<close>. (\<^verbatim>\<open>NewSession\<close> never returns nil without an error.)\<close>

definition initOverlayFS ::
  "(fsys \<Rightarrow> string \<Rightarrow> bool) \<Rightarrow> (string \<Rightarrow> string \<Rightarrow> fsys \<Rightarrow> string + fsys) \<Rightarrow> int \<Rightarrow> fs_manager \<Rightarrow> fsys \<Rightarrow>
   int + fake_fs \<times> fs_manager \<times> fsys" where
  "initOverlayFS dirExists mount now m d =
     (case FS_NewSession dirExists (int_dec (now div second)) m d of
        Inl e \<Rightarrow> Inl 2
      | Inr (ofs, m1, d1) \<Rightarrow>
          (case Mount dirExists mount ofs d1 of
             Inl e \<Rightarrow> Inl 3
           | Inr d2 \<Rightarrow>
               (if \<not> FS_DirExists dirExists ofs d2 ''/home''
                then (case FS_Mkdir ofs ''/home'' d2 of Inl e \<Rightarrow> Inl 4 | Inr d3 \<Rightarrow> Inr (ofs, m1, d3))
                else Inr (ofs, m1, d2))))"

definition ffs_path :: "conf \<Rightarrow> string" where
  "ffs_path c = (if c_PathFFS c \<noteq> [] then c_PathFFS c else PathJoin [c_PathData c, ''ffs''])"

definition listen_addrs :: "conf \<Rightarrow> string list" where
  "listen_addrs c = map (\<lambda>s. host_port (srv_Host s) (srv_Port s)) (c_Servers c)"

text \<open>The server that has been set up: its state, the active file system with its manager, and where it
  will listen. When \<^verbatim>\<open>Init\<close> of the manager fails, its maps are nil, and the program ends at the next
  step, with code 2 or by an assignment to a nil map; both are \<^term>\<open>Inl 2\<close> here.\<close>

record ossh_setup =
  u_ossh :: ossh
  u_fs :: fake_fs
  u_manager :: fs_manager
  u_addrs :: "string list"

definition ossh_init ::
  "(fsys \<Rightarrow> string \<Rightarrow> bool) \<Rightarrow> (fsys \<Rightarrow> string \<Rightarrow> bool) \<Rightarrow> (string \<Rightarrow> string \<Rightarrow> fsys \<Rightarrow> string + fsys) \<Rightarrow>
   (string \<times> node) list \<Rightarrow> int \<Rightarrow> conf \<Rightarrow> metrics \<Rightarrow> fsys \<Rightarrow> int + ossh_setup" where
  "ossh_init fileExists dirExists mount embedded now c m d =
     (let o1 = NewOSSHServer fileExists c m d
      in case Init dirExists embedded (ffs_path c) (o_disk o1) of
           (Inl e, d1) \<Rightarrow> Inl 2
         | (Inr man, d1) \<Rightarrow>
             bind_res (initOverlayFS dirExists mount now man d1) (\<lambda>(ofs, man', d2).
               Inr \<lparr>u_ossh = o1\<lparr>o_disk := d2\<rparr>, u_fs = ofs, u_manager = man', u_addrs = listen_addrs c\<rparr>))"

text \<open>\<^verbatim>\<open>Start\<close> listens on every address in a goroutine of its own and waits for all of them; \<open>serve\<close> says
  with which error \<^verbatim>\<open>ListenAndServe\<close> returned, if it did. The errors are logged only.\<close>

definition Start_returns :: "(string \<Rightarrow> string option) \<Rightarrow> ossh_setup \<Rightarrow> bool" where
  "Start_returns serve u \<longleftrightarrow> list_all (\<lambda>a. serve a \<noteq> None) (u_addrs u)"

text \<open>What mounting does: the mount point stays a directory of a well-formed tree.\<close>

definition mount_ok :: "(string \<Rightarrow> string \<Rightarrow> fsys \<Rightarrow> string + fsys) \<Rightarrow> bool" where
  "mount_ok mount \<longleftrightarrow>
     (\<forall>p data d d'. fs_wf d \<longrightarrow> fs_get d (path_comps p) = Some DirN \<longrightarrow> mount p data d = Inr d' \<longrightarrow>
        fs_wf d' \<and> fs_get d' (path_comps p) = Some DirN)"

lemma is_dir_iff: "fs_wf d \<Longrightarrow> os_is_dir d p \<longleftrightarrow> fs_get d p = Some DirN"
  using fs_wf_ancestors [of d p] walk_None_iff [of d "[]" p]
  by (cases "fs_get d p") (auto simp: os_is_dir_def os_stat_def split: option.splits)

lemma ensure_dir_all_ok:
  assumes "dir_exists_ok dirExists" and "fs_wf d" and "ensure_dir_all dirExists msg p d = Inr d'"
  shows "fs_wf d' \<and> fs_get d' (path_comps p) = Some DirN \<and>
    (\<forall>q. fs_get d q = Some DirN \<longrightarrow> fs_get d' q = Some DirN)"
proof (cases "dirExists d p")
  case True
  with assms show ?thesis by (auto simp: ensure_dir_all_def dir_exists_ok_def is_dir_iff)
next
  case False
  with assms(3) have mk: "os_mkdir_all d (path_comps p) = Inr d'"
    by (auto simp: ensure_dir_all_def wrap_err_def split: sum.splits)
  have "fs_get d' q = Some DirN" if "fs_get d q = Some DirN" for q
    using os_mkdir_all_frame [OF mk, of q] that by fastforce
  with os_mkdir_all_wf [OF mk assms(2)] show ?thesis by blast
qed

lemma copy_embedded_wf: "copy_embedded dst es d = (r, d') \<Longrightarrow> fs_wf d \<Longrightarrow> fs_wf d'"
proof (induction dst es d rule: copy_embedded.induct)
  case (2 dst path n es d)
  then show ?case
    by (cases n) (auto simp: Let_def os_mkdir_wf os_write_file_wf split: if_splits sum.splits)
qed simp

lemma Init_wf:
  assumes "Init dirExists embedded b d = (r, d')" and "fs_wf d"
  shows "fs_wf d'"
proof -
  have e: "fs_wf d2" if "ensure_dir dirExists msg p d1 = (r1, d2)" "fs_wf d1" for msg p d1 r1 d2
    using that by (auto simp: ensure_dir_def os_mkdir_wf split: if_splits sum.splits)
  have i: "fs_wf d2" if "install_defaultfs dirExists embedded p d1 = (r1, d2)" "fs_wf d1" for p d1 r1 d2
    using that by (auto simp: install_defaultfs_def os_mkdir_wf copy_embedded_wf
        split: if_splits sum.splits prod.splits option.splits)
  show ?thesis
    using assms by (auto simp: Init_def e i split: prod.splits option.splits)
qed

lemma session_fs_rooted:
  assumes "IsAbs (fm_baseDir m)"
  shows "fs_rooted (session_fs m key)"
proof -
  have ne: "fm_baseDir m \<noteq> []" using assms by auto
  then have "sandbox_path m key = PathJoin [fm_baseDir m, ''sandboxes'' @ ''/'' @ key]"
    by (simp add: sandbox_path_def PathJoin_def)
  then have a: "IsAbs (sandbox_path m key)" using PathJoin_abs(2) [OF assms] by simp
  have "path_comps (PathJoin [sandbox_path m key, ''merge-data'']) =
      path_comps (sandbox_path m key) @ [''merge-data'']"
    by (intro path_comps_Join_name a) (simp add: proper_comp_def)
  with PathJoin_abs(2) [OF a] show ?thesis
    by (simp add: fs_rooted_def merged_def session_fs_def)
qed

lemma Mount_ready:
  assumes "dir_exists_ok dirExists" and "mount_ok mount" and "fs_wf d" and "fs_rooted ofs"
    and "Mount dirExists mount ofs d = Inr d'"
  shows "fs_ready ofs d'"
proof -
  from assms(5) obtain d1 d2 d3 where
      1: "ensure_dir_all dirExists ''mkdir merged'' (ofs_mergedDir ofs) d = Inr d1"
    and 2: "ensure_dir_all dirExists ''mkdir workdir'' (ofs_workDir ofs) d1 = Inr d2"
    and 3: "ensure_dir_all dirExists ''mkdir upper'' (ofs_upperDir ofs) d2 = Inr d3"
    and 4: "mount (ofs_mergedDir ofs) (mount_data ofs) d3 = Inr d'"
    by (auto simp: Mount_def bind_res_def split: sum.splits if_splits)
  note e1 = ensure_dir_all_ok [OF assms(1) assms(3) 1]
  note e2 = ensure_dir_all_ok [OF assms(1) _ 2]
  note e3 = ensure_dir_all_ok [OF assms(1) _ 3]
  from e1 e2 e3 have "fs_wf d3 \<and> fs_get d3 (merged ofs) = Some DirN" by (auto simp: merged_def)
  with assms(2,4) 4 show ?thesis
    by (auto simp: mount_ok_def fs_ready_def merged_def)
qed

lemma FS_Mkdir_home:
  assumes "dir_exists_ok dirExists" and "fs_ready ofs d" and "FS_Mkdir ofs ''/home'' d = Inr d'"
  shows "fs_ready ofs d' \<and> FS_DirExists dirExists ofs d' ''/home''"
proof -
  have r: "fs_rooted ofs" and w: "fs_wf d" using assms(2) by (auto simp: fs_ready_def)
  have h: "host_path ofs ''/home'' = merged ofs @ [''home'']"
    using host_path_clean [OF r, of "[''home'']"] by (simp add: unsplit_def proper_comp_def)
  from assms(3) have i: "insideMerged ofs ''/home''" and mk: "os_mkdir d (merged ofs @ [''home'']) = Inr d'"
    by (auto simp: FS_Mkdir_def path_err_def h split: if_splits sum.splits)
  from os_mkdir_wf [OF mk w] os_mkdir_frame [OF mk] assms(2)
  have "fs_ready ofs d'" and "fs_wf d'" and "fs_get d' (host_path ofs ''/home'') = Some DirN"
    by (auto simp: fs_ready_def h)
  with assms(1) i show ?thesis
    by (simp add: FS_DirExists_def dir_exists_ok_def is_dir_iff host_path_def)
qed

lemma initOverlayFS_ready:
  assumes "dir_exists_ok dirExists" and "mount_ok mount" and "fs_wf d" and "IsAbs (fm_baseDir m)"
    and "fm_activeOverlays m = gm_empty"
    and "initOverlayFS dirExists mount now m d = Inr (ofs, m', d')"
  shows "fs_ready ofs d' \<and> FS_DirExists dirExists ofs d' ''/home''"
proof -
  from assms(6) obtain d1 d2 where
      n: "FS_NewSession dirExists (int_dec (now div second)) m d = Inr (ofs, m', d1)"
    and mt: "Mount dirExists mount ofs d1 = Inr d2"
    and h: "d' = d2 \<and> FS_DirExists dirExists ofs d2 ''/home'' \<or> FS_Mkdir ofs ''/home'' d2 = Inr d'"
    by (auto simp: initOverlayFS_def split: sum.splits if_splits)
  from n assms(5) have o: "ofs = session_fs m (int_dec (now div second))"
    by (auto simp: FS_NewSession_def Let_def bind_res_def split: sum.splits if_splits)
  from n obtain a where
      1: "ensure_dir_all dirExists ''make sandbox dir'' (sandbox_path m (int_dec (now div second))) d = Inr a"
    and 2: "ensure_dir_all dirExists ''make sandbox dir''
        (PathJoin [sandbox_path m (int_dec (now div second)), ''layers'']) a = Inr d1"
    by (auto simp: FS_NewSession_def Let_def bind_res_def split: sum.splits if_splits)
  have "fs_wf d1"
    using ensure_dir_all_ok [OF assms(1,3) 1] ensure_dir_all_ok [OF assms(1) _ 2] by blast
  with session_fs_rooted [OF assms(4)] o have "fs_ready ofs d2"
    using Mount_ready [OF assms(1,2) _ _ mt] by simp
  with h FS_Mkdir_home [OF assms(1)] show ?thesis by blast
qed

text \<open>A server that starts finds the file system as the shell needs it: when the base directory is
  absolute and mounting keeps the mount point a directory, a successful \<^verbatim>\<open>init\<close> ends with a rooted and
  mounted merged directory, a well-formed disk, and a directory \<^verbatim>\<open>/home\<close> inside the fake file system.\<close>

lemma ossh_init_setup:
  assumes "dir_exists_ok dirExists" and "mount_ok mount" and "fs_wf d" and "IsAbs (ffs_path c)"
    and "ossh_init fileExists dirExists mount embedded now c m d = Inr u"
  shows "fs_ready (u_fs u) (o_disk (u_ossh u)) \<and>
    FS_DirExists dirExists (u_fs u) (o_disk (u_ossh u)) ''/home'' \<and>
    length (u_addrs u) = length (c_Servers c) \<and>
    (\<exists>d'. u_ossh u = (NewOSSHServer fileExists c m d)\<lparr>o_disk := d'\<rparr>)"
proof -
  have d0: "o_disk (NewOSSHServer fileExists c m d) = d"
    by (simp add: NewOSSHServer_def split_def Let_def)
  from assms(5) obtain man d1 ofs man' d2 where
      i: "Init dirExists embedded (ffs_path c) d = (Inr man, d1)"
    and v: "initOverlayFS dirExists mount now man d1 = Inr (ofs, man', d2)"
    and u: "u = \<lparr>u_ossh = (NewOSSHServer fileExists c m d)\<lparr>o_disk := d2\<rparr>, u_fs = ofs,
              u_manager = man', u_addrs = listen_addrs c\<rparr>"
    unfolding ossh_init_def Let_def d0 bind_res_def by (auto split: prod.splits sum.splits)
  from i have "fm_baseDir man = ffs_path c" "fm_activeOverlays man = gm_empty"
    by (auto simp: Init_def split: prod.splits option.splits)
  with initOverlayFS_ready [OF assms(1,2) Init_wf [OF i assms(3)] _ _ v] assms(4) u show ?thesis
    by (auto simp: listen_addrs_def)
qed

end
