(* ===== verification/Sync_Server.thy ===== *)
theory Sync_Server
  imports Sync_Commands
begin

text \<open>
  \<^verbatim>\<open>sync_server.go\<close>: the connections of the sync server, its protocol (one line in, at most one
  command run), the admission of peers, and the clients it keeps. A network connection is a
  number; the handles the server has closed and the bytes it has written are recorded. The
  text of a peer is given as the list of the lines it sends. Log output is left out.
\<close>

section \<open>Connections\<close>

record ss_conn =
  cn_conn :: "nat option"
  cn_Host :: string
  cn_Port :: int
  cn_CreatedAt :: int
  cn_locked :: bool

record ss_conns =
  conns :: "(string, ss_conn) gomap"
  cs_closed :: "nat list"
  cs_sent :: "(nat \<times> string) list"

definition NewSyncServerConnections :: ss_conns where
  "NewSyncServerConnections = \<lparr>conns = gm_empty, cs_closed = [], cs_sent = []\<rparr>"

definition CLEANUP_SYNC_MIN_AGE :: int where
  "CLEANUP_SYNC_MIN_AGE = 120 * second"

text \<open>\<^verbatim>\<open>close\<close> of a connection takes its mutex, so it blocks (\<^term>\<open>None\<close>) while the connection is
  being handled.\<close>

definition cn_close :: "ss_conn \<Rightarrow> ss_conns \<Rightarrow> (ss_conn \<times> ss_conns) option" where
  "cn_close cn cs =
     (if cn_locked cn then None
      else case cn_conn cn of
             None \<Rightarrow> Some (cn, cs)
           | Some h \<Rightarrow> Some (cn\<lparr>cn_conn := None\<rparr>, cs\<lparr>cs_closed := cs_closed cs @ [h]\<rparr>))"

definition conn_id :: "string \<Rightarrow> int \<Rightarrow> string" where
  "conn_id host port = host_port host port"

definition ss_Create ::
  "int \<Rightarrow> nat \<Rightarrow> string \<Rightarrow> int \<Rightarrow> ss_conns \<Rightarrow> (ss_conn \<times> ss_conns) option" where
  "ss_Create now h host port cs =
     (let sid = conn_id host port;
          new = \<lparr>cn_conn = Some h, cn_Host = host, cn_Port = port, cn_CreatedAt = now,
                 cn_locked = False\<rparr>;
          put = (\<lambda>cs. (new, cs\<lparr>conns := gm_put sid new (conns cs)\<rparr>))
      in case gm_get sid (conns cs) of
           None \<Rightarrow> Some (put cs)
         | Some cn \<Rightarrow>
             (if cn_conn cn = None then Some (put cs)
              else if CLEANUP_SYNC_MIN_AGE < now - cn_CreatedAt cn
              then (case cn_close cn cs of None \<Rightarrow> None | Some (_, cs') \<Rightarrow> Some (put cs'))
              else Some (cn, cs)))"

datatype ss_result = SS_ok | SS_not_found

definition ss_Remove :: "string \<Rightarrow> int \<Rightarrow> ss_conns \<Rightarrow> (ss_result \<times> ss_conns) option" where
  "ss_Remove host port cs =
     (let sid = conn_id host port
      in case gm_get sid (conns cs) of
           None \<Rightarrow> Some (SS_not_found, cs)
         | Some cn \<Rightarrow>
             (case cn_close cn cs of
                None \<Rightarrow> None
              | Some (_, cs') \<Rightarrow> Some (SS_ok, cs'\<lparr>conns := gm_del sid (conns cs')\<rparr>)))"

text \<open>\<^verbatim>\<open>CleanUp\<close> visits the map in the order \<open>ks\<close>; it closes old connections and reports their hosts.\<close>

fun ss_CleanUp :: "int \<Rightarrow> string list \<Rightarrow> ss_conns \<Rightarrow> (string list \<times> ss_conns) option" where
  "ss_CleanUp now [] cs = Some ([], cs)"
| "ss_CleanUp now (k # ks) cs =
     (case gm_get k (conns cs) of
        None \<Rightarrow> ss_CleanUp now ks cs
      | Some cn \<Rightarrow>
          (if CLEANUP_SYNC_MIN_AGE < now - cn_CreatedAt cn
           then (case cn_close cn cs of
                   None \<Rightarrow> None
                 | Some (cn', cs') \<Rightarrow>
                     (case ss_CleanUp now ks (cs'\<lparr>conns := gm_put k cn' (conns cs')\<rparr>) of
                        None \<Rightarrow> None
                      | Some (removed, cs'') \<Rightarrow> Some (cn_Host cn # removed, cs'')))
           else ss_CleanUp now ks cs))"

fun ss_CloseAll :: "string list \<Rightarrow> ss_conns \<Rightarrow> ss_conns option" where
  "ss_CloseAll [] cs = Some cs"
| "ss_CloseAll (k # ks) cs =
     (case gm_get k (conns cs) of
        None \<Rightarrow> ss_CloseAll ks cs
      | Some cn \<Rightarrow>
          (case cn_close cn cs of
             None \<Rightarrow> None
           | Some (cn', cs') \<Rightarrow> ss_CloseAll ks (cs'\<lparr>conns := gm_put k cn' (conns cs')\<rparr>)))"

definition ss_Length :: "ss_conns \<Rightarrow> nat" where
  "ss_Length cs = gm_len (conns cs)"

definition ss_Hosts :: "(string \<Rightarrow> string) \<Rightarrow> string list \<Rightarrow> string list" where
  "ss_Hosts extractHost ks = map extractHost ks"

section \<open>The protocol\<close>

text \<open>What \<^verbatim>\<open>write\<close> puts on the connection.\<close>

definition ssc_write :: "gutils \<Rightarrow> string \<Rightarrow> string" where
  "ssc_write g msg0 =
     (let msg = TrimSpace msg0 in if msg = [] then [] else gu_EncodeGzBase64String g msg)"

definition InvalidCommand :: string where
  "InvalidCommand = ''Command not recognized''"

text \<open>\<open>run\<close> is \<^verbatim>\<open>SyncServerCommands.Run\<close> for the host of the connection. The result is the error, if
  any, the text written and the new state.\<close>

definition process ::
  "gutils \<Rightarrow> (string \<Rightarrow> string list \<Rightarrow> 's \<Rightarrow> (string + string) \<times> 's) \<Rightarrow> string \<Rightarrow> 's \<Rightarrow>
   string option \<times> string \<times> 's" where
  "process g run cmd st =
     (case Split (CHR '' '') cmd of
        [] \<Rightarrow> (Some ''invalid command'', ssc_write g InvalidCommand, st)
      | c # args \<Rightarrow>
          (case run c args st of
             (Inl e, st') \<Rightarrow> (Some e, ssc_write g [], st')
           | (Inr res, st') \<Rightarrow> (None, ssc_write g res, st')))"

text \<open>\<^verbatim>\<open>bufio.Scanner\<close>: the tokens it yields of the lines on the connection. A carriage return at the
  end of a line is dropped; a line that does not fit, with its newline, into the buffer of
  \<^verbatim>\<open>MaxScanTokenSize\<close> bytes ends the scan, and the code does not ask the scanner for its error.\<close>

definition MaxScanTokenSize :: nat where
  "MaxScanTokenSize = 64 * 1024"

definition dropCR :: "string \<Rightarrow> string" where
  "dropCR line = (if line \<noteq> [] \<and> last line = CHR 0x0D then butlast line else line)"

definition scan_lines :: "string list \<Rightarrow> string list" where
  "scan_lines lines = map dropCR (takeWhile (\<lambda>l. length l < MaxScanTokenSize) lines)"

text \<open>The loop of \<^verbatim>\<open>handleConnection\<close>, over the tokens of the scanner.\<close>

fun handleConnection ::
  "gutils \<Rightarrow> (string \<Rightarrow> string list \<Rightarrow> 's \<Rightarrow> (string + string) \<times> 's) \<Rightarrow> string list \<Rightarrow> 's \<Rightarrow>
   string option \<times> string \<times> 's" where
  "handleConnection g run [] st = (None, [], st)"
| "handleConnection g run (line # lines) st =
     (case gu_DecodeGzBase64String g line of
        None \<Rightarrow> (Some ''could not decode input'', [], st)
      | Some data \<Rightarrow>
          (if data = [] then
             (case handleConnection g run lines st of (e, out, st') \<Rightarrow> (e, ssc_write g [] @ out, st'))
           else if data = ExitCommand then (None, [], st)
           else process g run data st))"

section \<open>The server\<close>

record sync_server =
  v_node :: node_st
  v_conns :: ss_conns
  v_conf :: conf

definition SS_AddClient :: "conf \<Rightarrow> string \<Rightarrow> int \<Rightarrow> sync_nodes \<Rightarrow> sync_nodes" where
  "SS_AddClient c host port sn =
     (if host = c_SyncHost c \<and> port = c_SyncPort c then sn
      else AddClient (NewSyncClient host port) sn)"

definition SS_RemoveClient :: "string \<Rightarrow> int \<Rightarrow> sync_nodes \<Rightarrow> sync_nodes" where
  "SS_RemoveClient host port sn = RemoveClient (host_port host port) sn"

definition SS_GetClient :: "string \<Rightarrow> int \<Rightarrow> sync_nodes \<Rightarrow> string + sync_client" where
  "SS_GetClient host port sn =
     (if HasClient (host_port host port) sn then GetClient (host_port host port) sn
      else Inl ''sync client not found'')"

definition NewSyncServer :: "ossh \<Rightarrow> conf \<Rightarrow> sync_server" where
  "NewSyncServer o1 c =
     \<lparr>v_node = \<lparr>y_ossh = o1, y_nodes = NewSyncNodes\<rparr>, v_conns = NewSyncServerConnections, v_conf = c\<rparr>"

definition SS_close :: "string list \<Rightarrow> sync_server \<Rightarrow> sync_server option" where
  "SS_close ks v = map_option (\<lambda>cs. v\<lparr>v_conns := cs\<rparr>) (ss_CloseAll ks (v_conns v))"

text \<open>What is sent to the peers, and what they answered.\<close>

definition SS_Broadcast ::
  "gutils \<Rightarrow> 'w net \<Rightarrow> string \<Rightarrow> string list \<Rightarrow> sync_nodes \<times> 'w \<Rightarrow> (string, string) gomap \<times> sync_nodes \<times> 'w" where
  [simp]: "SS_Broadcast g n msg ks s = ExecBroadcast g n msg ks s"

definition SS_Exec ::
  "gutils \<Rightarrow> 'w net \<Rightarrow> string \<Rightarrow> string list \<Rightarrow> sync_nodes \<times> 'w \<Rightarrow> string \<times> sync_nodes \<times> 'w" where
  "SS_Exec g n msg ks s = Nodes_Exec g n msg ks s"

definition GetOutOfSyncNodes ::
  "gutils \<Rightarrow> 'w net \<Rightarrow> string \<Rightarrow> string list \<Rightarrow> sync_nodes \<times> 'w \<Rightarrow> (string, string) gomap \<times> sync_nodes \<times> 'w" where
  "GetOutOfSyncNodes g n fingerprint ks s = SS_Broadcast g n (''SYNC '' @ fingerprint) ks s"

text \<open>One pass of \<^verbatim>\<open>CleanUpWorker\<close>: what it reports is logged only.\<close>

definition SS_CleanUpWorker :: "int \<Rightarrow> string list \<Rightarrow> sync_server \<Rightarrow> sync_server option" where
  "SS_CleanUpWorker now ks v =
     map_option (\<lambda>(removed, cs). v\<lparr>v_conns := cs\<rparr>) (ss_CleanUp now ks (v_conns v))"

text \<open>\<^verbatim>\<open>UpdateClients\<close>: drop every client, closing its connection (nil if it never connected) and taking
  its address off the whitelist, then add the configured nodes except this one.\<close>

fun drop_clients :: "string list \<Rightarrow> conf \<Rightarrow> sync_nodes \<Rightarrow> go_panic option \<times> conf \<times> sync_nodes" where
  "drop_clients [] c sn = (None, c, sn)"
| "drop_clients (k # ks) c sn =
     (case gm_get k (n_clients sn) of
        None \<Rightarrow> drop_clients ks c sn
      | Some sc \<Rightarrow>
          (if \<not> sc_connected sc then (Some NilDeref, c, sn)
           else drop_clients ks (c\<lparr>c_IPWhitelist := remove1 (sc_Host sc) (c_IPWhitelist c)\<rparr>)
                  (SS_RemoveClient (sc_Host sc) (sc_Port sc) sn)))"

definition add_node :: "sync_node \<Rightarrow> conf \<times> sync_nodes \<Rightarrow> conf \<times> sync_nodes" where
  "add_node nd = (\<lambda>(c, sn).
     (if node_Host nd \<noteq> c_SyncHost c \<or> node_Port nd \<noteq> c_SyncPort c
      then (c\<lparr>c_IPWhitelist := c_IPWhitelist c @ [node_Host nd]\<rparr>,
            AddClient (NewSyncClient (node_Host nd) (node_Port nd)) sn)
      else (c, sn)))"

definition UpdateClients ::
  "string list \<Rightarrow> conf \<Rightarrow> sync_nodes \<Rightarrow> go_panic option \<times> conf \<times> sync_nodes" where
  "UpdateClients ks c sn =
     (case drop_clients ks c sn of
        (Some e, c1, sn1) \<Rightarrow> (Some e, c1, sn1)
      | (None, c1, sn1) \<Rightarrow> (None, fold add_node (c_SyncNodes c1) (c1, sn1)))"

text \<open>One round of \<^verbatim>\<open>ConnectionHandler\<close> and, for an admitted peer, the goroutine it starts, run to its
  end before the next round. After a failed \<^verbatim>\<open>Accept\<close> the code closes the nil connection. \<open>None\<close> is a
  round that blocks on a mutex.\<close>

datatype accepted = AcceptError | Accepted nat string int "string list"

definition write_conn :: "nat option \<Rightarrow> string \<Rightarrow> ss_conns \<Rightarrow> ss_conns" where
  "write_conn h out cs =
     (case h of None \<Rightarrow> cs | Some h \<Rightarrow> (if out = [] then cs else cs\<lparr>cs_sent := cs_sent cs @ [(h, out)]\<rparr>))"

definition handle_goroutine ::
  "gutils \<Rightarrow> orders \<Rightarrow> ss_conn \<Rightarrow> string list \<Rightarrow> sync_server \<Rightarrow> string option \<times> sync_server" where
  "handle_goroutine g ord ssc lines v =
     (if cn_conn ssc = None then (Some ''not connected'', v)
      else case handleConnection g (\<lambda>cmd. Run g ord (v_conf v) cmd (cn_Host ssc)) (scan_lines lines) (v_node v) of
             (e, out, st) \<Rightarrow>
               (e, v\<lparr>v_node := st, v_conns := write_conn (cn_conn ssc) out (v_conns v)\<rparr>))"

definition ConnectionHandler ::
  "gutils \<Rightarrow> orders \<Rightarrow> int \<Rightarrow> string \<Rightarrow> accepted \<Rightarrow> sync_server \<Rightarrow> (go_panic + sync_server) option" where
  "ConnectionHandler g ord now garbage a v =
     (case a of
        AcceptError \<Rightarrow> Some (Inl NilDeref)
      | Accepted h host port lines \<Rightarrow>
          (case ss_Create now h host port (v_conns v) of
             None \<Rightarrow> None
           | Some (ssc, cs) \<Rightarrow>
               (let v1 = v\<lparr>v_conns := cs\<rparr>;
                    v2 = (if \<not> IsAllowedHost host (y_nodes (v_node v1))
                          then v1\<lparr>v_conns := write_conn (cn_conn ssc) (ssc_write g garbage) cs\<rparr>
                          else snd (handle_goroutine g ord ssc lines v1))
                in case ss_Remove host port (v_conns v2) of
                     None \<Rightarrow> None
                   | Some (r, cs') \<Rightarrow> Some (Inr (v2\<lparr>v_conns := cs'\<rparr>)))))"

section \<open>The protocol runs at most one command\<close>

lemma ssc_write_Nil [simp]: "ssc_write g [] = []"
  by (simp add: ssc_write_def)

text \<open>Of the lines the scanner yields, the empty ones are skipped and only the first other line counts: an
  undecodable line ends the connection with an error, \<open>exit\<close> ends it, and any other line runs one
  command, whose trimmed response is the only output. Nothing after that line is ever read.\<close>

theorem handleConnection_one_command:
  "handleConnection g run lines st =
     (case dropWhile (\<lambda>l. gu_DecodeGzBase64String g l = Some []) lines of
        [] \<Rightarrow> (None, [], st)
      | l # rest \<Rightarrow>
          (case gu_DecodeGzBase64String g l of
             None \<Rightarrow> (Some ''could not decode input'', [], st)
           | Some data \<Rightarrow>
               (if data = ''exit'' then (None, [], st)
                else case run (hd (Split (CHR '' '') data)) (tl (Split (CHR '' '') data)) st of
                       (Inl e, st') \<Rightarrow> (Some e, [], st')
                     | (Inr res, st') \<Rightarrow>
                         (None, if TrimSpace res = [] then []
                                else gu_EncodeGzBase64String g (TrimSpace res), st'))))"
proof (induction lines)
  case Nil
  then show ?case by simp
next
  case (Cons l ls)
  have "process g run data st =
      (case run (hd (Split (CHR '' '') data)) (tl (Split (CHR '' '') data)) st of
         (Inl e, st') \<Rightarrow> (Some e, [], st')
       | (Inr res, st') \<Rightarrow> (None, if TrimSpace res = [] then []
           else gu_EncodeGzBase64String g (TrimSpace res), st'))" for data
    using Split_nonempty [of "CHR '' ''" data]
    by (cases "Split (CHR '' '') data")
      (auto simp: process_def ssc_write_def Let_def split: prod.split sum.split)
  with Cons show ?case by (auto simp: ExitCommand_def split: option.splits)
qed

section \<open>Admission\<close>

definition conns_inv :: "ss_conns \<Rightarrow> bool" where
  "conns_inv cs \<longleftrightarrow> gm_inv (conns cs) \<and> (\<forall>k cn. gm_get k (conns cs) = Some cn \<longrightarrow> \<not> cn_locked cn)"

text \<open>C31. A connection from a host that is neither whitelisted nor the host of a sync client runs no
  command: the node is unchanged and the peer only gets garbage. A connection from the host of a sync
  client is served: the node changes as the protocol says for the lines the scanner yields. Every
  connection is closed and forgotten at the end of its round. A failing \<^verbatim>\<open>Accept\<close> makes the server
  dereference a nil connection.\<close>

theorem ConnectionHandler_admission:
  assumes "conns_inv (v_conns v)" and "gm_get (host_port host port) (conns (v_conns v)) = None"
  shows "ConnectionHandler g ord now garbage AcceptError v = Some (Inl NilDeref) \<and>
    (\<exists>v'. ConnectionHandler g ord now garbage (Accepted h host port lines) v = Some (Inr v') \<and>
      conns_inv (v_conns v') \<and> cs_closed (v_conns v') = cs_closed (v_conns v) @ [h] \<and>
      gm_get (host_port host port) (conns (v_conns v')) = None \<and>
      (IsAllowedHost host (y_nodes (v_node v)) \<longrightarrow>
        v_node v' = snd (snd (handleConnection g
          (\<lambda>cmd. Run g ord (v_conf v) cmd host) (scan_lines lines) (v_node v)))) \<and>
      (\<not> IsAllowedHost host (y_nodes (v_node v)) \<and> \<not> isIPWhitelisted (v_conf v) host \<longrightarrow>
        v_node v' = v_node v \<and>
        cs_sent (v_conns v') = cs_sent (v_conns v) @
          (if ssc_write g garbage = [] then [] else [(h, ssc_write g garbage)])))"
proof -
  let ?sid = "host_port host port"
  let ?cn = "\<lparr>cn_conn = Some h, cn_Host = host, cn_Port = port, cn_CreatedAt = now, cn_locked = False\<rparr>"
  let ?cs = "(v_conns v)\<lparr>conns := gm_put ?sid ?cn (conns (v_conns v))\<rparr>"
  have inv: "gm_inv (conns (v_conns v))" using assms(1) by (simp add: conns_inv_def)
  have cr: "ss_Create now h host port (v_conns v) = Some (?cn, ?cs)"
    using assms(2) by (simp add: ss_Create_def conn_id_def Let_def)
  have w: "conns (write_conn x out cs) = conns cs" "cs_closed (write_conn x out cs) = cs_closed cs" for x out cs
    by (simp_all add: write_conn_def split: option.split)
  have rm: "ss_Remove host port (write_conn x out ?cs) =
      Some (SS_ok, (write_conn x out ?cs)\<lparr>cs_closed := cs_closed (v_conns v) @ [h],
        conns := gm_del ?sid (gm_put ?sid ?cn (conns (v_conns v)))\<rparr>)" for x out
    using w [of x out ?cs] by (simp add: ss_Remove_def conn_id_def gm.get_put cn_close_def Let_def)
  have ok: "conns_inv (cs\<lparr>cs_closed := c, conns := gm_del ?sid (gm_put ?sid ?cn (conns (v_conns v)))\<rparr>)" for cs c
    using assms(1) inv by (auto simp: conns_inv_def gm.inv_put gm.inv_del gm.get_del gm.get_put
        split: if_splits)
  have n: "gm_get ?sid (gm_del ?sid (gm_put ?sid ?cn (conns (v_conns v)))) = None"
    using inv by (simp add: gm.get_del gm.inv_put)
  obtain e out st where hc: "handleConnection g (\<lambda>cmd. Run g ord (v_conf v) cmd host) (scan_lines lines) (v_node v) =
      (e, out, st)" by (metis prod_cases3)
  show ?thesis
  proof (cases "IsAllowedHost host (y_nodes (v_node v))")
    case True
    then show ?thesis
      using cr hc rm [of "Some h" out] ok n
      by (simp add: ConnectionHandler_def handle_goroutine_def Let_def)
  next
    case False
    then show ?thesis
      using cr rm [of "Some h" "ssc_write g garbage"] ok n
      by (simp add: ConnectionHandler_def Let_def write_conn_def)
  qed
qed

definition sample_server :: sync_server where
  "sample_server = \<lparr>v_node = sample_node, v_conns = NewSyncServerConnections, v_conf = sample_conf\<rparr>"

theorem ConnectionHandler_admission_witness:
  "\<exists>v'. ConnectionHandler sample_gutils sample_orders 5 ''???'' (Accepted 3 ''6.6.6.6'' 99 [''x'']) sample_server =
     Some (Inr v') \<and> v_node v' = sample_node"
proof -
  have "conns_inv (v_conns sample_server)"
    by (simp add: conns_inv_def sample_server_def NewSyncServerConnections_def)
  moreover have "\<not> IsAllowedHost ''6.6.6.6'' (y_nodes (v_node sample_server))"
    by (simp add: IsAllowedHost_def sample_server_def sample_node_def NewSyncNodes_def)
  moreover have "\<not> isIPWhitelisted (v_conf sample_server) ''6.6.6.6''"
    by (simp add: isIPWhitelisted_iff sample_server_def sample_conf_def)
  ultimately show ?thesis
    using ConnectionHandler_admission [of sample_server "''6.6.6.6''" 99 sample_gutils sample_orders 5
        "''???''" 3 "[''x'']"]
    by (auto simp: sample_server_def NewSyncServerConnections_def)
qed

section \<open>Cleaning up connections\<close>

definition old_conn :: "int \<Rightarrow> ss_conn \<Rightarrow> bool" where
  "old_conn now cn \<longleftrightarrow> CLEANUP_SYNC_MIN_AGE < now - cn_CreatedAt cn"

definition busy_old :: "int \<Rightarrow> string list \<Rightarrow> ss_conns \<Rightarrow> bool" where
  "busy_old now ks cs \<longleftrightarrow>
     (\<exists>k \<in> set ks. \<exists>cn. gm_get k (conns cs) = Some cn \<and> old_conn now cn \<and> cn_locked cn)"

definition closed_conn :: "int \<Rightarrow> ss_conn \<Rightarrow> ss_conn" where
  "closed_conn now cn = (if old_conn now cn then cn\<lparr>cn_conn := None\<rparr> else cn)"

definition old_hosts :: "int \<Rightarrow> string list \<Rightarrow> ss_conns \<Rightarrow> string list" where
  "old_hosts now ks cs =
     concat (map (\<lambda>k. case gm_get k (conns cs) of
       Some cn \<Rightarrow> (if old_conn now cn then [cn_Host cn] else []) | None \<Rightarrow> []) ks)"

lemma cn_close_free:
  assumes "\<not> cn_locked cn"
  obtains cs' where "cn_close cn cs = Some (cn\<lparr>cn_conn := None\<rparr>, cs')" and "conns cs' = conns cs"
  using assms by (cases "cn_conn cn"; cases cn) (auto simp: cn_close_def)

lemma CleanUp_eq:
  assumes "distinct ks"
  shows "if busy_old now ks cs then ss_CleanUp now ks cs = None
    else \<exists>cs'. ss_CleanUp now ks cs = Some (old_hosts now ks cs, cs') \<and>
      (\<forall>k. gm_get k (conns cs') =
        (if k \<in> set ks then map_option (closed_conn now) (gm_get k (conns cs)) else gm_get k (conns cs)))"
  using assms
proof (induction ks arbitrary: cs)
  case Nil
  then show ?case by (simp add: busy_old_def old_hosts_def)
next
  case (Cons k ks)
  show ?case
  proof (cases "gm_get k (conns cs)")
    case None
    then have "ss_CleanUp now (k # ks) cs = ss_CleanUp now ks cs" by simp
    moreover have "busy_old now (k # ks) cs = busy_old now ks cs"
      "old_hosts now (k # ks) cs = old_hosts now ks cs"
      using None by (auto simp: busy_old_def old_hosts_def)
    moreover have "(if j \<in> set (k # ks) then map_option (closed_conn now) (gm_get j (conns cs))
        else gm_get j (conns cs)) = (if j \<in> set ks then map_option (closed_conn now) (gm_get j (conns cs))
        else gm_get j (conns cs))" for j
      using None by auto
    ultimately show ?thesis using Cons.IH [of cs] Cons.prems by (simp del: list.set)
  next
    case (Some cn)
    show ?thesis
    proof (cases "old_conn now cn")
      case False
      then have "ss_CleanUp now (k # ks) cs = ss_CleanUp now ks cs"
        using Some by (simp add: old_conn_def)
      moreover have "busy_old now (k # ks) cs = busy_old now ks cs"
        "old_hosts now (k # ks) cs = old_hosts now ks cs"
        using Some False by (auto simp: busy_old_def old_hosts_def)
      moreover have "(if j \<in> set (k # ks) then map_option (closed_conn now) (gm_get j (conns cs))
          else gm_get j (conns cs)) = (if j \<in> set ks then map_option (closed_conn now) (gm_get j (conns cs))
          else gm_get j (conns cs))" for j
        using Some False by (auto simp: closed_conn_def)
      ultimately show ?thesis using Cons.IH [of cs] Cons.prems by (simp del: list.set)
    next
      case old: True
      show ?thesis
      proof (cases "cn_locked cn")
        case True
        then have "ss_CleanUp now (k # ks) cs = None" "busy_old now (k # ks) cs"
          using Some old by (auto simp: busy_old_def old_conn_def cn_close_def)
        then show ?thesis by simp
      next
        case False
        obtain cs0 where cl: "cn_close cn cs = Some (cn\<lparr>cn_conn := None\<rparr>, cs0)" "conns cs0 = conns cs"
          using cn_close_free [OF False] by blast
        define cs1 where "cs1 = cs0\<lparr>conns := gm_put k (cn\<lparr>cn_conn := None\<rparr>) (conns cs0)\<rparr>"
        have g1: "gm_get j (conns cs1) =
            (if j = k then Some (cn\<lparr>cn_conn := None\<rparr>) else gm_get j (conns cs))" for j
          using cl(2) by (simp add: cs1_def gm.get_put)
        have st: "ss_CleanUp now (k # ks) cs =
            map_option (\<lambda>(r, cs'). (cn_Host cn # r, cs')) (ss_CleanUp now ks cs1)"
          using Some old cl(1)
          by (simp add: old_conn_def cs1_def split: option.split)
        have k: "k \<notin> set ks" using Cons.prems by simp
        have b: "busy_old now (k # ks) cs = busy_old now ks cs1"
        proof -
          have "gm_get j (conns cs1) = gm_get j (conns cs)" if "j \<in> set ks" for j
            using that k g1 by auto
          then have "busy_old now ks cs1 = busy_old now ks cs" unfolding busy_old_def by metis
          then show ?thesis using Some False by (auto simp: busy_old_def)
        qed
        have o: "old_hosts now (k # ks) cs = cn_Host cn # old_hosts now ks cs1"
        proof -
          have "gm_get j (conns cs1) = gm_get j (conns cs)" if "j \<in> set ks" for j
            using that k g1 by auto
          then have "old_hosts now ks cs1 = old_hosts now ks cs"
            unfolding old_hosts_def by (metis (no_types, lifting) map_eq_conv)
          then show ?thesis using Some old by (simp add: old_hosts_def)
        qed
        have c: "closed_conn now cn = cn\<lparr>cn_conn := None\<rparr>" using old by (simp add: closed_conn_def)
        show ?thesis
        proof (cases "busy_old now ks cs1")
          case True
          with Cons.IH [of cs1] Cons.prems b st show ?thesis by simp
        next
          case False
          with Cons.IH [of cs1] Cons.prems obtain cs' where
            "ss_CleanUp now ks cs1 = Some (old_hosts now ks cs1, cs')"
            "\<forall>j. gm_get j (conns cs') = (if j \<in> set ks
               then map_option (closed_conn now) (gm_get j (conns cs1)) else gm_get j (conns cs1))"
            by auto
          note cs' = this
          have "gm_get j (conns cs') = (if j \<in> set (k # ks)
               then map_option (closed_conn now) (gm_get j (conns cs)) else gm_get j (conns cs))" for j
          proof (cases "j = k")
            case True
            then show ?thesis using cs'(2) k g1 [of j] Some c by simp
          next
            case False
            then show ?thesis using cs'(2) g1 [of j] by simp
          qed
          moreover have "ss_CleanUp now (k # ks) cs = Some (old_hosts now (k # ks) cs, cs')"
            using st cs'(1) o by simp
          ultimately show ?thesis using False b by (simp del: ss_CleanUp.simps list.set)
        qed
      qed
    qed
  qed
qed

text \<open>The clean-up of the sync server blocks, holding the mutex of all connections, exactly when some
  connection older than two minutes is still being handled; otherwise it closes the connections of
  exactly the old entries and reports their hosts. It keeps every entry in the map, so it reports
  the same hosts again in the next pass.\<close>

theorem CleanUp_blocks_or_closes:
  assumes "gm_inv (conns cs)" and "map_order (conns cs) ks"
  shows "if \<exists>k cn. gm_get k (conns cs) = Some cn \<and> old_conn now cn \<and> cn_locked cn
    then ss_CleanUp now ks cs = None
    else \<exists>cs'. ss_CleanUp now ks cs = Some (old_hosts now ks cs, cs') \<and>
      (\<forall>k. gm_get k (conns cs') = map_option (closed_conn now) (gm_get k (conns cs)))"
proof -
  have s: "k \<in> set ks" if "gm_get k (conns cs) = Some cn" for k cn
    using that map_order_set [OF assms(2)] by (simp add: gm_has_def)
  then have b: "(\<exists>k cn. gm_get k (conns cs) = Some cn \<and> old_conn now cn \<and> cn_locked cn) \<longleftrightarrow>
      busy_old now ks cs"
    unfolding busy_old_def by blast
  have e: "(if k \<in> set ks then map_option (closed_conn now) (gm_get k (conns cs))
      else gm_get k (conns cs)) = map_option (closed_conn now) (gm_get k (conns cs))" for k
    using s by (cases "gm_get k (conns cs)") auto
  show ?thesis
    using CleanUp_eq [OF map_order_distinct [OF assms], of now cs] unfolding b e .
qed

theorem CleanUp_blocks_or_closes_witness:
  "ss_CleanUp (121 * second) [''10.0.0.2:99'']
     \<lparr>conns = [(''10.0.0.2:99'', \<lparr>cn_conn = Some 1, cn_Host = ''10.0.0.2'', cn_Port = 99,
        cn_CreatedAt = 0, cn_locked = True\<rparr>)], cs_closed = [], cs_sent = []\<rparr> = None"
  (is "ss_CleanUp _ _ ?cs = None")
proof -
  have "gm_inv (conns ?cs)" "map_order (conns ?cs) [''10.0.0.2:99'']"
    by (simp_all add: gm_inv_def map_order_def gm_keys_def)
  moreover have "\<exists>k cn. gm_get k (conns ?cs) = Some cn \<and> old_conn (121 * second) cn \<and> cn_locked cn"
    by (intro exI [of _ "''10.0.0.2:99''"])
      (simp add: gm_get_def old_conn_def CLEANUP_SYNC_MIN_AGE_def second_def)
  ultimately show ?thesis
    using CleanUp_blocks_or_closes [of ?cs "[''10.0.0.2:99'']" "121 * second"] by (simp del: ss_CleanUp.simps)
qed

section \<open>The clients\<close>

lemma SS_AddClient_own: "SS_AddClient c (c_SyncHost c) (c_SyncPort c) sn = sn"
  by (simp add: SS_AddClient_def)

interpretation peers: register
  "\<lambda>(h, p) sn. HasClient (host_port h p) sn" "\<lambda>(h, p). SS_AddClient c h p"
  "\<lambda>sn. gm_len (n_clients sn)" "\<lambda>hp. hp" "\<lambda>(h, p). h \<noteq> c_SyncHost c \<or> p \<noteq> c_SyncPort c" nodes_inv
  for c
  by unfold_locales
    (auto simp: SS_AddClient_def HasClient_def AddClient_def NewSyncClient_def sc_ID_def gm_has_put
      gm_len_put nodes_inv_def gm.inv_put gm.get_put host_port_inj split: if_splits)

lemma drop_clients_spec:
  assumes "nodes_inv sn" and "distinct ks"
  shows "if \<exists>k \<in> set ks. \<exists>sc. gm_get k (n_clients sn) = Some sc \<and> \<not> sc_connected sc
    then fst (drop_clients ks c sn) = Some NilDeref
    else \<exists>wl sn'. drop_clients ks c sn = (None, c\<lparr>c_IPWhitelist := wl\<rparr>, sn') \<and> nodes_inv sn' \<and>
      (\<forall>i. gm_get i (n_clients sn') = (if i \<in> set ks then None else gm_get i (n_clients sn)))"
  using assms
proof (induction ks arbitrary: c sn)
  case Nil
  have "drop_clients [] c sn = (None, c\<lparr>c_IPWhitelist := c_IPWhitelist c\<rparr>, sn)" by simp
  with Nil(1) show ?case
    by (simp only: list.set bex_empty empty_iff if_False not_False_eq_True simp_thms) blast
next
  case (Cons k ks)
  show ?case
  proof (cases "gm_get k (n_clients sn)")
    case None
    then have "drop_clients (k # ks) c sn = drop_clients ks c sn" by simp
    moreover have "(if i \<in> set (k # ks) then None else gm_get i (n_clients sn)) =
        (if i \<in> set ks then None else gm_get i (n_clients sn))" for i
      using None by auto
    ultimately show ?thesis
      using Cons.IH [OF Cons.prems(1), of c] Cons.prems(2) None by (simp del: drop_clients.simps)
  next
    case (Some sc)
    show ?thesis
    proof (cases "sc_connected sc")
      case False
      with Some show ?thesis by auto
    next
      case True
      let ?c = "c\<lparr>c_IPWhitelist := remove1 (sc_Host sc) (c_IPWhitelist c)\<rparr>"
      let ?sn = "RemoveClient k sn"
      have id: "host_port (sc_Host sc) (sc_Port sc) = k"
        using Cons.prems(1) Some by (simp add: nodes_inv_def sc_ID_def)
      have inv: "nodes_inv ?sn" by (rule nodes_ops_inv(2) [OF Cons.prems(1)])
      have g: "gm_get i (n_clients ?sn) = (if i = k then None else gm_get i (n_clients sn))" for i
        using Cons.prems(1) Some
        by (auto simp: RemoveClient_def HasClient_def gm_has_def gm.get_del nodes_inv_def)
      have st: "drop_clients (k # ks) c sn = drop_clients ks ?c ?sn"
        using Some True id by (simp add: SS_RemoveClient_def)
      have k: "k \<notin> set ks" using Cons.prems(2) by simp
      have p: "(\<exists>i \<in> set (k # ks). \<exists>sc. gm_get i (n_clients sn) = Some sc \<and> \<not> sc_connected sc) \<longleftrightarrow>
          (\<exists>i \<in> set ks. \<exists>sc. gm_get i (n_clients ?sn) = Some sc \<and> \<not> sc_connected sc)"
        using Some True k g by (metis option.inject set_ConsD list.set_intros(2))
      have e: "(if i \<in> set (k # ks) then None else gm_get i (n_clients sn)) =
          (if i \<in> set ks then None else gm_get i (n_clients ?sn))" for i
        using g by auto
      have c: "?c\<lparr>c_IPWhitelist := wl\<rparr> = c\<lparr>c_IPWhitelist := wl\<rparr>" for wl by simp
      have "distinct ks" using Cons.prems(2) by simp
      from Cons.IH [OF inv this, of ?c] show ?thesis unfolding p e st c .
    qed
  qed
qed

lemma add_nodes_eq:
  "fold add_node nds (c, sn) =
     (c\<lparr>c_IPWhitelist := c_IPWhitelist c @ map node_Host (filter (\<lambda>nd. node_Host nd \<noteq> c_SyncHost c \<or>
          node_Port nd \<noteq> c_SyncPort c) nds)\<rparr>,
      fold (\<lambda>(h, p). SS_AddClient c h p) (map (\<lambda>nd. (node_Host nd, node_Port nd)) nds) sn)"
proof (induction nds arbitrary: c sn)
  case Nil
  then show ?case by simp
next
  case (Cons nd nds)
  have same: "(\<lambda>(h, p). SS_AddClient (c\<lparr>c_IPWhitelist := wl\<rparr>) h p) = (\<lambda>(h, p). SS_AddClient c h p)" for wl
    by (simp add: fun_eq_iff SS_AddClient_def)
  show ?case
    using Cons.IH [of "c\<lparr>c_IPWhitelist := c_IPWhitelist c @ [node_Host nd]\<rparr>"] Cons.IH [of c]
    by (simp add: add_node_def SS_AddClient_def same)
qed

text \<open>Updating the clients panics exactly when some client has never connected (its connection is
  nil); otherwise the clients are afterwards exactly the configured nodes other than this one, and
  their hosts are on the whitelist.\<close>

lemma UpdateClients_spec:
  assumes "nodes_inv sn" and "map_order (n_clients sn) ks"
  shows "if \<exists>k sc. gm_get k (n_clients sn) = Some sc \<and> \<not> sc_connected sc
    then fst (UpdateClients ks c sn) = Some NilDeref
    else \<exists>c' sn'. UpdateClients ks c sn = (None, c', sn') \<and> nodes_inv sn' \<and>
      (\<forall>h p. HasClient (host_port h p) sn' \<longleftrightarrow>
        (h \<noteq> c_SyncHost c \<or> p \<noteq> c_SyncPort c) \<and>
        (\<exists>nd \<in> set (c_SyncNodes c). node_Host nd = h \<and> node_Port nd = p)) \<and>
      (\<forall>nd \<in> set (c_SyncNodes c). (node_Host nd \<noteq> c_SyncHost c \<or> node_Port nd \<noteq> c_SyncPort c) \<longrightarrow>
        isIPWhitelisted c' (node_Host nd)) \<and> (\<exists>wl. c' = c\<lparr>c_IPWhitelist := wl\<rparr>)"
proof -
  have s: "k \<in> set ks" if "gm_get k (n_clients sn) = Some sc" for k sc
    using that map_order_set [OF assms(2)] by (simp add: gm_has_def)
  have d: "distinct ks"
    using assms map_order_distinct [of "n_clients sn" ks] by (simp add: nodes_inv_def)
  note dc = drop_clients_spec [OF assms(1) d, of c]
  show ?thesis
  proof (cases "\<exists>k sc. gm_get k (n_clients sn) = Some sc \<and> \<not> sc_connected sc")
    case True
    with s dc have "fst (drop_clients ks c sn) = Some NilDeref" by (auto split: if_splits)
    with True show ?thesis by (auto simp: UpdateClients_def split: prod.splits option.splits)
  next
    case False
    then have "\<not> (\<exists>k \<in> set ks. \<exists>sc. gm_get k (n_clients sn) = Some sc \<and> \<not> sc_connected sc)" by blast
    with dc obtain wl sn1 where 1: "drop_clients ks c sn = (None, c\<lparr>c_IPWhitelist := wl\<rparr>, sn1)"
      "nodes_inv sn1" "\<forall>i. gm_get i (n_clients sn1) = (if i \<in> set ks then None else gm_get i (n_clients sn))"
      unfolding if_not_P [OF \<open>\<not> (\<exists>k \<in> set ks. \<exists>sc. gm_get k (n_clients sn) = Some sc \<and> \<not> sc_connected sc)\<close>]
      by blast
    have none: "\<not> HasClient i sn1" for i
      using 1(3) s by (cases "gm_get i (n_clients sn)") (auto simp: HasClient_def gm_has_def)
    let ?c = "c\<lparr>c_IPWhitelist := wl\<rparr>"
    let ?hps = "map (\<lambda>nd. (node_Host nd, node_Port nd)) (c_SyncNodes c)"
    let ?sn' = "fold (\<lambda>(h, p). SS_AddClient ?c h p) ?hps sn1"
    have "HasClient (host_port h p) ?sn' \<longleftrightarrow> (h \<noteq> c_SyncHost c \<or> p \<noteq> c_SyncPort c) \<and>
        (\<exists>nd \<in> set (c_SyncNodes c). node_Host nd = h \<and> node_Port nd = p)" for h p
      using peers.has_adds [OF 1(2), of "(h, p)" ?c ?hps] none [of "host_port h p"] by auto
    moreover have "nodes_inv ?sn'" using peers.inv_adds [OF 1(2), of ?c ?hps] .
    ultimately show ?thesis
      using False 1(1) by (auto simp: UpdateClients_def add_nodes_eq isIPWhitelisted_iff)
  qed
qed

theorem UpdateClients_spec_witness:
  "fst (UpdateClients [''10.0.0.2:1337''] sample_conf
     (SS_AddClient sample_conf ''10.0.0.2'' 1337 NewSyncNodes)) = Some NilDeref"
proof -
  let ?sn = "SS_AddClient sample_conf ''10.0.0.2'' 1337 NewSyncNodes"
  have id: "host_port ''10.0.0.2'' 1337 = ''10.0.0.2:1337''" by code_simp
  have c: "n_clients ?sn = [(''10.0.0.2:1337'', NewSyncClient ''10.0.0.2'' 1337)]"
    using id by (simp add: SS_AddClient_def AddClient_def NewSyncNodes_def HasClient_def sc_ID_def
        NewSyncClient_def gm_put_def sample_conf_def)
  have "nodes_inv ?sn"
    using peers.inv_add [OF NewSyncNodes_inv, of sample_conf "(''10.0.0.2'', 1337)"] by simp
  moreover have "map_order (n_clients ?sn) [''10.0.0.2:1337'']"
    by (simp add: c map_order_def gm_keys_def)
  moreover have "\<exists>k sc. gm_get k (n_clients ?sn) = Some sc \<and> \<not> sc_connected sc"
    by (simp add: c gm_get_def) (simp add: NewSyncClient_def)
  ultimately show ?thesis
    using UpdateClients_spec [of ?sn "[''10.0.0.2:1337'']" sample_conf] by simp
qed

end
