(* ===== verification/Config_Update.thy ===== *)
theory Config_Update
  imports Sync_Server
begin

text \<open>
  Loading and replacing the configuration: \<^verbatim>\<open>initConfig\<close> and \<^verbatim>\<open>updateConfig\<close> of \<^verbatim>\<open>config.go\<close>. The parts of
  viper and gutils they call are the fields of one record, an argument of the definitions.
\<close>

section \<open>State\<close>

text \<open>\<open>cl_find\<close> is viper's search for a configuration file (empty if there is none), \<open>cl_parse\<close> the parsing
  of the content of a file (its name gives the format), \<open>cl_unmarshal\<close> the decoding into the existing configuration; \<open>cl_mkDirs\<close>, \<open>cl_copyEmbedded\<close>
  (target and embedded directory) and \<open>cl_copyFile\<close> are \<^verbatim>\<open>gutils.MkDirs\<close>, \<^verbatim>\<open>CopyEmbeddedFSToDisk\<close> and
  \<^verbatim>\<open>CopyFile\<close>: their error and the disk they leave.\<close>

record 'y config_lib =
  cl_find :: "fsys \<Rightarrow> string"
  cl_parse :: "string \<Rightarrow> string \<Rightarrow> string + 'y"
  cl_unmarshal :: "'y \<Rightarrow> conf \<Rightarrow> string option \<times> conf"
  cl_mkDirs :: "string list \<Rightarrow> fsys \<Rightarrow> string option \<times> fsys"
  cl_copyEmbedded :: "string \<Rightarrow> string \<Rightarrow> fsys \<Rightarrow> string option \<times> fsys"
  cl_copyFile :: "string \<Rightarrow> string \<Rightarrow> fsys \<Rightarrow> string option \<times> fsys"

text \<open>The variables \<^verbatim>\<open>Conf\<close> and \<^verbatim>\<open>cfgFile\<close>, the file viper uses, the nodes of the sync server and the disk.\<close>

record cfg_state =
  g_conf :: conf
  g_cfgFile :: string
  g_used :: string
  g_nodes :: sync_nodes
  g_disk :: fsys

section \<open>Operations\<close>

text \<open>Both template directories are filled from the embedded files.\<close>

definition copy_templates ::
  "'y config_lib \<Rightarrow> conf \<Rightarrow> fsys \<Rightarrow> go_panic option \<times> fsys" where
  "copy_templates lib c d =
     (case cl_copyEmbedded lib (c_PathCommands c) ''commands'' d of
        (Some e, d1) \<Rightarrow>
          (Some (PanicValue (''[Config] Unable to copy command templates to disk, '' @ e)), d1)
      | (None, d1) \<Rightarrow>
          (case cl_copyEmbedded lib (c_PathWebinterface c) ''webinterface'' d1 of
             (Some e, d2) \<Rightarrow>
               (Some (PanicValue (''[Config] Unable to copy webinterface templates to disk, '' @ e)), d2)
           | (None, d2) \<Rightarrow> (None, d2)))"

definition readInConfig :: "'y config_lib \<Rightarrow> string \<Rightarrow> fsys \<Rightarrow> string + 'y" where
  "readInConfig lib file d =
     (case os_read_file d (path_comps file) of
        Inl e \<Rightarrow> Inl (os_error_text e)
      | Inr s \<Rightarrow> cl_parse lib file s)"

text \<open>\<^verbatim>\<open>initConfig\<close>: the panic it ends with, if any, and the state. The tables of template functions it
  rebuilds do not depend on the state.\<close>

definition initConfig :: "'y config_lib \<Rightarrow> cfg_state \<Rightarrow> go_panic option \<times> cfg_state" where
  "initConfig lib g0 =
     (let used = (if g_cfgFile g0 \<noteq> [] then g_cfgFile g0 else cl_find lib (g_disk g0));
          g1 = g0\<lparr>g_used := used\<rparr>
      in case readInConfig lib used (g_disk g1) of
           Inl e \<Rightarrow> (Some (PanicValue (''[Config] Fatal error config file: '' @ e)), g1)
         | Inr y \<Rightarrow>
             (case cl_unmarshal lib y (g_conf g1) of
                (Some e, c) \<Rightarrow>
                  (Some (PanicValue (''[Config] Unable to decode into Config struct, '' @ e)),
                   g1\<lparr>g_cfgFile := used, g_conf := c\<rparr>)
              | (None, c) \<Rightarrow>
                  (case InitPaths (cl_mkDirs lib) c (g_disk g1) of
                     (Some e, c1, d1) \<Rightarrow>
                       (Some e, g1\<lparr>g_cfgFile := used, g_conf := c1, g_disk := d1\<rparr>)
                   | (None, c1, d1) \<Rightarrow>
                       (case copy_templates lib c1 d1 of
                          (e, d2) \<Rightarrow> (e, g1\<lparr>g_cfgFile := used, g_conf := c1, g_disk := d2\<rparr>)))))"

definition bak_path :: "string \<Rightarrow> string" where
  "bak_path src = src @ ''.bak''"

text \<open>The end of \<^verbatim>\<open>updateConfig\<close>, once the new file is there. \<open>ks\<close> is the order in which the clients of the
  sync server are ranged over. \<^term>\<open>Inl\<close> is a panic of what it calls, \<^term>\<open>Inr\<close> the error it returns.\<close>

definition reloadConfig ::
  "'y config_lib \<Rightarrow> (sync_nodes \<Rightarrow> string list) \<Rightarrow> cfg_state \<Rightarrow>
   (go_panic + string option) \<times> cfg_state" where
  "reloadConfig lib ks g =
     (case initConfig lib g of
        (Some p, g1) \<Rightarrow> (Inl p, g1)
      | (None, g1) \<Rightarrow>
          (case UpdateClients (ks (g_nodes g1)) (g_conf g1) (g_nodes g1) of
             (Some p, c, sn) \<Rightarrow> (Inl p, g1\<lparr>g_conf := c, g_nodes := sn\<rparr>)
           | (None, c, sn) \<Rightarrow> (Inr None, g1\<lparr>g_conf := c, g_nodes := sn\<rparr>)))"

definition updateConfig ::
  "'y config_lib \<Rightarrow> (sync_nodes \<Rightarrow> string list) \<Rightarrow> string \<Rightarrow> cfg_state \<Rightarrow>
   (go_panic + string option) \<times> cfg_state" where
  "updateConfig lib ks config g =
     (let src = g_used g
      in case cl_copyFile lib src (bak_path src) (g_disk g) of
           (Some e, d1) \<Rightarrow> (Inr (Some e), g\<lparr>g_disk := d1\<rparr>)
         | (None, d1) \<Rightarrow>
             (case os_write_file d1 (path_comps src) config of
                Inl e \<Rightarrow> (Inr (Some (os_error_text e)), g\<lparr>g_disk := d1\<rparr>)
              | Inr d2 \<Rightarrow> reloadConfig lib ks (g\<lparr>g_disk := d2\<rparr>)))"

section \<open>Refused updates\<close>

text \<open>What the documentation of the library promises: a copy that reports success has written the content
  of the source; one that fails has touched no other file than its target.\<close>

definition copy_ok :: "'y config_lib \<Rightarrow> bool" where
  "copy_ok lib \<longleftrightarrow>
     (\<forall>src dst d d'. cl_copyFile lib src dst d = (None, d') \<longrightarrow>
        (\<exists>s. os_read_file d (path_comps src) = Inr s \<and> os_write_file d (path_comps dst) s = Inr d')) \<and>
     (\<forall>src dst d e d' q. cl_copyFile lib src dst d = (Some e, d') \<longrightarrow> q \<noteq> path_comps dst \<longrightarrow>
        os_read_file d' q = os_read_file d q)"

text \<open>The state of a program that runs: it has loaded the file that viper uses.\<close>

definition running :: "cfg_state \<Rightarrow> bool" where
  "running g \<longleftrightarrow> g_cfgFile g = g_used g \<and> g_used g \<noteq> [] \<and>
     path_comps (bak_path (g_used g)) \<noteq> path_comps (g_used g)"

definition content :: "cfg_state \<Rightarrow> string \<Rightarrow> os_error + string" where
  "content g f = os_read_file (g_disk g) (path_comps f)"

text \<open>Updates one after the other: their results and the last state.\<close>

fun updates ::
  "'y config_lib \<Rightarrow> (sync_nodes \<Rightarrow> string list) \<Rightarrow> string list \<Rightarrow> cfg_state \<Rightarrow>
   (go_panic + string option) list \<times> cfg_state" where
  "updates lib ks [] g = ([], g)"
| "updates lib ks (b # bs) g =
     (let (r, g1) = updateConfig lib ks b g; (rs, g2) = updates lib ks bs g1 in (r # rs, g2))"

lemma updateConfig_write:
  assumes "copy_ok lib" and "running g" and "updateConfig lib ks b g = (r, g')"
    and "\<forall>e. r \<noteq> Inr (Some e)"
  obtains old d2 where "content g (g_used g) = Inr old"
    and "os_read_file d2 (path_comps (g_used g)) = Inr b"
    and "os_read_file d2 (path_comps (bak_path (g_used g))) = Inr old"
    and "reloadConfig lib ks (g\<lparr>g_disk := d2\<rparr>) = (r, g')"
proof -
  let ?src = "g_used g"
  obtain d1 where c: "cl_copyFile lib ?src (bak_path ?src) (g_disk g) = (None, d1)"
    using assms(3,4) by (auto simp: updateConfig_def Let_def split: prod.splits option.splits)
  obtain d2 where w: "os_write_file d1 (path_comps ?src) b = Inr d2"
    using assms(3,4) c by (auto simp: updateConfig_def Let_def split: sum.splits)
  from assms(1) c obtain old where o: "content g ?src = Inr old"
    and cp: "os_write_file (g_disk g) (path_comps (bak_path ?src)) old = Inr d1"
    unfolding copy_ok_def content_def by blast
  have "os_read_file d2 (path_comps (bak_path ?src)) = Inr old"
    using os_write_file_other(2) [OF w] os_write_then_read(1) [OF cp] assms(2)
    by (simp add: running_def)
  moreover have "reloadConfig lib ks (g\<lparr>g_disk := d2\<rparr>) = (r, g')"
    using assms(3) c w by (simp add: updateConfig_def)
  ultimately show ?thesis using that o os_write_then_read(1) [OF w] by blast
qed

lemma initConfig_refused:
  assumes "os_read_file (g_disk g) (path_comps (g_used g)) = Inr b"
    and "cl_parse lib (g_used g) b = Inl e" and "g_cfgFile g = g_used g" and "g_used g \<noteq> []"
  shows "initConfig lib g = (Some (PanicValue (''[Config] Fatal error config file: '' @ e)), g)"
  using assms by (simp add: initConfig_def readInConfig_def Let_def)

text \<open>One update with a text that does not parse: it returns the error of the copy, or it has stored the
  text, with the backup before it, and panics.\<close>

definition parse_panic :: "string \<Rightarrow> go_panic" where
  "parse_panic e = PanicValue (''[Config] Fatal error config file: '' @ e)"

definition copy_error :: "'y config_lib \<Rightarrow> string \<Rightarrow> string \<Rightarrow> bool" where
  "copy_error lib f e \<longleftrightarrow> (\<exists>d d'. cl_copyFile lib f (bak_path f) d = (Some e, d'))"

lemma refused_step:
  assumes "copy_ok lib" and "running g" and "content g (g_used g) = Inr old"
    and "cl_parse lib (g_used g) b = Inl e" and u: "updateConfig lib ks b g = (r, g')"
  shows "(\<exists>d. g' = g\<lparr>g_disk := d\<rparr>) \<and>
    (if isl r then r = Inl (parse_panic e) \<and> content g' (g_used g) = Inr b \<and>
       content g' (bak_path (g_used g)) = Inr old
     else (\<exists>e'. r = Inr (Some e') \<and> copy_error lib (g_used g) e') \<and> content g' (g_used g) = Inr old)"
proof (cases "cl_copyFile lib (g_used g) (bak_path (g_used g)) (g_disk g)")
  case (Pair err d1)
  show ?thesis
  proof (cases err)
    case (Some e')
    with Pair u have "r = Inr (Some e')" "g' = g\<lparr>g_disk := d1\<rparr>" by (simp_all add: updateConfig_def)
    moreover have "os_read_file d1 (path_comps (g_used g)) = Inr old"
      using assms(1-3) Pair Some unfolding copy_ok_def content_def running_def by metis
    moreover have "copy_error lib (g_used g) e'" using Pair Some by (auto simp: copy_error_def)
    ultimately show ?thesis by (auto simp: content_def)
  next
    case None
    with assms(1) Pair obtain s where "os_write_file (g_disk g) (path_comps (bak_path (g_used g))) s = Inr d1"
      unfolding copy_ok_def by blast
    then have "writable d1 (path_comps (g_used g))"
      using assms(3) os_write_file_writable os_read_file_writable unfolding content_def by blast
    then obtain d2 where "os_write_file d1 (path_comps (g_used g)) b = Inr d2"
      using os_write_file_iff by blast
    with Pair None u have "\<forall>e. r \<noteq> Inr (Some e)"
      by (auto simp: updateConfig_def reloadConfig_def split: prod.splits option.splits)
    then obtain d where d: "os_read_file d (path_comps (g_used g)) = Inr b"
        "os_read_file d (path_comps (bak_path (g_used g))) = Inr old"
        "reloadConfig lib ks (g\<lparr>g_disk := d\<rparr>) = (r, g')"
      by (rule updateConfig_write [OF assms(1,2) u]) (use assms(3) in auto)
    have "initConfig lib (g\<lparr>g_disk := d\<rparr>) = (Some (parse_panic e), g\<lparr>g_disk := d\<rparr>)"
      unfolding parse_panic_def using assms(2,4) d(1) by (intro initConfig_refused) (auto simp: running_def)
    with d show ?thesis by (auto simp: reloadConfig_def content_def)
  qed
qed

text \<open>The texts of the updates that came as far as the panic.\<close>

definition stored :: "string list \<Rightarrow> (go_panic + string option) list \<Rightarrow> string list" where
  "stored bs rs = map fst (filter (\<lambda>(b, r). isl r) (zip bs rs))"

lemma stored_simps [simp]:
  "stored [] rs = []" "stored (b # bs) (r # rs) = (if isl r then b # stored bs rs else stored bs rs)"
  by (simp_all add: stored_def)

lemma stored_last:
  "length bs = length rs \<Longrightarrow> rs \<noteq> [] \<Longrightarrow> isl (last rs) \<Longrightarrow> stored bs rs \<noteq> []"
  by (induction bs rs rule: list_induct2) (auto split: if_splits)

lemma stored_subset: "set (stored bs rs) \<subseteq> set bs"
  by (auto simp: stored_def dest: set_zip_leftD)

section \<open>A sample library\<close>

definition sample_config_lib :: "conf config_lib" where
  "sample_config_lib =
     \<lparr>cl_find = (\<lambda>d. []),
      cl_parse = (\<lambda>f s. if s = ''ok'' then Inr sample_conf else Inl ''yaml''),
      cl_unmarshal = (\<lambda>y c. (None, y)),
      cl_mkDirs = (\<lambda>ps d. (None, d)),
      cl_copyEmbedded = (\<lambda>dst src d. (None, d)),
      cl_copyFile = (\<lambda>src dst d.
        case bind_res (os_read_file d (path_comps src)) (os_write_file d (path_comps dst)) of
          Inl e \<Rightarrow> (Some (os_error_text e), d)
        | Inr d' \<Rightarrow> (None, d'))\<rparr>"

definition sample_cfg :: cfg_state where
  "sample_cfg =
     \<lparr>g_conf = sample_conf, g_cfgFile = ''/config.yaml'', g_used = ''/config.yaml'',
      g_nodes = NewSyncNodes, g_disk = [([''config.yaml''], FileN ''ok'')]\<rparr>"

lemma sample_config_lib_ok: "copy_ok sample_config_lib"
  by (auto simp: copy_ok_def sample_config_lib_def bind_res_def split: sum.splits)

lemma sample_cfg_running: "running sample_cfg"
proof -
  have "path_comps (bak_path ''/config.yaml'') \<noteq> path_comps ''/config.yaml''" by code_simp
  then show ?thesis by (simp add: running_def sample_cfg_def)
qed

lemma refused_steps:
  assumes "copy_ok lib" and "running g" and "\<forall>b \<in> set bs. \<exists>e. cl_parse lib (g_used g) b = Inl e"
    and "content g (g_used g) = Inr old" and "updates lib ks bs g = (rs, g')"
  shows "(\<exists>d. g' = g\<lparr>g_disk := d\<rparr>) \<and>
    list_all2 (\<lambda>b r. (\<exists>e. cl_parse lib (g_used g) b = Inl e \<and> r = Inl (parse_panic e)) \<or>
      (\<exists>e. r = Inr (Some e) \<and> copy_error lib (g_used g) e)) bs rs \<and>
    content g' (g_used g) = Inr (last (old # stored bs rs)) \<and>
    (rs \<noteq> [] \<and> isl (last rs) \<longrightarrow>
      content g' (bak_path (g_used g)) = Inr (last (old # butlast (stored bs rs))))"
  using assms(2-5)
proof (induction bs arbitrary: g old rs)
  case Nil
  then show ?case by (cases g) auto
next
  case (Cons b bs)
  obtain r g1 rs1 where 1: "updateConfig lib ks b g = (r, g1)" and 2: "updates lib ks bs g1 = (rs1, g')"
    and rs: "rs = r # rs1"
    using Cons.prems(4) by (auto simp: Let_def split: prod.splits)
  obtain e where e: "cl_parse lib (g_used g) b = Inl e" using Cons.prems(2) by auto
  note st = refused_step [OF assms(1) Cons.prems(1,3) e 1]
  then obtain d1 where g1: "g1 = g\<lparr>g_disk := d1\<rparr>" by blast
  define now where "now = (if isl r then b else old)"
  have u: "g_used g1 = g_used g" "running g1" using g1 Cons.prems(1) by (simp_all add: running_def)
  have c: "content g1 (g_used g1) = Inr now" using st u(1) by (auto simp: now_def split: if_splits)
  have "\<forall>b \<in> set bs. \<exists>e. cl_parse lib (g_used g1) b = Inl e" using Cons.prems(2) u(1) by simp
  note ih = Cons.IH [OF u(2) this c 2]
  have len: "length bs = length rs1" using ih list_all2_lengthD by blast
  have bak: "content g' (bak_path (g_used g)) = Inr (last (old # butlast (stored (b # bs) rs)))"
    if "isl (last rs)"
  proof (cases "rs1 = []")
    case True
    then have "bs = []" using len by simp
    with True 2 rs st that show ?thesis by (auto split: if_splits)
  next
    case False
    with rs that have l: "isl (last rs1)" by simp
    with False stored_last [OF len] have "stored bs rs1 \<noteq> []" by blast
    with ih l False u(1) rs show ?thesis by (auto simp: now_def)
  qed
  show ?case using ih st bak e rs g1 u(1) by (auto simp: now_def split: if_splits)
qed

text \<open>C9. An update with a text that does not parse never succeeds and never touches the running
  configuration or the sync peers. It panics, after the file has been overwritten with the refused
  text, or else the backup copy has failed, whose error it returns while the file keeps its content
  (in the model the disk has room for every write, so an existing file can be overwritten).
  So after any number of such updates the file holds the text of the last one that panicked, and a
  start with it panics, too; the backup holds what the file held before the last panic, so the second
  panic in a row destroys the last copy of the working configuration.\<close>

theorem refused_updates:
  assumes "copy_ok lib" and "running g" and "\<forall>b \<in> set bs. \<exists>e. cl_parse lib (g_used g) b = Inl e"
    and "content g (g_used g) = Inr old" and "updates lib ks bs g = (rs, g')"
  shows "g_conf g' = g_conf g \<and> g_nodes g' = g_nodes g \<and>
    list_all2 (\<lambda>b r. (\<exists>e. cl_parse lib (g_used g) b = Inl e \<and>
        r = Inl (PanicValue (''[Config] Fatal error config file: '' @ e))) \<or>
      (\<exists>e. r = Inr (Some e) \<and> (\<exists>d d'. cl_copyFile lib (g_used g) (bak_path (g_used g)) d = (Some e, d'))))
      bs rs \<and>
    content g' (g_used g) = Inr (last (old # stored bs rs)) \<and>
    (rs \<noteq> [] \<and> isl (last rs) \<longrightarrow>
      content g' (bak_path (g_used g)) = Inr (last (old # butlast (stored bs rs)))) \<and>
    (stored bs rs \<noteq> [] \<longrightarrow>
      (\<exists>p. fst (initConfig lib (g'\<lparr>g_conf := c0, g_cfgFile := g_used g\<rparr>)) = Some p))"
proof -
  note r = refused_steps [OF assms]
  then obtain d where g': "g' = g\<lparr>g_disk := d\<rparr>" by blast
  have "\<exists>p. fst (initConfig lib (g'\<lparr>g_conf := c0, g_cfgFile := g_used g\<rparr>)) = Some p"
    if "stored bs rs \<noteq> []"
  proof -
    let ?b = "last (stored bs rs)"
    have "?b \<in> set bs" using that stored_subset [of bs rs] last_in_set by blast
    with assms(3) obtain e where "cl_parse lib (g_used g) ?b = Inl e" by blast
    with r that g' assms(2) initConfig_refused [of "g'\<lparr>g_conf := c0, g_cfgFile := g_used g\<rparr>" ?b lib e]
    show ?thesis by (simp add: content_def running_def)
  qed
  with r g' show ?thesis unfolding parse_panic_def copy_error_def by auto
qed

theorem refused_updates_witness:
  "\<exists>rs g'. updates sample_config_lib (\<lambda>sn. []) [''a'', ''b''] sample_cfg = (rs, g') \<and>
    content g' ''/config.yaml'' = Inr ''b'' \<and> content g' ''/config.yaml.bak'' = Inr ''a''"
proof -
  let ?u = "updates sample_config_lib (\<lambda>sn. []) [''a'', ''b''] sample_cfg"
  obtain rs g' where u: "?u = (rs, g')" by (meson surj_pair)
  have "map isl (fst ?u) = [True, True]"
    unfolding sample_config_lib_def sample_cfg_def sample_conf_def by code_simp
  then have rs: "map isl rs = [True, True]" unfolding u by simp
  then have "stored [''a'', ''b''] rs = [''a'', ''b'']" "rs \<noteq> [] \<and> isl (last rs)"
    by (auto simp: map_eq_Cons_conv)
  moreover have "content sample_cfg (g_used sample_cfg) = Inr ''ok''"
    unfolding sample_cfg_def sample_conf_def by code_simp
  ultimately show ?thesis
    using refused_updates [OF sample_config_lib_ok sample_cfg_running _ _ u, of "''ok''"] u
    by (simp add: sample_config_lib_def sample_cfg_def bak_path_def)
qed

section \<open>Applied updates\<close>

lemma InitPaths_assign_nonempty: "p \<in> set (conf_paths (InitPaths_assign c)) \<Longrightarrow> p \<noteq> []"
  by (auto simp: InitPaths_assign_def conf_paths_def Let_def dest: sym [of "[]"])

lemma InitPaths_assign_nodes [simp]:
  "c_SyncNodes (InitPaths_assign c) = c_SyncNodes c" "c_SyncHost (InitPaths_assign c) = c_SyncHost c"
  "c_SyncPort (InitPaths_assign c) = c_SyncPort c"
  by (simp_all add: InitPaths_assign_def Let_def)

lemma initConfig_ok:
  assumes "initConfig lib g = (None, g')" and "g_cfgFile g = g_used g" and "g_used g \<noteq> []"
    and "os_read_file (g_disk g) (path_comps (g_used g)) = Inr b"
  shows "\<exists>y c d. cl_parse lib (g_used g) b = Inr y \<and> cl_unmarshal lib y (g_conf g) = (None, c) \<and>
    g' = g\<lparr>g_conf := InitPaths_assign c, g_disk := d\<rparr>"
  using assms by (cases g) (auto simp: initConfig_def readInConfig_def InitPaths_def Let_def
      split: sum.splits prod.splits option.splits)

text \<open>C11. When an update reports success, every sync client had been connected, the new text parsed and
  decoded, and the running configuration is the decoded one with all default paths filled in; the
  sync clients are exactly the nodes it names, other than this one, and their hosts are whitelisted.\<close>

theorem applied_update:
  assumes "copy_ok lib" and "running g" and "nodes_inv (g_nodes g)"
    and "map_order (n_clients (g_nodes g)) (ks (g_nodes g))"
    and "updateConfig lib ks b g = (Inr None, g')"
  shows "(\<forall>k sc. gm_get k (n_clients (g_nodes g)) = Some sc \<longrightarrow> sc_connected sc) \<and>
    (\<exists>y c wl. cl_parse lib (g_used g) b = Inr y \<and> cl_unmarshal lib y (g_conf g) = (None, c) \<and>
      g_conf g' = (InitPaths_assign c)\<lparr>c_IPWhitelist := wl\<rparr> \<and>
      (\<forall>h p. HasClient (host_port h p) (g_nodes g') \<longleftrightarrow> (h \<noteq> c_SyncHost c \<or> p \<noteq> c_SyncPort c) \<and>
        (\<exists>nd \<in> set (c_SyncNodes c). node_Host nd = h \<and> node_Port nd = p)) \<and>
      (\<forall>nd \<in> set (c_SyncNodes c). (node_Host nd \<noteq> c_SyncHost c \<or> node_Port nd \<noteq> c_SyncPort c) \<longrightarrow>
        isIPWhitelisted (g_conf g') (node_Host nd))) \<and>
    (\<forall>p \<in> set (conf_paths (g_conf g')). p \<noteq> []) \<and> nodes_inv (g_nodes g') \<and> running g'"
proof -
  obtain old d2 where r: "os_read_file d2 (path_comps (g_used g)) = Inr b"
    and l: "reloadConfig lib ks (g\<lparr>g_disk := d2\<rparr>) = (Inr None, g')"
    by (rule updateConfig_write [OF assms(1,2,5)]) simp_all
  from l obtain g1 c1 sn where i: "initConfig lib (g\<lparr>g_disk := d2\<rparr>) = (None, g1)"
    and u: "UpdateClients (ks (g_nodes g1)) (g_conf g1) (g_nodes g1) = (None, c1, sn)"
    and g': "g' = g1\<lparr>g_conf := c1, g_nodes := sn\<rparr>"
    by (auto simp: reloadConfig_def split: prod.splits option.splits)
  obtain y c d where p: "cl_parse lib (g_used g) b = Inr y" "cl_unmarshal lib y (g_conf g) = (None, c)"
    and g1: "g1 = g\<lparr>g_conf := InitPaths_assign c, g_disk := d\<rparr>"
    using initConfig_ok [OF i, of b] assms(2) r by (auto simp: running_def)
  let ?c1 = "InitPaths_assign c"
  from u g1 have u': "UpdateClients (ks (g_nodes g)) ?c1 (g_nodes g) = (None, c1, sn)" by simp
  note us = UpdateClients_spec [OF assms(3,4), of ?c1, unfolded u']
  have all: "\<not> (\<exists>k sc. gm_get k (n_clients (g_nodes g)) = Some sc \<and> \<not> sc_connected sc)"
    using us by (auto split: if_splits)
  from us obtain wl where wl: "c1 = ?c1\<lparr>c_IPWhitelist := wl\<rparr>" and inv: "nodes_inv sn"
    and has: "\<forall>h p. HasClient (host_port h p) sn \<longleftrightarrow> (h \<noteq> c_SyncHost c \<or> p \<noteq> c_SyncPort c) \<and>
        (\<exists>nd \<in> set (c_SyncNodes c). node_Host nd = h \<and> node_Port nd = p)"
    and white: "\<forall>nd \<in> set (c_SyncNodes c). (node_Host nd \<noteq> c_SyncHost c \<or> node_Port nd \<noteq> c_SyncPort c) \<longrightarrow>
        isIPWhitelisted c1 (node_Host nd)"
    unfolding if_not_P [OF all] by auto
  have "\<forall>p \<in> set (conf_paths c1). p \<noteq> []"
    using InitPaths_assign_nonempty [of _ c] wl by (auto simp: conf_paths_def)
  moreover have "running g'" using assms(2) by (simp add: g' g1 running_def)
  ultimately show ?thesis using all p wl inv has white by (simp add: g') blast
qed

theorem applied_update_witness:
  "\<exists>g'. updateConfig sample_config_lib (\<lambda>sn. []) ''ok'' sample_cfg = (Inr None, g') \<and> running g'"
proof -
  let ?u = "updateConfig sample_config_lib (\<lambda>sn. []) ''ok'' sample_cfg"
  have "fst ?u = Inr None"
    unfolding sample_config_lib_def sample_cfg_def sample_conf_def by code_simp
  then obtain g' where u: "?u = (Inr None, g')" by (cases ?u) simp
  have "nodes_inv (g_nodes sample_cfg)" and "map_order (n_clients (g_nodes sample_cfg)) []"
    using NewSyncNodes_inv by (simp_all add: sample_cfg_def NewSyncNodes_def map_order_def gm_keys_def)
  then show ?thesis
    using applied_update [OF sample_config_lib_ok sample_cfg_running _ _ u] u by simp
qed

end
