(* ===== verification/UI_Hub.thy ===== *)
theory UI_Hub
  imports Go_Prelude
begin

text \<open>
  The hubs of \<^verbatim>\<open>ui_server.go\<close>: a hub goroutine that owns the set of websocket clients, a goroutine per
  client that pumps its messages to the connection, and the handlers that create clients. Each
  message on a channel of the hub, and each pass of a pump's loop, is one step; the steps of the
  goroutines interleave in any order. A step that cannot be taken (a blocked channel) is \<open>None\<close>.
\<close>

section \<open>State\<close>

text \<open>What the pump writes: the pieces of a text message, a ping, a close message. \<open>AtRegister\<close> and \<open>AtGo\<close>
  are the two places where the handler of a new client can be, \<open>InPump\<close> the loop of its pump.\<close>

datatype frame = TextFrame "string list" | PingFrame | CloseFrame

datatype pump_at = AtRegister | AtGo | InPump | Returned

record ws_client =
  wc_Send :: "string list"
  wc_closed :: bool
  wc_frames :: "frame list"
  wc_at :: pump_at
  wc_conn_closed :: bool

record hub =
  hb_clients :: "(nat, bool) gomap"
  hb_heap :: "ws_client list"

definition send_cap :: nat where
  "send_cap = 256"

definition NewHub :: hub where
  "NewHub = \<lparr>hb_clients = gm_empty, hb_heap = []\<rparr>"

definition new_client :: ws_client where
  "new_client =
     \<lparr>wc_Send = [], wc_closed = False, wc_frames = [], wc_at = AtRegister, wc_conn_closed = False\<rparr>"

definition hb_upd :: "nat \<Rightarrow> (ws_client \<Rightarrow> ws_client) \<Rightarrow> hub \<Rightarrow> hub" where
  "hb_upd k f h = h\<lparr>hb_heap := (hb_heap h)[k := f (hb_heap h ! k)]\<rparr>"

section \<open>The hub goroutine\<close>

definition close_send :: "nat \<Rightarrow> hub \<Rightarrow> go_panic + hub" where
  "close_send k h =
     (if wc_closed (hb_heap h ! k) then Inl CloseOfClosedChannel
      else Inr (hb_upd k (\<lambda>cl. cl\<lparr>wc_closed := True\<rparr>) h))"

definition hub_register :: "nat \<Rightarrow> hub \<Rightarrow> hub" where
  "hub_register k h = h\<lparr>hb_clients := gm_put k True (hb_clients h)\<rparr>"

definition hub_unregister :: "nat \<Rightarrow> hub \<Rightarrow> go_panic + hub" where
  "hub_unregister k h =
     (if gm_has k (hb_clients h) then close_send k (h\<lparr>hb_clients := gm_del k (hb_clients h)\<rparr>)
      else Inr h)"

text \<open>The inner \<^verbatim>\<open>select\<close>: a full channel takes the default branch. A pump waiting at an empty channel gets
  the message as if it had been queued.\<close>

definition try_send :: "string \<Rightarrow> nat \<Rightarrow> hub \<Rightarrow> go_panic + hub" where
  "try_send msg k h =
     (let cl = hb_heap h ! k
      in if wc_closed cl then Inl SendOnClosedChannel
         else if length (wc_Send cl) < send_cap
         then Inr (hb_upd k (\<lambda>cl. cl\<lparr>wc_Send := wc_Send cl @ [msg]\<rparr>) h)
         else bind_res (close_send k h) (\<lambda>h1. Inr (h1\<lparr>hb_clients := gm_del k (hb_clients h1)\<rparr>)))"

fun hub_broadcast :: "string \<Rightarrow> nat list \<Rightarrow> hub \<Rightarrow> go_panic + hub" where
  "hub_broadcast msg [] h = Inr h"
| "hub_broadcast msg (k # ks) h = bind_res (try_send msg k h) (hub_broadcast msg ks)"

section \<open>The pump of a client\<close>

text \<open>A message is written with all that is queued behind it. The connection can refuse a writer, or fail
  when the message is flushed; both end the pump, as does a closed channel with nothing left in it.\<close>

datatype write_io = Written | NoWriter | NotFlushed

definition frame_pieces :: "string \<Rightarrow> string list \<Rightarrow> string list" where
  "frame_pieces m q = m # concat (map (\<lambda>x. [[newline], x]) q)"

definition pump_return :: "ws_client \<Rightarrow> ws_client" where
  "pump_return cl = cl\<lparr>wc_at := Returned, wc_conn_closed := True\<rparr>"

definition pump_message :: "write_io \<Rightarrow> ws_client \<Rightarrow> ws_client" where
  "pump_message io cl =
     (case wc_Send cl of
        [] \<Rightarrow> pump_return (cl\<lparr>wc_frames := wc_frames cl @ [CloseFrame]\<rparr>)
      | m # q \<Rightarrow>
          (case io of
             NoWriter \<Rightarrow> pump_return (cl\<lparr>wc_Send := q\<rparr>)
           | NotFlushed \<Rightarrow> pump_return (cl\<lparr>wc_Send := []\<rparr>)
           | Written \<Rightarrow> cl\<lparr>wc_Send := [], wc_frames := wc_frames cl @ [TextFrame (frame_pieces m q)]\<rparr>))"

definition pump_tick :: "bool \<Rightarrow> ws_client \<Rightarrow> ws_client" where
  "pump_tick ok cl =
     (if ok then cl\<lparr>wc_frames := wc_frames cl @ [PingFrame]\<rparr> else pump_return cl)"

section \<open>Steps\<close>

datatype hub_event =
    Connect
  | Register nat
  | GoPump nat
  | Unregister nat
  | Broadcast string "nat list"
  | PumpMessage nat write_io
  | PumpTick nat bool

definition at_stage :: "nat \<Rightarrow> pump_at \<Rightarrow> hub \<Rightarrow> bool" where
  "at_stage k s h \<longleftrightarrow> k < length (hb_heap h) \<and> wc_at (hb_heap h ! k) = s"

fun hub_do :: "hub_event \<Rightarrow> hub \<Rightarrow> (go_panic + hub) option" where
  "hub_do Connect h = Some (Inr (h\<lparr>hb_heap := hb_heap h @ [new_client]\<rparr>))"
| "hub_do (Register k) h =
     (if at_stage k AtRegister h
      then Some (Inr (hub_register k (hb_upd k (\<lambda>cl. cl\<lparr>wc_at := AtGo\<rparr>) h))) else None)"
| "hub_do (GoPump k) h =
     (if at_stage k AtGo h then Some (Inr (hb_upd k (\<lambda>cl. cl\<lparr>wc_at := InPump\<rparr>) h)) else None)"
| "hub_do (Unregister k) h = (if k < length (hb_heap h) then Some (hub_unregister k h) else None)"
| "hub_do (Broadcast msg ks) h =
     (if map_order (hb_clients h) ks then Some (hub_broadcast msg ks h) else None)"
| "hub_do (PumpMessage k io) h =
     (if at_stage k InPump h \<and> (wc_Send (hb_heap h ! k) \<noteq> [] \<or> wc_closed (hb_heap h ! k))
      then Some (Inr (hb_upd k (pump_message io) h)) else None)"
| "hub_do (PumpTick k ok) h =
     (if at_stage k InPump h then Some (Inr (hb_upd k (pump_tick ok) h)) else None)"

definition Hub_Broadcast :: "string \<Rightarrow> nat list \<Rightarrow> hub \<Rightarrow> (go_panic + hub) option" where
  [simp]: "Hub_Broadcast msg ks h = hub_do (Broadcast msg ks) h"

text \<open>From \<open>h0\<close> the events \<open>es\<close> can happen in this order, and then the hub is in that state, or a
  goroutine has panicked.\<close>

inductive hub_run :: "hub \<Rightarrow> hub_event list \<Rightarrow> go_panic + hub \<Rightarrow> bool" for h0 where
  start: "hub_run h0 [] (Inr h0)"
| step: "hub_run h0 es (Inr h) \<Longrightarrow> hub_do e h = Some r \<Longrightarrow> hub_run h0 (es @ [e]) r"

inductive_cases hub_run_snocE: "hub_run h0 (es @ [e]) r"
inductive_simps hub_run_Nil: "hub_run h0 [] r"

text \<open>The same as a function, which evaluates runs.\<close>

definition hub_exec :: "hub \<Rightarrow> hub_event list \<Rightarrow> (go_panic + hub) option" where
  "hub_exec h0 es =
     foldl (\<lambda>r e. case r of Some (Inr h) \<Rightarrow> hub_do e h | _ \<Rightarrow> None) (Some (Inr h0)) es"

lemma hub_exec_run: "hub_exec h0 es = Some r \<longleftrightarrow> hub_run h0 es r"
proof (induction es arbitrary: r rule: rev_induct)
  case Nil
  show ?case by (auto simp: hub_exec_def hub_run_Nil)
next
  case (snoc e es)
  have "hub_exec h0 (es @ [e]) = (case hub_exec h0 es of Some (Inr h) \<Rightarrow> hub_do e h | _ \<Rightarrow> None)"
    by (simp add: hub_exec_def)
  moreover have "hub_run h0 (es @ [e]) r \<longleftrightarrow> (\<exists>h. hub_run h0 es (Inr h) \<and> hub_do e h = Some r)"
    by (blast elim: hub_run_snocE intro: hub_run.step)
  ultimately show ?case
    unfolding snoc.IH [symmetric] by (auto split: option.split sum.split)
qed

section \<open>What was sent and what was written\<close>

fun broadcasts :: "hub_event list \<Rightarrow> string list" where
  "broadcasts [] = []"
| "broadcasts (Broadcast msg ks # es) = msg # broadcasts es"
| "broadcasts (e # es) = broadcasts es"

definition messages_for :: "nat \<Rightarrow> hub_event list \<Rightarrow> string list" where
  "messages_for k es = broadcasts (dropWhile (\<lambda>e. e \<noteq> Register k) es)"

fun text_messages :: "string list \<Rightarrow> string list" where
  "text_messages (m # nl # ps) = m # text_messages ps"
| "text_messages ps = ps"

definition frame_messages :: "frame \<Rightarrow> string list" where
  "frame_messages f = (case f of TextFrame ps \<Rightarrow> text_messages ps | _ \<Rightarrow> [])"

definition delivered :: "ws_client \<Rightarrow> string list" where
  "delivered cl = concat (map frame_messages (wc_frames cl))"

lemma broadcasts_append [simp]: "broadcasts (es @ es') = broadcasts es @ broadcasts es'"
  by (induction es rule: broadcasts.induct) simp_all

lemma text_messages_pieces [simp]: "text_messages (frame_pieces m q) = m # q"
  by (induction q arbitrary: m) (simp_all add: frame_pieces_def)

lemma messages_for_Nil [simp]: "messages_for k [] = []"
  by (simp add: messages_for_def)

lemma messages_for_Cons [simp]:
  "messages_for k (e # es) = (if e = Register k then broadcasts es else messages_for k es)"
  by (simp add: messages_for_def)

lemma messages_for_snoc:
  "messages_for k (es @ [e]) =
     (if Register k \<in> set es then messages_for k es @ broadcasts [e] else [])"
  by (induction es) (cases e; simp)+

section \<open>The invariant\<close>

text \<open>A client is served while it is in the hub's map.\<close>

definition client_ok :: "hub_event list \<Rightarrow> nat \<Rightarrow> bool \<Rightarrow> ws_client \<Rightarrow> bool" where
  "client_ok es k served cl \<longleftrightarrow>
     length (wc_Send cl) \<le> send_cap \<and>
     (served \<longrightarrow> \<not> wc_closed cl) \<and>
     (wc_at cl = AtRegister \<longrightarrow> \<not> served \<and> cl = new_client \<and> Register k \<notin> set es) \<and>
     (wc_at cl \<noteq> AtRegister \<longrightarrow> Register k \<in> set es \<and> (\<not> served \<longrightarrow> wc_closed cl)) \<and>
     (wc_conn_closed cl \<longleftrightarrow> wc_at cl = Returned) \<and>
     (wc_at cl \<in> {AtGo, InPump} \<longrightarrow> prefix (delivered cl @ wc_Send cl) (messages_for k es) \<and>
        (served \<longrightarrow> delivered cl @ wc_Send cl = messages_for k es)) \<and>
     prefix (delivered cl) (messages_for k es)"

definition hub_inv :: "hub_event list \<Rightarrow> hub \<Rightarrow> bool" where
  "hub_inv es h \<longleftrightarrow>
     gm_inv (hb_clients h) \<and> (\<forall>k. gm_has k (hb_clients h) \<longrightarrow> k < length (hb_heap h)) \<and>
     (\<forall>k. length (hb_heap h) \<le> k \<longrightarrow> Register k \<notin> set es) \<and>
     (\<forall>k < length (hb_heap h). client_ok es k (gm_has k (hb_clients h)) (hb_heap h ! k))"

lemma NewHub_inv: "hub_inv [] NewHub"
  by (simp add: hub_inv_def NewHub_def gm_inv_def gm_has_def gm_get_def)

lemma messages_for_same:
  assumes "broadcasts [e] = []" and "e \<noteq> Register k"
  shows "messages_for k (es @ [e]) = messages_for k es"
proof (cases "Register k \<in> set es")
  case False
  then have "messages_for k es = []" by (induction es) auto
  with assms False show ?thesis by (simp add: messages_for_snoc)
qed (simp add: messages_for_snoc assms)

lemma client_ok_snoc:
  assumes "client_ok es k served cl" and "broadcasts [e] = []" and "e \<noteq> Register k"
  shows "client_ok (es @ [e]) k served cl"
  using assms by (simp add: client_ok_def messages_for_same)

text \<open>A step that changes at most the client \<open>k\<close> keeps the invariant if that client stays right.\<close>

lemma hub_inv_one:
  assumes "hub_inv es h" and "k < length (hb_heap h)" and "broadcasts [e] = []"
    and "\<And>j. e = Register j \<Longrightarrow> j = k"
    and "hb_heap h' = (hb_heap h)[k := cl]" and "gm_inv (hb_clients h')"
    and "\<And>j. j \<noteq> k \<Longrightarrow> gm_has j (hb_clients h') = gm_has j (hb_clients h)"
    and "client_ok (es @ [e]) k (gm_has k (hb_clients h')) cl"
  shows "hub_inv (es @ [e]) h'"
proof -
  have "client_ok (es @ [e]) j (gm_has j (hb_clients h')) (hb_heap h' ! j)" if "j < length (hb_heap h)" for j
  proof (cases "j = k")
    case False
    moreover from this have "e \<noteq> Register j" using assms(4) by blast
    ultimately show ?thesis
      using assms(1,3,5,7) that client_ok_snoc by (simp add: hub_inv_def)
  qed (use assms in simp)
  with assms show ?thesis unfolding hub_inv_def by (auto split: if_splits) (metis not_less)
qed

lemma client_ok_return:
  assumes "client_ok es k served cl" and "wc_at cl = InPump" and "length q \<le> length (wc_Send cl)"
    and "fs = [] \<or> fs = [CloseFrame]"
  shows "client_ok es k served (pump_return (cl\<lparr>wc_Send := q, wc_frames := wc_frames cl @ fs\<rparr>))"
  using assms by (auto simp: client_ok_def pump_return_def delivered_def frame_messages_def)

lemma client_ok_pump_message:
  assumes "client_ok es k served cl" and "wc_at cl = InPump"
  shows "client_ok es k served (pump_message io cl)"
proof (cases "wc_Send cl")
  case Nil
  then have "cl\<lparr>wc_Send := [], wc_frames := fs\<rparr> = cl\<lparr>wc_frames := fs\<rparr>" for fs by (cases cl) simp
  with Nil client_ok_return [OF assms, of "[]" "[CloseFrame]"] show ?thesis
    by (simp add: pump_message_def)
next
  case (Cons m q)
  show ?thesis
  proof (cases io)
    case Written
    with Cons assms show ?thesis
      by (auto simp: pump_message_def client_ok_def delivered_def frame_messages_def)
  next
    case NoWriter
    with Cons client_ok_return [OF assms, of q "[]"] show ?thesis by (simp add: pump_message_def)
  next
    case NotFlushed
    with Cons client_ok_return [OF assms, of "[]" "[]"] show ?thesis by (simp add: pump_message_def)
  qed
qed

lemma client_ok_pump_tick:
  assumes "client_ok es k served cl" and "wc_at cl = InPump"
  shows "client_ok es k served (pump_tick ok cl)"
  using assms client_ok_return [OF assms, of "wc_Send cl" "[]"]
  by (auto simp: pump_tick_def client_ok_def delivered_def frame_messages_def)

lemma hub_inv_client:
  "hub_inv es h \<Longrightarrow> k < length (hb_heap h) \<Longrightarrow> client_ok es k (gm_has k (hb_clients h)) (hb_heap h ! k)"
  by (simp add: hub_inv_def)

lemma Connect_inv:
  assumes "hub_inv es h" shows "hub_inv (es @ [Connect]) (h\<lparr>hb_heap := hb_heap h @ [new_client]\<rparr>)"
proof -
  let ?n = "length (hb_heap h)"
  have "\<not> gm_has ?n (hb_clients h)" "Register ?n \<notin> set es" using assms by (auto simp: hub_inv_def)
  then have "client_ok (es @ [Connect]) ?n (gm_has ?n (hb_clients h)) new_client"
    by (simp add: client_ok_def new_client_def delivered_def)
  moreover have "client_ok (es @ [Connect]) k (gm_has k (hb_clients h)) (hb_heap h ! k)" if "k < ?n" for k
    using client_ok_snoc [OF hub_inv_client [OF assms that]] by simp
  ultimately show ?thesis
    using assms by (auto simp: hub_inv_def nth_append less_Suc_eq)
qed

lemma Register_inv:
  assumes "hub_inv es h" and "at_stage k AtRegister h"
  shows "hub_inv (es @ [Register k]) (hub_register k (hb_upd k (\<lambda>cl. cl\<lparr>wc_at := AtGo\<rparr>) h))"
proof (rule hub_inv_one [OF assms(1)])
  show k: "k < length (hb_heap h)" using assms(2) by (simp add: at_stage_def)
  have "hb_heap h ! k = new_client" "Register k \<notin> set es"
    using hub_inv_client [OF assms(1) k] assms(2) by (auto simp: client_ok_def at_stage_def)
  then show "client_ok (es @ [Register k]) k
      (gm_has k (hb_clients (hub_register k (hb_upd k (\<lambda>cl. cl\<lparr>wc_at := AtGo\<rparr>) h))))
      ((hb_heap h ! k)\<lparr>wc_at := AtGo\<rparr>)"
    by (simp add: client_ok_def new_client_def delivered_def messages_for_snoc hub_register_def gm_has_put)
qed (use assms in \<open>auto simp: hub_register_def hb_upd_def gm_has_put hub_inv_def gm.inv_put\<close>)

lemma client_step_inv:
  assumes "hub_inv es h" and "at_stage k s h" and "broadcasts [e] = []" and "\<forall>j. e \<noteq> Register j"
    and "client_ok es k (gm_has k (hb_clients h)) (f (hb_heap h ! k))"
  shows "hub_inv (es @ [e]) (hb_upd k f h)"
  using assms by (intro hub_inv_one [OF assms(1), where k = k and cl = "f (hb_heap h ! k)"])
    (auto simp: hb_upd_def at_stage_def hub_inv_def intro: client_ok_snoc)

lemma GoPump_inv:
  assumes "hub_inv es h" and "at_stage k AtGo h"
  shows "hub_inv (es @ [GoPump k]) (hb_upd k (\<lambda>cl. cl\<lparr>wc_at := InPump\<rparr>) h)"
proof (rule client_step_inv [OF assms])
  show "client_ok es k (gm_has k (hb_clients h)) ((hb_heap h ! k)\<lparr>wc_at := InPump\<rparr>)"
    using hub_inv_client [OF assms(1), of k] assms(2) by (auto simp: at_stage_def client_ok_def delivered_def)
qed simp_all

lemma hub_unregister_ok:
  assumes "hub_inv es h" and "k < length (hb_heap h)"
  shows "\<exists>h'. hub_unregister k h = Inr h' \<and> hub_inv (es @ [Unregister k]) h'"
proof (cases "gm_has k (hb_clients h)")
  case False
  then have "hub_inv (es @ [Unregister k]) h"
    using assms client_ok_snoc [OF hub_inv_client [OF assms], of "Unregister k"]
    by (intro hub_inv_one [OF assms, where cl = "hb_heap h ! k"]) (auto simp: hub_inv_def)
  with False show ?thesis by (simp add: hub_unregister_def)
next
  case True
  let ?h = "hb_upd k (\<lambda>cl. cl\<lparr>wc_closed := True\<rparr>) (h\<lparr>hb_clients := gm_del k (hb_clients h)\<rparr>)"
  note ok = hub_inv_client [OF assms]
  have inv: "gm_inv (hb_clients h)" using assms(1) by (simp add: hub_inv_def)
  have "hub_inv (es @ [Unregister k]) ?h"
  proof (rule hub_inv_one [OF assms])
    show "client_ok (es @ [Unregister k]) k (gm_has k (hb_clients ?h)) ((hb_heap h ! k)\<lparr>wc_closed := True\<rparr>)"
      using ok True inv by (auto simp: client_ok_def messages_for_same hb_upd_def gm_has_del delivered_def)
  qed (use inv in \<open>auto simp: hb_upd_def gm_has_del gm.inv_del\<close>)
  moreover have "hub_unregister k h = Inr ?h"
    using ok True by (simp add: hub_unregister_def close_send_def client_ok_def hb_upd_def)
  ultimately show ?thesis by blast
qed

section \<open>Broadcasts\<close>

definition sent :: "string \<Rightarrow> ws_client \<Rightarrow> ws_client" where
  "sent msg cl =
     (if length (wc_Send cl) < send_cap then cl\<lparr>wc_Send := wc_Send cl @ [msg]\<rparr>
      else cl\<lparr>wc_closed := True\<rparr>)"

lemma try_send_ok:
  assumes "k < length (hb_heap h)" and "\<not> wc_closed (hb_heap h ! k)" and "gm_inv (hb_clients h)"
  shows "\<exists>h'. try_send msg k h = Inr h' \<and> hb_heap h' = (hb_heap h)[k := sent msg (hb_heap h ! k)] \<and>
    gm_inv (hb_clients h') \<and>
    (\<forall>j. gm_has j (hb_clients h') \<longleftrightarrow>
       gm_has j (hb_clients h) \<and> (j = k \<longrightarrow> length (wc_Send (hb_heap h ! k)) < send_cap))"
  using assms by (auto simp: try_send_def Let_def close_send_def hb_upd_def sent_def gm_has_del gm.inv_del)

lemma hub_broadcast_ok:
  assumes "distinct ks" and "\<forall>k \<in> set ks. k < length (hb_heap h) \<and> \<not> wc_closed (hb_heap h ! k)"
    and "gm_inv (hb_clients h)"
  shows "\<exists>h'. hub_broadcast msg ks h = Inr h' \<and> length (hb_heap h') = length (hb_heap h) \<and>
    gm_inv (hb_clients h') \<and>
    (\<forall>j < length (hb_heap h). hb_heap h' ! j = (if j \<in> set ks then sent msg (hb_heap h ! j) else hb_heap h ! j)) \<and>
    (\<forall>j. gm_has j (hb_clients h') \<longleftrightarrow>
       gm_has j (hb_clients h) \<and> (j \<in> set ks \<longrightarrow> length (wc_Send (hb_heap h ! j)) < send_cap))"
  using assms
proof (induction ks arbitrary: h)
  case (Cons k ks)
  then obtain h1 where h1: "try_send msg k h = Inr h1" "hb_heap h1 = (hb_heap h)[k := sent msg (hb_heap h ! k)]"
    "gm_inv (hb_clients h1)"
    "\<forall>j. gm_has j (hb_clients h1) \<longleftrightarrow>
       gm_has j (hb_clients h) \<and> (j = k \<longrightarrow> length (wc_Send (hb_heap h ! k)) < send_cap)"
    using try_send_ok [of k h msg] by auto
  have other: "hb_heap h1 ! j = hb_heap h ! j" if "j \<in> set ks" for j
    using that Cons.prems(1) h1(2) by (cases "j = k") auto
  obtain h2 where h2: "hub_broadcast msg ks h1 = Inr h2" "length (hb_heap h2) = length (hb_heap h1)"
    "gm_inv (hb_clients h2)"
    "\<forall>j < length (hb_heap h1). hb_heap h2 ! j = (if j \<in> set ks then sent msg (hb_heap h1 ! j) else hb_heap h1 ! j)"
    "\<forall>j. gm_has j (hb_clients h2) \<longleftrightarrow>
       gm_has j (hb_clients h1) \<and> (j \<in> set ks \<longrightarrow> length (wc_Send (hb_heap h1 ! j)) < send_cap)"
    using Cons.IH [of h1] Cons.prems h1(2,3) other by auto
  show ?case
    using h1 h2 other Cons.prems(1) by (intro exI [of _ h2]) (auto simp: nth_list_update)
qed simp

lemma client_ok_sent:
  assumes "client_ok es k True cl"
  shows "client_ok (es @ [Broadcast msg ks]) k (length (wc_Send cl) < send_cap) (sent msg cl)"
  using assms by (auto simp: client_ok_def sent_def messages_for_snoc delivered_def prefix_def)

lemma client_ok_missed:
  assumes "client_ok es k False cl"
  shows "client_ok (es @ [Broadcast msg ks]) k False cl"
  using assms by (auto simp: client_ok_def messages_for_snoc new_client_def delivered_def prefix_def)

lemma Broadcast_ok:
  assumes "hub_inv es h" and "map_order (hb_clients h) ks"
  shows "\<exists>h'. hub_broadcast msg ks h = Inr h' \<and> hub_inv (es @ [Broadcast msg ks]) h' \<and>
    (\<forall>k. gm_has k (hb_clients h') \<longleftrightarrow>
       gm_has k (hb_clients h) \<and> length (wc_Send (hb_heap h ! k)) < send_cap) \<and>
    (\<forall>k. gm_has k (hb_clients h') \<longrightarrow> wc_Send (hb_heap h' ! k) = wc_Send (hb_heap h ! k) @ [msg])"
proof -
  have inv: "gm_inv (hb_clients h)" using assms(1) by (simp add: hub_inv_def)
  have ks: "distinct ks" "set ks = {k. gm_has k (hb_clients h)}"
    using map_order_distinct [OF inv assms(2)] map_order_set [OF assms(2)] by simp_all
  have "\<forall>k \<in> set ks. k < length (hb_heap h) \<and> \<not> wc_closed (hb_heap h ! k)"
    using assms(1) ks(2) by (auto simp: hub_inv_def client_ok_def)
  from hub_broadcast_ok [OF ks(1) this inv] obtain h' where h': "hub_broadcast msg ks h = Inr h'"
    "length (hb_heap h') = length (hb_heap h)" "gm_inv (hb_clients h')"
    "\<forall>j < length (hb_heap h). hb_heap h' ! j = (if j \<in> set ks then sent msg (hb_heap h ! j) else hb_heap h ! j)"
    "\<forall>j. gm_has j (hb_clients h') \<longleftrightarrow>
       gm_has j (hb_clients h) \<and> (j \<in> set ks \<longrightarrow> length (wc_Send (hb_heap h ! j)) < send_cap)" by blast
  have "client_ok (es @ [Broadcast msg ks]) k (gm_has k (hb_clients h')) (hb_heap h' ! k)"
    if k: "k < length (hb_heap h)" for k
    using hub_inv_client [OF assms(1) k] h'(4,5) ks(2) k client_ok_sent client_ok_missed
    by (cases "gm_has k (hb_clients h)") auto
  then have "hub_inv (es @ [Broadcast msg ks]) h'"
    using assms(1) h' by (auto simp: hub_inv_def)
  moreover have "wc_Send (hb_heap h' ! k) = wc_Send (hb_heap h ! k) @ [msg]" if "gm_has k (hb_clients h')" for k
    using that h'(4,5) ks(2) assms(1) by (auto simp: hub_inv_def sent_def)
  ultimately show ?thesis using h'(1,5) ks(2) by auto
qed

section \<open>Runs\<close>

lemma hub_do_ok:
  assumes "hub_inv es h" and "hub_do e h = Some r"
  shows "\<exists>h'. r = Inr h' \<and> hub_inv (es @ [e]) h'"
proof (cases e)
  case Connect
  with assms Connect_inv show ?thesis by auto
next
  case (Register k)
  with assms Register_inv show ?thesis by (auto split: if_splits)
next
  case (GoPump k)
  with assms GoPump_inv show ?thesis by (auto split: if_splits)
next
  case (Unregister k)
  with assms hub_unregister_ok show ?thesis by (auto split: if_splits)
next
  case (Broadcast msg ks)
  with assms Broadcast_ok show ?thesis by (fastforce split: if_splits)
next
  case (PumpMessage k io)
  with assms have k: "at_stage k InPump h" "r = Inr (hb_upd k (pump_message io) h)" by (auto split: if_splits)
  with client_ok_pump_message [OF hub_inv_client [OF assms(1)]] PumpMessage
    client_step_inv [OF assms(1) k(1), of e "pump_message io"]
  show ?thesis by (simp add: at_stage_def)
next
  case (PumpTick k ok)
  with assms have k: "at_stage k InPump h" "r = Inr (hb_upd k (pump_tick ok) h)" by (auto split: if_splits)
  with client_ok_pump_tick [OF hub_inv_client [OF assms(1)]] PumpTick
    client_step_inv [OF assms(1) k(1), of e "pump_tick ok"]
  show ?thesis by (simp add: at_stage_def)
qed

lemma hub_run_inv:
  assumes "hub_run h0 es r" and "hub_inv es0 h0"
  shows "\<exists>h. r = Inr h \<and> hub_inv (es0 @ es) h"
  using assms
proof (induction rule: hub_run.induct)
  case (step es h e r)
  then show ?case using hub_do_ok by fastforce
qed simp

text \<open>C7. Whatever order the goroutines run in, none sends on a closed channel or closes one twice: no run of
  the hub, its handlers and its pumps panics, and a broadcast never blocks. Queues hold at most 256
  messages. What a client was sent and what is queued for it are, as long as its pump runs, exactly
  the messages broadcast since its registration, in order, each once, while it is registered, and a
  prefix of them after it was dropped; a registered client's channel is open, a dropped one's is
  closed.\<close>

theorem hub_delivers:
  assumes "hub_run NewHub es r"
  shows "\<exists>h. r = Inr h \<and>
    (\<forall>msg ks. map_order (hb_clients h) ks \<longrightarrow> (\<exists>h'. hub_do (Broadcast msg ks) h = Some (Inr h'))) \<and>
    (\<forall>k < length (hb_heap h). let cl = hb_heap h ! k in
       length (wc_Send cl) \<le> 256 \<and>
       (if gm_has k (hb_clients h) then \<not> wc_closed cl else wc_at cl \<noteq> AtRegister \<longrightarrow> wc_closed cl) \<and>
       (wc_at cl \<in> {AtGo, InPump} \<longrightarrow>
          (if gm_has k (hb_clients h) then delivered cl @ wc_Send cl = messages_for k es
           else prefix (delivered cl @ wc_Send cl) (messages_for k es))) \<and>
       prefix (delivered cl) (messages_for k es))"
proof -
  obtain h where h: "r = Inr h" "hub_inv es h" using hub_run_inv [OF assms NewHub_inv] by auto
  have "client_ok es k (gm_has k (hb_clients h)) (hb_heap h ! k)" if "k < length (hb_heap h)" for k
    using hub_inv_client [OF h(2) that] .
  moreover have "\<exists>h'. hub_do (Broadcast msg ks) h = Some (Inr h')" if "map_order (hb_clients h) ks" for msg ks
    using Broadcast_ok [OF h(2) that, of msg] that by auto
  ultimately show ?thesis
    using h(1) by (auto simp: client_ok_def send_cap_def Let_def)
qed

definition sample_events :: "hub_event list" where
  "sample_events =
     [Connect, Register 0, Broadcast ''a'' [0], GoPump 0, Connect, Broadcast ''b'' [0],
      PumpMessage 0 Written, Register 1, Broadcast ''c'' [1, 0]]"

lemma sample_run: "\<exists>h. hub_run NewHub sample_events (Inr h) \<and> length (hb_heap h) = 2 \<and>
    gm_has 0 (hb_clients h) \<and> wc_at (hb_heap h ! 0) = InPump"
proof -
  have "case hub_exec NewHub sample_events of
      Some (Inr h) \<Rightarrow> length (hb_heap h) = 2 \<and> gm_has 0 (hb_clients h) \<and> wc_at (hb_heap h ! 0) = InPump
    | _ \<Rightarrow> False"
    by code_simp
  then show ?thesis
    unfolding hub_exec_run [symmetric] by (auto split: option.splits sum.splits)
qed

theorem hub_delivers_witness:
  "\<exists>h. hub_run NewHub sample_events (Inr h) \<and>
    delivered (hb_heap h ! 0) @ wc_Send (hb_heap h ! 0) = [''a'', ''b'', ''c'']"
proof -
  have "messages_for 0 sample_events = [''a'', ''b'', ''c'']" by (simp add: sample_events_def)
  with sample_run hub_delivers show ?thesis by (fastforce simp: Let_def)
qed

section \<open>Clients that do not read\<close>

text \<open>A client that is registered after a step, and was registered before, has got what was broadcast.\<close>

lemma hub_do_queue:
  assumes "hub_inv es h" and "hub_do e h = Some (Inr h')" and "gm_has k (hb_clients h)"
    and "gm_has k (hb_clients h')" and "\<forall>io. e \<noteq> PumpMessage k io"
  shows "wc_Send (hb_heap h' ! k) = wc_Send (hb_heap h ! k) @ broadcasts [e]"
proof -
  have k: "k < length (hb_heap h)" using assms(1,3) by (simp add: hub_inv_def)
  have upd: "wc_Send ((hb_heap h)[j := cl] ! k) = wc_Send (hb_heap h ! k)"
    if "wc_Send cl = wc_Send (hb_heap h ! j)" for j cl
    using k that by (cases "j = k") simp_all
  show ?thesis
  proof (cases e)
    case (Broadcast msg ks)
    with assms(1,2,4) show ?thesis using Broadcast_ok [OF assms(1), of ks msg] by (auto split: if_splits)
  next
    case (Unregister j)
    with assms(2,3,4) k show ?thesis
      by (auto simp: hub_unregister_def close_send_def hb_upd_def nth_list_update split: if_splits)
  qed (use assms k upd in \<open>auto simp: hb_upd_def hub_register_def nth_append
      pump_tick_def pump_return_def split: if_splits\<close>)
qed

text \<open>A client that was dropped stays dropped.\<close>

lemma hub_do_dropped:
  assumes "hub_inv es h" and "hub_do e h = Some (Inr h')" and "Register k \<in> set es"
    and "gm_has k (hb_clients h')"
  shows "gm_has k (hb_clients h)"
proof (rule ccontr)
  assume no: "\<not> gm_has k (hb_clients h)"
  have inv: "gm_inv (hb_clients h)" using assms(1) by (simp add: hub_inv_def)
  show False
  proof (cases e)
    case (Register j)
    with assms(2,4) no have "at_stage k AtRegister h"
      by (auto simp: hub_register_def hb_upd_def gm_has_put split: if_splits)
    with hub_inv_client [OF assms(1), of k] assms(3) show False by (simp add: at_stage_def client_ok_def)
  next
    case (Broadcast msg ks)
    with assms(1,2,4) no show False using Broadcast_ok [OF assms(1), of ks msg] by (auto split: if_splits)
  next
    case (Unregister j)
    with assms(2,4) no inv show False
      by (auto simp: hub_unregister_def close_send_def hb_upd_def gm_has_del split: if_splits)
  qed (use assms no in \<open>auto simp: hb_upd_def split: if_splits\<close>)
qed

lemma unread_queue:
  assumes "hub_run h0 es r" and "hub_inv es0 h0" and "gm_has k (hb_clients h0)"
    and "\<forall>io. PumpMessage k io \<notin> set es" and "r = Inr h" and "gm_has k (hb_clients h)"
  shows "wc_Send (hb_heap h ! k) = wc_Send (hb_heap h0 ! k) @ broadcasts es"
  using assms
proof (induction arbitrary: h rule: hub_run.induct)
  case (step es h1 e r)
  have inv: "hub_inv (es0 @ es) h1" using hub_run_inv [OF step.hyps(1) step.prems(1)] by blast
  have "client_ok es0 k True (hb_heap h0 ! k)"
    using hub_inv_client [OF step.prems(1), of k] step.prems(1,2) by (simp add: hub_inv_def)
  then have "Register k \<in> set (es0 @ es)" by (auto simp: client_ok_def)
  with hub_do_dropped [OF inv] step have "gm_has k (hb_clients h1)" by blast
  with step inv hub_do_queue [OF inv, of e h k] show ?case by auto
qed simp

lemma drain_dropped:
  assumes "hub_inv es h" and "at_stage k InPump h" and "\<not> gm_has k (hb_clients h)"
  shows "\<exists>es1 h1. set es1 \<subseteq> {PumpMessage k Written} \<and> length es1 \<le> 2 \<and> hub_run h es1 (Inr h1) \<and>
    wc_at (hb_heap h1 ! k) = Returned \<and> wc_conn_closed (hb_heap h1 ! k) \<and>
    last (wc_frames (hb_heap h1 ! k)) = CloseFrame \<and>
    delivered (hb_heap h1 ! k) = delivered (hb_heap h ! k) @ wc_Send (hb_heap h ! k)"
proof -
  let ?e = "PumpMessage k Written"
  have k: "k < length (hb_heap h)" "wc_at (hb_heap h ! k) = InPump" using assms(2) by (simp_all add: at_stage_def)
  have cl: "wc_closed (hb_heap h ! k)" using hub_inv_client [OF assms(1) k(1)] assms(3) k(2) by (simp add: client_ok_def)
  show ?thesis
  proof (cases "wc_Send (hb_heap h ! k)")
    case Nil
    then have "hub_exec h [?e] = Some (Inr (hb_upd k (pump_message Written) h))"
      using k cl by (simp add: hub_exec_def at_stage_def)
    with Nil k show ?thesis unfolding hub_exec_run
      by (intro exI [of _ "[?e]"] exI [of _ "hb_upd k (pump_message Written) h"])
        (simp add: hb_upd_def pump_message_def pump_return_def delivered_def frame_messages_def)
  next
    case (Cons m q)
    let ?h1 = "hb_upd k (pump_message Written) h"
    have "hub_exec h [?e, ?e] = Some (Inr (hb_upd k (pump_message Written) ?h1))"
      using k cl Cons by (simp add: hub_exec_def at_stage_def hb_upd_def pump_message_def)
    with Cons k show ?thesis unfolding hub_exec_run
      by (intro exI [of _ "[?e, ?e]"] exI [of _ "hb_upd k (pump_message Written) ?h1"])
        (simp add: hb_upd_def pump_message_def pump_return_def delivered_def frame_messages_def)
  qed
qed

text \<open>C37. A client that does not read cannot fill up the server. When a registered client's pump takes no
  message any more (its connection is stuck or the pump has ended), then however the other goroutines
  run, the broadcast that finds its queue full drops it: as soon as the broadcasts outnumber the free
  places the client is unregistered and its channel closed. If its pump still runs and its connection
  works again, then within two passes it writes what was queued and a close message, and returns.\<close>

theorem hub_drops_stalled:
  assumes "hub_run NewHub es (Inr h)" and "gm_has k (hb_clients h)"
    and "hub_run h later (Inr h')" and "\<forall>io. PumpMessage k io \<notin> set later"
    and "256 < length (wc_Send (hb_heap h ! k)) + length (broadcasts later)"
  shows "\<not> gm_has k (hb_clients h') \<and> wc_closed (hb_heap h' ! k) \<and>
    (wc_at (hb_heap h' ! k) = InPump \<longrightarrow>
      (\<exists>es1 h1. set es1 \<subseteq> {PumpMessage k Written} \<and> length es1 \<le> 2 \<and> hub_run h' es1 (Inr h1) \<and>
         wc_at (hb_heap h1 ! k) = Returned \<and> wc_conn_closed (hb_heap h1 ! k) \<and>
         last (wc_frames (hb_heap h1 ! k)) = CloseFrame \<and>
         delivered (hb_heap h1 ! k) = delivered (hb_heap h' ! k) @ wc_Send (hb_heap h' ! k)))"
proof -
  have inv: "hub_inv es h" using hub_run_inv [OF assms(1) NewHub_inv] by simp
  have inv': "hub_inv (es @ later) h'" using hub_run_inv [OF assms(3) inv] by simp
  have k: "k < length (hb_heap h)" using inv assms(2) by (simp add: hub_inv_def)
  have reg: "Register k \<in> set (es @ later)"
    using hub_inv_client [OF inv k] assms(2) by (auto simp: client_ok_def)
  then have k': "k < length (hb_heap h')" using inv' unfolding hub_inv_def by (meson not_less)
  note ok = hub_inv_client [OF inv' k']
  have no: "\<not> gm_has k (hb_clients h')"
  proof
    assume yes: "gm_has k (hb_clients h')"
    with unread_queue [OF assms(3) inv assms(2,4) refl] assms(5)
    have "256 < length (wc_Send (hb_heap h' ! k))" by simp
    with ok show False by (simp add: client_ok_def send_cap_def)
  qed
  moreover have "wc_closed (hb_heap h' ! k)" using ok no reg by (auto simp: client_ok_def)
  ultimately show ?thesis using drain_dropped [OF inv' _ no] k' by (simp add: at_stage_def)
qed

definition flood :: "hub_event list" where
  "flood = replicate 257 (Broadcast ''x'' [0])"

lemma flood_run:
  "\<exists>h h'. hub_run NewHub [Connect, Register 0, GoPump 0] (Inr h) \<and> gm_has 0 (hb_clients h) \<and>
    hub_run h flood (Inr h')"
proof -
  have "case hub_exec NewHub [Connect, Register 0, GoPump 0] of
      Some (Inr h) \<Rightarrow> gm_has 0 (hb_clients h) \<and> (case hub_exec h flood of Some (Inr h') \<Rightarrow> True | _ \<Rightarrow> False)
    | _ \<Rightarrow> False" (is "case ?r of Some (Inr h) \<Rightarrow> ?P h | _ \<Rightarrow> False")
    unfolding flood_def by code_simp
  then obtain h where h: "?r = Some (Inr h)" "?P h" by (cases ?r) (auto split: sum.splits)
  then obtain h' where "hub_exec h flood = Some (Inr h')"
    by (cases "hub_exec h flood") (auto split: sum.splits)
  with h show ?thesis unfolding hub_exec_run by blast
qed

theorem hub_drops_stalled_witness:
  "\<exists>h h'. hub_run NewHub [Connect, Register 0, GoPump 0] (Inr h) \<and> hub_run h flood (Inr h') \<and>
    \<not> gm_has 0 (hb_clients h')"
proof -
  have "broadcasts (replicate n (Broadcast m ks)) = replicate n m" for n m ks by (induction n) simp_all
  then have "length (broadcasts flood) = 257" by (simp add: flood_def)
  moreover have "\<forall>io. PumpMessage 0 io \<notin> set flood" by (simp add: flood_def)
  ultimately show ?thesis using flood_run hub_drops_stalled by fastforce
qed

end
