(* ===== verification/UI_Server.thy ===== *)
theory UI_Server
  imports Config_Update UI_Hub Templater
begin

text \<open>
  The web interface of \<^verbatim>\<open>ui_server.go\<close> on top of its hubs: the table of handlers, the admission of
  requests, the websockets, starting and reloading. The request multiplexer of \<^verbatim>\<open>net/http\<close> is
  translated as the Go release of the module has it. Log output is left out.
\<close>

section \<open>State\<close>

record index_data =
  ix_Scheme :: string
  ix_Config :: string
  ix_HostName :: string
  ix_TerminalWidth :: int
  ix_TerminalHeight :: int

text \<open>The closures that are registered: subscriptions to a hub (by its address), the two message handlers,
  and the pages \<^verbatim>\<open>MakeHTMLHandler\<close> makes of a template and its data.\<close>

datatype message_handler = ConfigMessages | PayloadMessages

datatype ui_handler =
    Subscription nat
  | EventLoop message_handler
  | HTMLPage string index_data

type_synonym handlers = "(string, ui_handler) gomap"

text \<open>\<^verbatim>\<open>http.Server\<close> with the multiplexer its handler uses; \<open>hs_open\<close>: it accepts connections.\<close>

record http_server =
  hs_Addr :: string
  hs_mux :: handlers
  hs_open :: bool

text \<open>\<^verbatim>\<open>Handlers\<close> is nil after \<^verbatim>\<open>Shutdown\<close>. Streams and servers are addresses.\<close>

record ui_server =
  ui_Handlers :: "handlers option"
  ui_Host :: string
  ui_Port :: int
  ui_CertFile :: string
  ui_KeyFile :: string
  ui_Stats :: "nat option"
  ui_Console :: "nat option"
  ui_httpd :: "nat option"

text \<open>What the interface works on: itself (\<^verbatim>\<open>SrvUI\<close>), the hubs and servers created so far, the start
  goroutines that still sleep, the configuration with its files, and the loot.\<close>

record ui_world =
  u_ui :: ui_server
  u_hubs :: "hub list"
  u_httpds :: "http_server list"
  u_starting :: nat
  u_cfg :: cfg_state
  u_loot :: loot

text \<open>\<open>rq_Upgrade\<close>: the request can become a websocket; \<open>rq_In\<close>: what then arrives, a message of a type
  with the error its answer meets, or a read error.\<close>

datatype ws_in = Incoming nat string "string option" | ReadError string

record http_request =
  rq_RemoteAddr :: string
  rq_Header :: "(string \<times> string) list"
  rq_Connect :: bool
  rq_Path :: string
  rq_Upgrade :: bool
  rq_In :: "ws_in list"

text \<open>How a websocket loop stands: waiting for input, closed by an error, or ended by a panic, which the
  HTTP server recovers.\<close>

datatype ws_end = WsWaiting | WsError string | WsPanic go_panic

datatype http_reply =
    Redirect nat string
  | BadRequest
  | PageNotFound
  | NoContent
  | Html string
  | Subscribed nat
  | Answers "(nat \<times> string) list" ws_end

text \<open>Functions outside the repository: the configuration library, \<^verbatim>\<open>gutils.RealAddr\<close>, \<^verbatim>\<open>FileExists\<close>,
  \<^verbatim>\<open>FileModTime\<close>, \<^verbatim>\<open>EncodeBase64String\<close> and \<^verbatim>\<open>GenerateSelfSignedCertificate\<close>, the HTML template
  engine, whether the system lets the server listen, and the orders in which maps are ranged over.\<close>

record 'y ui_lib =
  ul_cfg :: "'y config_lib"
  ul_RealAddr :: "http_request \<Rightarrow> string"
  ul_FileExists :: "fsys \<Rightarrow> string \<Rightarrow> bool"
  ul_FileModTime :: "fsys \<Rightarrow> string \<Rightarrow> string + int"
  ul_EncodeBase64 :: "string \<Rightarrow> string"
  ul_GenerateCert :: "string \<Rightarrow> string \<Rightarrow> fsys \<Rightarrow> string option \<times> fsys"
  ul_html :: "index_data engine"
  ul_listen :: "string \<Rightarrow> bool"
  ul_payload_keys :: "payloads \<Rightarrow> string list"
  ul_node_keys :: "sync_nodes \<Rightarrow> string list"
  ul_hub_keys :: "hub \<Rightarrow> nat list"

section \<open>The table of handlers\<close>

text \<open>\<^verbatim>\<open>AddHTMLHandler\<close>, \<^verbatim>\<open>AddSubscriptionHandler\<close> and \<^verbatim>\<open>AddHandler\<close> differ in the closure they register. A
  path that is taken stays as it is; assigning to a nil map panics.\<close>

definition add_handler :: "string \<Rightarrow> ui_handler \<Rightarrow> ui_server \<Rightarrow> go_panic + ui_server" where
  "add_handler path h uis =
     (case ui_Handlers uis of
        None \<Rightarrow> Inl (PanicValue ''assignment to entry in nil map'')
      | Some m \<Rightarrow>
          if gm_has path m then Inr uis else Inr (uis\<lparr>ui_Handlers := Some (gm_put path h m)\<rparr>))"

definition AddHTMLHandler :: "string \<Rightarrow> string \<Rightarrow> index_data \<Rightarrow> ui_server \<Rightarrow> go_panic + ui_server" where
  "AddHTMLHandler path template data uis = add_handler path (HTMLPage template data) uis"

definition AddSubscriptionHandler :: "string \<Rightarrow> nat \<Rightarrow> ui_server \<Rightarrow> go_panic + ui_server" where
  "AddSubscriptionHandler path hub uis = add_handler path (Subscription hub) uis"

definition AddHandler :: "string \<Rightarrow> message_handler \<Rightarrow> ui_server \<Rightarrow> go_panic + ui_server" where
  "AddHandler path mh uis = add_handler path (EventLoop mh) uis"

section \<open>Streams\<close>

text \<open>\<^verbatim>\<open>NewWebsocketStream\<close> makes a hub and starts its goroutine; the address is the next one.\<close>

definition NewWebsocketStream :: "hub list \<Rightarrow> nat \<times> hub list" where
  "NewWebsocketStream hs = (length hs, hs @ [NewHub])"

text \<open>A broadcast on a stream; a nil stream drops it. The hub is told through its channel.\<close>

definition push ::
  "'y ui_lib \<Rightarrow> (ui_server \<Rightarrow> nat option) \<Rightarrow> string \<Rightarrow> ui_world \<Rightarrow> go_panic + ui_world" where
  "push lib stream msg w =
     (case stream (u_ui w) of
        None \<Rightarrow> Inr w
      | Some a \<Rightarrow>
          (let h = u_hubs w ! a
           in case Hub_Broadcast msg (ul_hub_keys lib h) h of
                Some (Inr h') \<Rightarrow> Inr (w\<lparr>u_hubs := (u_hubs w)[a := h']\<rparr>)
              | Some (Inl p) \<Rightarrow> Inl p
              | None \<Rightarrow> Inr w))"

definition PushStats :: "'y ui_lib \<Rightarrow> string \<Rightarrow> ui_world \<Rightarrow> go_panic + ui_world" where
  "PushStats lib msg w = push lib ui_Stats msg w"

definition PushLog :: "'y ui_lib \<Rightarrow> string \<Rightarrow> ui_world \<Rightarrow> go_panic + ui_world" where
  "PushLog lib msg w = push lib ui_Console msg w"

text \<open>\<^verbatim>\<open>logMessageHandler\<close> of \<^verbatim>\<open>config.go\<close>: the message goes to the standard output and, when there is a
  web interface, to its console.\<close>

definition logMessageHandler ::
  "'y ui_lib \<Rightarrow> string \<Rightarrow> string \<Rightarrow> ui_world option \<Rightarrow> string \<times> (go_panic + ui_world option)" where
  "logMessageHandler lib msg stdout srvUI =
     (stdout @ msg,
      case srvUI of None \<Rightarrow> Inr None | Some w \<Rightarrow> bind_res (PushLog lib msg w) (\<lambda>w'. Inr (Some w')))"

text \<open>The writer for the errors of the HTTP server: TLS handshake errors are dropped. The result is the
  number of bytes it reports and what is logged.\<close>

definition serverErrorLogWriter_Write :: "string \<Rightarrow> nat \<times> string option" where
  "serverErrorLogWriter_Write p =
     (if HasPrefix p ''http: TLS handshake error'' then (0, None) else (length p, Some p))"

section \<open>Starting and stopping\<close>

definition index_page :: "ui_server \<Rightarrow> cfg_state \<Rightarrow> index_data" where
  "index_page uis g =
     \<lparr>ix_Scheme = (if ui_CertFile uis \<noteq> [] \<and> ui_KeyFile uis \<noteq> [] then ''wss'' else ''ws''),
      ix_Config = getConfig (g_cfgFile g) (g_disk g), ix_HostName = c_HostName (g_conf g),
      ix_TerminalWidth = 80, ix_TerminalHeight = 24\<rparr>"

text \<open>\<^verbatim>\<open>init\<close>: the settings of the configuration, an empty table, two new streams, five handlers.\<close>

definition ui_init :: "ui_world \<Rightarrow> go_panic + ui_world" where
  "ui_init w =
     (let c = g_conf (u_cfg w);
          (stats, hs1) = NewWebsocketStream (u_hubs w);
          (console, hs2) = NewWebsocketStream hs1;
          uis = (u_ui w)\<lparr>ui_Host := c_WebHost c, ui_Port := sint (c_WebPort c),
            ui_CertFile := c_WebCertFile c, ui_KeyFile := c_WebKeyFile c, ui_Handlers := Some gm_empty,
            ui_Stats := Some stats, ui_Console := Some console\<rparr>
      in bind_res (AddSubscriptionHandler ''/stats'' stats uis) (\<lambda>uis.
         bind_res (AddSubscriptionHandler ''/console'' console uis) (\<lambda>uis.
         bind_res (AddHandler ''/config'' ConfigMessages uis) (\<lambda>uis.
         bind_res (AddHandler ''/payloads'' PayloadMessages uis) (\<lambda>uis.
         bind_res (AddHTMLHandler ''/'' ''index'' (index_page uis (u_cfg w)) uis) (\<lambda>uis.
           Inr (w\<lparr>u_ui := uis, u_hubs := hs2\<rparr>)))))))"

text \<open>A self-signed certificate is made when the certificate or the key file is missing.\<close>

definition ensure_cert :: "'y ui_lib \<Rightarrow> ui_server \<Rightarrow> fsys \<Rightarrow> go_panic option \<times> fsys" where
  "ensure_cert lib uis d =
     (if \<not> ul_FileExists lib d (ui_CertFile uis) \<or> \<not> ul_FileExists lib d (ui_KeyFile uis)
      then (case ul_GenerateCert lib (ui_KeyFile uis) (ui_CertFile uis) d of
              (Some e, d1) \<Rightarrow> (Some (PanicValue
                (''could not create self signed certificate for UI server: '' @ e)), d1)
            | (None, d1) \<Rightarrow> (None, d1))
      else (None, d))"

text \<open>\<^verbatim>\<open>Serve\<close>: the server listens unless the system refuses or an open server has the address already; in
  both cases the goroutine logs and ends, while \<^verbatim>\<open>uis.server\<close> is the new one.\<close>

definition can_listen :: "'y ui_lib \<Rightarrow> string \<Rightarrow> http_server list \<Rightarrow> bool" where
  "can_listen lib addr srvs \<longleftrightarrow> ul_listen lib addr \<and> (\<forall>s \<in> set srvs. \<not> (hs_open s \<and> hs_Addr s = addr))"

definition ui_start :: "'y ui_lib \<Rightarrow> ui_world \<Rightarrow> go_panic option \<times> ui_world" where
  "ui_start lib w =
     (case ui_init w of
        Inl p \<Rightarrow> (Some p, w)
      | Inr w1 \<Rightarrow>
          (let uis = u_ui w1; addr = host_port (ui_Host uis) (ui_Port uis)
           in case ensure_cert lib uis (g_disk (u_cfg w1)) of
                (Some p, d1) \<Rightarrow> (Some p, w1\<lparr>u_cfg := (u_cfg w1)\<lparr>g_disk := d1\<rparr>\<rparr>)
              | (None, d1) \<Rightarrow>
                  (None, w1\<lparr>u_cfg := (u_cfg w1)\<lparr>g_disk := d1\<rparr>,
                     u_ui := uis\<lparr>ui_httpd := Some (length (u_httpds w1))\<rparr>,
                     u_httpds := u_httpds w1 @
                       [\<lparr>hs_Addr = addr, hs_mux = the (ui_Handlers uis),
                         hs_open = can_listen lib addr (u_httpds w1)\<rparr>]\<rparr>)))"

text \<open>\<^verbatim>\<open>Shutdown\<close> closes the server that \<^verbatim>\<open>uis.server\<close> names and drops the table; without a server it
  panics. \<^verbatim>\<open>Reload\<close> leaves the start to a new goroutine.\<close>

definition ui_shutdown :: "ui_world \<Rightarrow> go_panic option \<times> ui_world" where
  "ui_shutdown w =
     (case ui_httpd (u_ui w) of
        None \<Rightarrow> (Some NilDeref, w)
      | Some i \<Rightarrow>
          (None, w\<lparr>u_httpds := (u_httpds w)[i := (u_httpds w ! i)\<lparr>hs_open := False\<rparr>],
                   u_ui := (u_ui w)\<lparr>ui_Handlers := None\<rparr>\<rparr>))"

definition ui_reload :: "ui_world \<Rightarrow> go_panic option \<times> ui_world" where
  "ui_reload w =
     (case ui_shutdown w of
        (Some p, w1) \<Rightarrow> (Some p, w1)
      | (None, w1) \<Rightarrow> (None, w1\<lparr>u_starting := Suc (u_starting w1)\<rparr>))"

definition NewUIServer :: "conf \<Rightarrow> ui_server option" where
  "NewUIServer c =
     (if \<not> c_WebEnabled c then None
      else Some \<lparr>ui_Handlers = Some gm_empty, ui_Host = [], ui_Port = 0, ui_CertFile = [], ui_KeyFile = [],
             ui_Stats = None, ui_Console = None, ui_httpd = None\<rparr>)"

section \<open>Messages on websockets\<close>

text \<open>\<^verbatim>\<open>/config\<close>: a message replaces the configuration; the answer is empty in any case.\<close>

definition config_message :: "'y ui_lib \<Rightarrow> string \<Rightarrow> ui_world \<Rightarrow> (go_panic + string) \<times> ui_world" where
  "config_message lib msg w =
     (case updateConfig (ul_cfg lib) (ul_node_keys lib) msg (u_cfg w) of
        (Inl p, g) \<Rightarrow> (Inl p, w\<lparr>u_cfg := g\<rparr>)
      | (Inr (Some e), g) \<Rightarrow> (Inr [], w\<lparr>u_cfg := g\<rparr>)
      | (Inr None, g) \<Rightarrow>
          (case ui_reload (w\<lparr>u_cfg := g\<rparr>) of
             (Some p, w1) \<Rightarrow> (Inl p, w1)
           | (None, w1) \<Rightarrow> (Inr [], w1)))"

text \<open>\<^verbatim>\<open>/payloads\<close>: the list, or the content of one payload.\<close>

definition payload_message :: "'y ui_lib \<Rightarrow> string \<Rightarrow> ui_world \<Rightarrow> (go_panic + string) \<times> ui_world" where
  "payload_message lib msg w =
     (let c = g_conf (u_cfg w); d = g_disk (u_cfg w); ps = payloads (u_loot w)
      in (if msg = ''list'' then
            Inr (''list:'' @ Join '','' (GetPayloadsWithTimestamp (ul_FileExists lib) (ul_FileModTime lib) c d
              (ul_payload_keys lib ps)))
          else case Payloads_Get msg ps of
            Inl e \<Rightarrow> Inr []
          | Inr p \<Rightarrow>
              (if \<not> payload_Exists (ul_FileExists lib) d p then Inr []
               else case payload_Read (ul_FileExists lib) d p of
                      Inl e \<Rightarrow> Inr []
                    | Inr pl \<Rightarrow> Inr (ul_EncodeBase64 lib pl)), w))"

definition message_answer ::
  "'y ui_lib \<Rightarrow> message_handler \<Rightarrow> string \<Rightarrow> ui_world \<Rightarrow> (go_panic + string) \<times> ui_world" where
  "message_answer lib mh =
     (case mh of ConfigMessages \<Rightarrow> config_message lib | PayloadMessages \<Rightarrow> payload_message lib)"

text \<open>The event loop of \<^verbatim>\<open>AddHandler\<close>: what was written, with the message types, and how it ended.\<close>

fun event_loop ::
  "(string \<Rightarrow> 'w \<Rightarrow> (go_panic + string) \<times> 'w) \<Rightarrow> ws_in list \<Rightarrow> 'w \<Rightarrow>
   (nat \<times> string) list \<times> ws_end \<times> 'w" where
  "event_loop f [] w = ([], WsWaiting, w)"
| "event_loop f (ReadError e # is) w = ([], WsError e, w)"
| "event_loop f (Incoming t m werr # is) w =
     (case f m w of
        (Inl p, w1) \<Rightarrow> ([], WsPanic p, w1)
      | (Inr out, w1) \<Rightarrow>
          (case werr of
             Some e \<Rightarrow> ([], WsError e, w1)
           | None \<Rightarrow> (case event_loop f is w1 of (outs, fin, w2) \<Rightarrow> ((t, out) # outs, fin, w2))))"

section \<open>Requests\<close>

text \<open>The multiplexer of \<^verbatim>\<open>net/http\<close>: paths are cleaned (not for \<^verbatim>\<open>CONNECT\<close>), a path whose pattern has only
  been registered with a slash at the end is redirected there, an exact pattern wins, otherwise the
  longest pattern that ends in a slash and begins the path.\<close>

definition cleanPath :: "string \<Rightarrow> string" where
  "cleanPath p =
     (if p = [] then ''/''
      else let p1 = (if hd p \<noteq> CHR ''/'' then CHR ''/'' # p else p); np = Clean p1
           in if last p1 = CHR ''/'' \<and> np \<noteq> ''/'' then np @ ''/'' else np)"

definition mux_match :: "handlers \<Rightarrow> string \<Rightarrow> ui_handler option" where
  "mux_match m path =
     (case gm_get path m of
        Some h \<Rightarrow> Some h
      | None \<Rightarrow>
          (case filter (\<lambda>k. k \<noteq> [] \<and> last k = CHR ''/'' \<and> HasPrefix path k) (gm_keys m) of
             [] \<Rightarrow> None
           | k # ks \<Rightarrow> gm_get (fold (\<lambda>a b. if length b < length a then a else b) ks k) m))"

definition slash_redirect :: "handlers \<Rightarrow> string \<Rightarrow> bool" where
  "slash_redirect m path \<longleftrightarrow>
     \<not> gm_has path m \<and> path \<noteq> [] \<and> gm_has (path @ ''/'') m \<and> last path \<noteq> CHR ''/''"

datatype mux_result = MuxMoved string | MuxHandler ui_handler | MuxNone | MuxBad

definition mux_handler :: "handlers \<Rightarrow> http_request \<Rightarrow> mux_result" where
  "mux_handler m rq =
     (let path = (if rq_Connect rq then rq_Path rq else cleanPath (rq_Path rq))
      in if rq_Path rq = ''*'' then MuxBad
         else if slash_redirect m path then MuxMoved (path @ ''/'')
         else if path \<noteq> rq_Path rq then MuxMoved path
         else case mux_match m path of None \<Rightarrow> MuxNone | Some h \<Rightarrow> MuxHandler h)"

text \<open>\<^verbatim>\<open>MakeHTMLHandler\<close>: a template that fails gives no content.\<close>

definition html_reply :: "'y ui_lib \<Rightarrow> string \<Rightarrow> index_data \<Rightarrow> ui_world \<Rightarrow> http_reply" where
  "html_reply lib template data w =
     (case ParseTemplateHTML (ul_html lib) (g_conf (u_cfg w)) (g_disk (u_cfg w)) template data of
        (out, Some e) \<Rightarrow> NoContent
      | (out, None) \<Rightarrow> Html out)"

text \<open>A subscription creates a client of the hub; its registration and its pump are the hub's own steps.\<close>

definition subscribe :: "nat \<Rightarrow> ui_world \<Rightarrow> ui_world" where
  "subscribe a w =
     (case hub_do Connect (u_hubs w ! a) of
        Some (Inr h) \<Rightarrow> w\<lparr>u_hubs := (u_hubs w)[a := h]\<rparr>
      | _ \<Rightarrow> w)"

definition run_handler ::
  "'y ui_lib \<Rightarrow> ui_handler \<Rightarrow> http_request \<Rightarrow> ui_world \<Rightarrow> http_reply \<times> ui_world" where
  "run_handler lib h rq w =
     (case h of
        Subscription a \<Rightarrow> (if rq_Upgrade rq then (Subscribed a, subscribe a w) else (BadRequest, w))
      | EventLoop mh \<Rightarrow>
          (if rq_Upgrade rq
           then (case event_loop (message_answer lib mh) (rq_In rq) w of
                   (outs, fin, w1) \<Rightarrow> (Answers outs fin, w1))
           else (BadRequest, w))
      | HTMLPage template data \<Rightarrow> (html_reply lib template data w, w))"

definition ServeHTTP ::
  "'y ui_lib \<Rightarrow> handlers \<Rightarrow> http_request \<Rightarrow> ui_world \<Rightarrow> http_reply \<times> ui_world" where
  "ServeHTTP lib m rq w =
     (case mux_handler m rq of
        MuxBad \<Rightarrow> (BadRequest, w)
      | MuxMoved path \<Rightarrow> (Redirect 301 path, w)
      | MuxNone \<Rightarrow> (PageNotFound, w)
      | MuxHandler h \<Rightarrow> run_handler lib h rq w)"

text \<open>The handler \<^verbatim>\<open>Start\<close> gives its server: who is not whitelisted is sent back to itself, except the
  honeypot's own addresses, which get an empty answer.\<close>

definition ui_handle ::
  "'y ui_lib \<Rightarrow> handlers \<Rightarrow> http_request \<Rightarrow> ui_world \<Rightarrow> http_reply \<times> ui_world" where
  "ui_handle lib m rq w =
     (let addr = ul_RealAddr lib rq; c = g_conf (u_cfg w)
      in if \<not> isIPWhitelisted c addr
         then (if list_ex (\<lambda>srv. addr = srv_Host srv) (c_Servers c) then (NoContent, w)
               else (Redirect 307 (''https://'' @ addr @ rq_Path rq), w))
         else ServeHTTP lib m rq w)"

text \<open>What happens to the interface: a request to one of its servers (\<^term>\<open>None\<close>: not accepted), or a start
  goroutine that wakes up, whose panic ends the program.\<close>

datatype ui_event = Request nat http_request | StartGoroutine

definition ui_do ::
  "'y ui_lib \<Rightarrow> ui_event \<Rightarrow> ui_world \<Rightarrow> (http_reply option \<times> go_panic option \<times> ui_world) option" where
  "ui_do lib ev w =
     (case ev of
        Request i rq \<Rightarrow>
          (if i < length (u_httpds w) \<and> hs_open (u_httpds w ! i)
           then (case ui_handle lib (hs_mux (u_httpds w ! i)) rq w of (r, w1) \<Rightarrow> Some (Some r, None, w1))
           else None)
      | StartGoroutine \<Rightarrow>
          (if u_starting w = 0 then None
           else (case ui_start lib (w\<lparr>u_starting := u_starting w - 1\<rparr>) of
                   (p, w1) \<Rightarrow> Some (None, p, w1))))"

inductive ui_run :: "'y ui_lib \<Rightarrow> ui_world \<Rightarrow> (ui_event \<times> http_reply option) list \<Rightarrow> ui_world \<Rightarrow> bool"
  for lib w0 where
  ui_begin: "ui_run lib w0 [] w0"
| ui_step: "ui_run lib w0 es w \<Longrightarrow> ui_do lib ev w = Some (r, None, w') \<Longrightarrow>
    ui_run lib w0 (es @ [(ev, r)]) w'"

inductive_cases ui_run_NilE: "ui_run lib w0 [] w"
inductive_cases ui_run_snocE: "ui_run lib w0 (es @ [e]) w"

section \<open>The table that init makes\<close>

definition ui_table :: "nat \<Rightarrow> index_data \<Rightarrow> handlers" where
  "ui_table n page =
     gm_put ''/'' (HTMLPage ''index'' page) (gm_put ''/payloads'' (EventLoop PayloadMessages)
       (gm_put ''/config'' (EventLoop ConfigMessages) (gm_put ''/console'' (Subscription (Suc n))
         (gm_put ''/stats'' (Subscription n) gm_empty))))"

definition ui_ready :: "ui_world \<Rightarrow> ui_server" where
  "ui_ready w =
     (let c = g_conf (u_cfg w); n = length (u_hubs w);
          uis = (u_ui w)\<lparr>ui_Host := c_WebHost c, ui_Port := sint (c_WebPort c),
            ui_CertFile := c_WebCertFile c, ui_KeyFile := c_WebKeyFile c,
            ui_Stats := Some n, ui_Console := Some (Suc n)\<rparr>
      in uis\<lparr>ui_Handlers := Some (ui_table n (index_page uis (u_cfg w)))\<rparr>)"

lemma ui_init_eq:
  "ui_init w = Inr (w\<lparr>u_ui := ui_ready w, u_hubs := u_hubs w @ [NewHub, NewHub]\<rparr>)"
  by (simp add: ui_init_def ui_ready_def ui_table_def NewWebsocketStream_def AddSubscriptionHandler_def
      AddHandler_def AddHTMLHandler_def add_handler_def Let_def index_page_def gm_has_put)

lemma ui_table_get [simp]:
  "gm_get ''/payloads'' (ui_table n pg) = Some (EventLoop PayloadMessages)"
  "gm_get ''/config'' (ui_table n pg) = Some (EventLoop ConfigMessages)"
  "gm_get ''/'' (ui_table n pg) = Some (HTMLPage ''index'' pg)"
  "gm_get ''/stats'' (ui_table n pg) = Some (Subscription n)"
  "gm_get ''/console'' (ui_table n pg) = Some (Subscription (Suc n))"
  by (simp_all add: ui_table_def gm_laws)

lemma cleanPath_fixed [simp]:
  "cleanPath ''/payloads'' = ''/payloads''" "cleanPath ''/config'' = ''/config''" "cleanPath ''/'' = ''/''"
  by code_simp+

lemma mux_table:
  assumes "path \<in> {''/payloads'', ''/config'', ''/''}" and "rq_Path rq = path"
  shows "mux_handler (ui_table n pg) rq = MuxHandler (the (gm_get path (ui_table n pg)))"
  using assms by (auto simp: mux_handler_def slash_redirect_def gm_has_def mux_match_def Let_def)

section \<open>Strangers\<close>

text \<open>The honeypot's own addresses get nothing, the others their request back.\<close>

definition stranger_reply :: "'y ui_lib \<Rightarrow> conf \<Rightarrow> http_request \<Rightarrow> http_reply" where
  "stranger_reply lib c rq =
     (if ul_RealAddr lib rq \<in> srv_Host ` set (c_Servers c) then NoContent
      else Redirect 307 (''https://'' @ ul_RealAddr lib rq @ rq_Path rq))"

lemma ui_handle_stranger:
  assumes "\<not> isIPWhitelisted (g_conf (u_cfg w)) (ul_RealAddr lib rq)"
  shows "ui_handle lib m rq w = (stranger_reply lib (g_conf (u_cfg w)) rq, w)"
  using assms by (auto simp: ui_handle_def stranger_reply_def Let_def list_ex_iff image_iff)

lemma ui_start_frame:
  assumes "ui_start lib w = (p, w1)"
  shows "\<exists>d hs. set hs \<subseteq> {NewHub} \<and> u_hubs w1 = u_hubs w @ hs \<and> u_loot w1 = u_loot w \<and>
    u_cfg w1 = (u_cfg w)\<lparr>g_disk := d\<rparr> \<and> u_starting w1 = u_starting w"
proof -
  obtain q d where c: "ensure_cert lib (ui_ready w) (g_disk (u_cfg w)) = (q, d)" by (meson surj_pair)
  have "u_hubs w1 = u_hubs w @ [NewHub, NewHub] \<and> u_loot w1 = u_loot w \<and>
      u_cfg w1 = (u_cfg w)\<lparr>g_disk := d\<rparr> \<and> u_starting w1 = u_starting w"
    using assms by (cases q) (auto simp: ui_start_def ui_init_eq Let_def c)
  then show ?thesis by (intro exI [of _ d] exI [of _ "[NewHub, NewHub]"]) simp
qed

text \<open>The state that strangers leave alone.\<close>

definition kept :: "ui_world \<Rightarrow> ui_world \<Rightarrow> bool" where
  "kept w0 w \<longleftrightarrow>
     (\<exists>d. u_cfg w = (u_cfg w0)\<lparr>g_disk := d\<rparr>) \<and> u_loot w = u_loot w0 \<and>
     (\<exists>hs. set hs \<subseteq> {NewHub} \<and> u_hubs w = u_hubs w0 @ hs)"

lemma kept_conf: "kept w0 w \<Longrightarrow> g_conf (u_cfg w) = g_conf (u_cfg w0)"
  by (auto simp: kept_def)

lemma kept_start:
  assumes "kept w0 w" and "ui_start lib (w\<lparr>u_starting := n\<rparr>) = (p, w1)"
  shows "kept w0 w1"
proof -
  from assms(1) obtain d hs where k: "u_cfg w = (u_cfg w0)\<lparr>g_disk := d\<rparr>" "u_loot w = u_loot w0"
    "set hs \<subseteq> {NewHub}" "u_hubs w = u_hubs w0 @ hs"
    unfolding kept_def by blast
  from ui_start_frame [OF assms(2)] obtain d1 hs1 where s: "set hs1 \<subseteq> {NewHub}"
    "u_hubs w1 = u_hubs w @ hs1" "u_loot w1 = u_loot w" "u_cfg w1 = (u_cfg w)\<lparr>g_disk := d1\<rparr>"
    by auto
  from k s have "u_cfg w1 = (u_cfg w0)\<lparr>g_disk := d1\<rparr>" "set (hs @ hs1) \<subseteq> {NewHub}"
    "u_hubs w1 = u_hubs w0 @ (hs @ hs1)" by auto
  with k s show ?thesis unfolding kept_def by metis
qed

text \<open>C6. Whatever requests come from addresses that are not whitelisted, for any path, method and
  headers and to any server: each is answered with a redirect to the sender's own address and path,
  or with nothing when the address is one of the honeypot's own; the configuration, the loot and the
  clients of the hubs stay as they were, and without a restart in between everything does.\<close>

theorem strangers_change_nothing:
  assumes "ui_run lib w0 es w"
    and "\<And>i rq r. (Request i rq, r) \<in> set es \<Longrightarrow>
      \<not> isIPWhitelisted (g_conf (u_cfg w0)) (ul_RealAddr lib rq)"
  shows "kept w0 w \<and> ((\<forall>e \<in> set es. fst e \<noteq> StartGoroutine) \<longrightarrow> w = w0) \<and>
    (\<forall>i rq r. (Request i rq, r) \<in> set es \<longrightarrow>
      r = Some (stranger_reply lib (g_conf (u_cfg w0)) rq))"
  using assms
proof (induction rule: ui_run.induct)
  case ui_begin
  have "kept w0 w0" by (auto simp: kept_def intro: exI [of _ "g_disk (u_cfg w0)"])
  then show ?case by simp
next
  case (ui_step es w ev r w')
  have ih: "kept w0 w \<and> ((\<forall>e \<in> set es. fst e \<noteq> StartGoroutine) \<longrightarrow> w = w0) \<and>
    (\<forall>i rq r. (Request i rq, r) \<in> set es \<longrightarrow>
      r = Some (stranger_reply lib (g_conf (u_cfg w0)) rq))"
    by (rule ui_step.IH, rule ui_step.prems) (simp, blast)
  have IH: "kept w0 w" "(\<forall>e \<in> set es. fst e \<noteq> StartGoroutine) \<longrightarrow> w = w0"
    "\<And>i rq r. (Request i rq, r) \<in> set es \<Longrightarrow> r = Some (stranger_reply lib (g_conf (u_cfg w0)) rq)"
    using ih by blast+
  show ?case
  proof (cases ev)
    case (Request i rq)
    then have "\<not> isIPWhitelisted (g_conf (u_cfg w)) (ul_RealAddr lib rq)"
      using ui_step.prems [of i rq r] kept_conf [OF IH(1)] by simp
    note ui_handle_stranger [OF this, of "hs_mux (u_httpds w ! i)", unfolded kept_conf [OF IH(1)]]
    with ui_step.hyps(2) Request have "w' = w" "r = Some (stranger_reply lib (g_conf (u_cfg w0)) rq)"
      by (simp_all add: ui_do_def split: if_splits)
    with IH Request show ?thesis by auto
  next
    case StartGoroutine
    with ui_step.hyps(2) obtain p where "ui_start lib (w\<lparr>u_starting := u_starting w - 1\<rparr>) = (p, w')"
      by (auto simp: ui_do_def split: if_splits prod.splits)
    from kept_start [OF IH(1) this] IH(3) StartGoroutine show ?thesis by auto
  qed
qed

section \<open>The payload socket\<close>

lemma ui_start_served:
  assumes "ui_start lib w = (None, w1)"
  shows "\<exists>pg. u_httpds w1 = u_httpds w @ [\<lparr>hs_Addr = host_port (c_WebHost (g_conf (u_cfg w)))
        (sint (c_WebPort (g_conf (u_cfg w)))), hs_mux = ui_table (length (u_hubs w)) pg,
        hs_open = can_listen lib (host_port (c_WebHost (g_conf (u_cfg w)))
          (sint (c_WebPort (g_conf (u_cfg w))))) (u_httpds w)\<rparr>] \<and>
    pg = index_page (ui_ready w) (u_cfg w) \<and> ui_httpd (u_ui w1) = Some (length (u_httpds w))"
proof -
  obtain q d where c: "ensure_cert lib (ui_ready w) (g_disk (u_cfg w)) = (q, d)" by (meson surj_pair)
  have "ui_Handlers (ui_ready w) = Some (ui_table (length (u_hubs w)) (index_page (ui_ready w) (u_cfg w)))"
    and "ui_Host (ui_ready w) = c_WebHost (g_conf (u_cfg w))"
    and "ui_Port (ui_ready w) = sint (c_WebPort (g_conf (u_cfg w)))"
    by (simp_all add: ui_ready_def Let_def index_page_def)
  with assms show ?thesis
    by (cases q) (auto simp: ui_start_def ui_init_eq Let_def c)
qed

text \<open>What the socket has to answer: the list of the captured payloads with their times, or the trimmed
  capture of a registered payload, encoded; the empty answer for everything else.\<close>

definition payload_entry :: "'y ui_lib \<Rightarrow> cfg_state \<Rightarrow> string \<Rightarrow> string list" where
  "payload_entry lib g k =
     (let f = payload_path (g_conf g) k
      in if os_is_file (g_disk g) (path_comps f)
         then (case ul_FileModTime lib (g_disk g) f of Inl e \<Rightarrow> [] | Inr t \<Rightarrow> [int_dec t @ ''-'' @ k])
         else [])"

definition payload_reference :: "'y ui_lib \<Rightarrow> ui_world \<Rightarrow> string \<Rightarrow> string" where
  "payload_reference lib w m =
     (let ps = payloads (u_loot w)
      in if m = ''list''
         then ''list:'' @ Join '','' (concat (map (payload_entry lib (u_cfg w)) (ul_payload_keys lib ps)))
         else case gm_get m ps of
                None \<Rightarrow> []
              | Some p \<Rightarrow> (case os_read_file (g_disk (u_cfg w)) (path_comps (p_file p)) of
                              Inl e \<Rightarrow> []
                            | Inr s \<Rightarrow> ul_EncodeBase64 lib (TrimSpace s)))"

lemma payload_list:
  assumes "file_exists_ok (ul_FileExists lib)"
  shows "GetPayloadsWithTimestamp (ul_FileExists lib) (ul_FileModTime lib) (g_conf g) (g_disk g) ks =
    concat (map (payload_entry lib g) ks)"
  using assms by (induction ks)
    (auto simp: payload_entry_def file_exists_ok_def payload_Exists_def SetHash_def Let_def split: sum.split)

lemma read_is_file: "(\<exists>s. os_read_file d p = Inr s) \<longleftrightarrow> os_is_file d p"
  by (auto simp: os_read_file_def os_is_file_def split: sum.splits node.splits)

lemma payload_message_eq:
  assumes "file_exists_ok (ul_FileExists lib)"
  shows "payload_message lib m w = (Inr (payload_reference lib w m), w)"
proof (cases "m = ''list''")
  case True
  then show ?thesis
    by (simp add: payload_message_def payload_reference_def payload_list [OF assms])
next
  case False
  show ?thesis
  proof (cases "gm_get m (payloads (u_loot w))")
    case None
    with False show ?thesis
      by (simp add: payload_message_def payload_reference_def Payloads_Get_def Payloads_Has_def gm_has_def)
  next
    case (Some p)
    have ex: "payload_Exists (ul_FileExists lib) d p \<longleftrightarrow> (\<exists>s. os_read_file d (path_comps (p_file p)) = Inr s)" for d
      using assms by (simp add: read_is_file file_exists_ok_def payload_Exists_def)
    from Some False show ?thesis
      by (cases "os_read_file (g_disk (u_cfg w)) (path_comps (p_file p))")
        (auto simp: payload_message_def payload_reference_def Payloads_Get_def Payloads_Has_def gm_has_def
          payload_Read_def ex Let_def)
  qed
qed

lemma event_loop_pure:
  assumes "\<And>m. f m w = (Inr (g m), w)"
  shows "event_loop f (map (\<lambda>(t, m). Incoming t m None) ms) w = (map (\<lambda>(t, m). (t, g m)) ms, WsWaiting, w)"
  by (induction ms) (auto simp: assms)

text \<open>C13. Once the interface has started and listens, a whitelisted client that opens \<^verbatim>\<open>/payloads\<close> gets for
  every message the answer of the reference, in order: the list of captures, or the trimmed capture
  of a registered payload in base 64. A hash that is not registered gets nothing, even if a file of
  that name exists; and asking changes nothing.\<close>

theorem payload_socket_answers:
  assumes "ui_start lib w = (None, w1)" and "hs_open (last (u_httpds w1))"
    and "isIPWhitelisted (g_conf (u_cfg w1)) (ul_RealAddr lib rq)"
    and "rq_Path rq = ''/payloads''" and "rq_Upgrade rq"
    and "rq_In rq = map (\<lambda>(t, m). Incoming t m None) ms"
    and "file_exists_ok (ul_FileExists lib)"
  shows "ui_do lib (Request (length (u_httpds w)) rq) w1 =
    Some (Some (Answers (map (\<lambda>(t, m). (t, payload_reference lib w1 m)) ms) WsWaiting), None, w1)"
proof -
  obtain n pg where s: "u_httpds w1 = u_httpds w @ [last (u_httpds w1)]"
    and m: "hs_mux (last (u_httpds w1)) = ui_table n pg"
    using ui_start_served [OF assms(1)] by auto
  have "mux_handler (ui_table n pg) rq = MuxHandler (EventLoop PayloadMessages)"
    using mux_table [of "''/payloads''" rq n pg] assms(4) by simp
  then have "ui_handle lib (ui_table n pg) rq w1 =
      (Answers (map (\<lambda>(t, m). (t, payload_reference lib w1 m)) ms) WsWaiting, w1)"
    using assms(3,5,6) event_loop_pure [of "payload_message lib" w1 "payload_reference lib w1" ms]
    by (simp add: payload_message_eq [OF assms(7)] ui_handle_def Let_def ServeHTTP_def run_handler_def message_answer_def)
  moreover have "length (u_httpds w) < length (u_httpds w1)"
    and "u_httpds w1 ! length (u_httpds w) = last (u_httpds w1)"
    using s by (metis length_append_singleton lessI, metis nth_append_length)
  ultimately show ?thesis using assms(2) m by (simp add: ui_do_def)
qed

section \<open>Reloading\<close>

text \<open>A server that \<^verbatim>\<open>uis.server\<close> does not name.\<close>

definition orphan :: "nat \<Rightarrow> http_server \<Rightarrow> ui_world \<Rightarrow> bool" where
  "orphan i s w \<longleftrightarrow> i < length (u_httpds w) \<and> u_httpds w ! i = s \<and> ui_httpd (u_ui w) \<noteq> Some i"

lemma event_loop_keeps:
  assumes keeps: "\<And>m w r w'. f m w = (r, w') \<Longrightarrow> P w \<Longrightarrow> P w'"
  shows "event_loop f is w = (outs, fin, w') \<Longrightarrow> P w \<Longrightarrow> P w'"
proof (induction "is" arbitrary: w outs)
  case (Cons x "is")
  show ?case
  proof (cases x)
    case (Incoming t m werr)
    obtain r w1 where f: "f m w = (r, w1)" by (meson surj_pair)
    from keeps [OF f Cons.prems(2)] have "P w1" .
    with Cons f Incoming show ?thesis
      by (cases r; cases werr) (auto split: prod.splits)
  qed (use Cons.prems in simp)
qed simp

lemma orphan_cfg [simp]: "orphan i s (w\<lparr>u_cfg := g\<rparr>) = orphan i s w"
  by (simp add: orphan_def)

lemma ui_reload_orphan: "ui_reload w = (p, w') \<Longrightarrow> orphan i s w \<Longrightarrow> orphan i s w'"
  by (auto simp: ui_reload_def ui_shutdown_def orphan_def split: option.splits)

lemma config_message_orphan:
  assumes "config_message lib m w = (r, w')" and "orphan i s w"
  shows "orphan i s w'"
proof -
  obtain q g where u: "updateConfig (ul_cfg lib) (ul_node_keys lib) m (u_cfg w) = (q, g)"
    by (meson surj_pair)
  obtain p w1 where "ui_reload (w\<lparr>u_cfg := g\<rparr>) = (p, w1)" by (meson surj_pair)
  with assms u show ?thesis
    using ui_reload_orphan [of "w\<lparr>u_cfg := g\<rparr>" p w1 i s]
    by (auto simp: config_message_def split: sum.splits option.splits)
qed

lemma message_answer_orphan:
  assumes "message_answer lib mh m w = (r, w')" and "orphan i s w"
  shows "orphan i s w'"
  using assms config_message_orphan [of lib m w r w' i s]
  by (cases mh) (auto simp: message_answer_def payload_message_def Let_def)

lemma run_handler_orphan:
  assumes "run_handler lib h rq w = (r, w')" and "orphan i s w"
  shows "orphan i s w'"
proof (cases h)
  case (Subscription a)
  have "orphan i s (subscribe a w)"
    using assms(2) by (auto simp: subscribe_def orphan_def split: option.splits sum.splits)
  with assms Subscription show ?thesis by (auto simp: run_handler_def split: if_splits)
next
  case (EventLoop mh)
  with assms event_loop_keeps [of "message_answer lib mh" "orphan i s", OF message_answer_orphan]
  show ?thesis by (auto simp: run_handler_def split: if_splits prod.splits)
next
  case (HTMLPage t d)
  with assms show ?thesis by (simp add: run_handler_def)
qed

lemma ui_start_orphan:
  assumes "ui_start lib w = (p, w')" and "orphan i s w"
  shows "orphan i s w'"
proof -
  obtain q d where c: "ensure_cert lib (ui_ready w) (g_disk (u_cfg w)) = (q, d)" by (meson surj_pair)
  have "ui_httpd (ui_ready w) = ui_httpd (u_ui w)" by (simp add: ui_ready_def Let_def)
  with assms c show ?thesis
    by (cases q) (auto simp: ui_start_def ui_init_eq Let_def orphan_def nth_append)
qed

lemma ui_handle_orphan:
  assumes "ui_handle lib m rq w = (r, w')" and "orphan i s w"
  shows "orphan i s w'"
proof (cases "w' = w")
  case False
  with assms(1) obtain h where "run_handler lib h rq w = (r, w')"
    by (cases "mux_handler m rq") (auto simp: ui_handle_def ServeHTTP_def Let_def split: if_splits)
  then show ?thesis using assms(2) by (rule run_handler_orphan)
qed (use assms in simp)

lemma ui_do_orphan:
  assumes "ui_do lib ev w = Some (r, p, w')" and "orphan i s w"
  shows "orphan i s w'"
proof (cases ev)
  case (Request j rq)
  with assms(1) obtain r1 where "ui_handle lib (hs_mux (u_httpds w ! j)) rq w = (r1, w')"
    by (auto simp: ui_do_def split: if_splits prod.splits)
  then show ?thesis using assms(2) by (rule ui_handle_orphan)
next
  case StartGoroutine
  with assms(1) have "ui_start lib (w\<lparr>u_starting := u_starting w - 1\<rparr>) = (p, w')"
    by (auto simp: ui_do_def split: if_splits prod.splits)
  then show ?thesis by (rule ui_start_orphan) (use assms(2) in \<open>auto simp: orphan_def\<close>)
qed

lemma ui_run_orphan: "ui_run lib w es w' \<Longrightarrow> orphan i s w \<Longrightarrow> orphan i s w'"
  by (induction rule: ui_run.induct) (auto dest: ui_do_orphan)

text \<open>The effect of one successful start, and of one applied update.\<close>

definition ui_addr :: "ui_world \<Rightarrow> string" where
  "ui_addr w = host_port (c_WebHost (g_conf (u_cfg w))) (sint (c_WebPort (g_conf (u_cfg w))))"

definition has_cert :: "'y ui_lib \<Rightarrow> cfg_state \<Rightarrow> bool" where
  "has_cert lib g \<longleftrightarrow> ul_FileExists lib (g_disk g) (c_WebCertFile (g_conf g)) \<and>
     ul_FileExists lib (g_disk g) (c_WebKeyFile (g_conf g))"

definition started :: "'y ui_lib \<Rightarrow> ui_world \<Rightarrow> ui_world" where
  "started lib w = w\<lparr>u_starting := u_starting w - 1, u_hubs := u_hubs w @ [NewHub, NewHub],
     u_ui := (ui_ready w)\<lparr>ui_httpd := Some (length (u_httpds w))\<rparr>,
     u_httpds := u_httpds w @ [\<lparr>hs_Addr = ui_addr w,
       hs_mux = ui_table (length (u_hubs w)) (index_page (ui_ready w) (u_cfg w)),
       hs_open = can_listen lib (ui_addr w) (u_httpds w)\<rparr>]\<rparr>"

lemma ui_ready_sel [simp]:
  "ui_Handlers (ui_ready w) = Some (ui_table (length (u_hubs w)) (index_page (ui_ready w) (u_cfg w)))"
  "ui_Host (ui_ready w) = c_WebHost (g_conf (u_cfg w))"
  "ui_Port (ui_ready w) = sint (c_WebPort (g_conf (u_cfg w)))"
  "ui_CertFile (ui_ready w) = c_WebCertFile (g_conf (u_cfg w))"
  "ui_KeyFile (ui_ready w) = c_WebKeyFile (g_conf (u_cfg w))"
  by (simp_all add: ui_ready_def Let_def index_page_def)

lemma StartGoroutine_eq:
  assumes "u_starting w \<noteq> 0" and "has_cert lib (u_cfg w)"
  shows "ui_do lib StartGoroutine w = Some (None, None, started lib w)"
proof -
  have r: "ui_ready (w\<lparr>u_starting := n\<rparr>) = ui_ready w" for n by (simp add: ui_ready_def)
  show ?thesis
    using assms by (simp add: ui_do_def ui_start_def ui_init_eq Let_def ensure_cert_def has_cert_def r
        started_def ui_addr_def)
qed

definition reloaded :: "cfg_state \<Rightarrow> nat \<Rightarrow> ui_world \<Rightarrow> ui_world" where
  "reloaded g i w = w\<lparr>u_cfg := g, u_httpds := (u_httpds w)[i := (u_httpds w ! i)\<lparr>hs_open := False\<rparr>],
     u_ui := (u_ui w)\<lparr>ui_Handlers := None\<rparr>, u_starting := Suc (u_starting w)\<rparr>"

lemma config_message_applied:
  assumes "updateConfig (ul_cfg lib) (ul_node_keys lib) b (u_cfg w) = (Inr None, g)"
    and "ui_httpd (u_ui w) = Some i"
  shows "config_message lib b w = (Inr [], reloaded g i w)"
  using assms by (simp add: config_message_def ui_reload_def ui_shutdown_def reloaded_def)

text \<open>The server \<open>i\<close> is the one of the interface and the only open one, and serves the table of \<open>init\<close>.\<close>

definition serving :: "nat \<Rightarrow> ui_world \<Rightarrow> bool" where
  "serving i w \<longleftrightarrow> i < length (u_httpds w) \<and> ui_httpd (u_ui w) = Some i \<and> u_starting w = 0 \<and>
     (\<forall>j < length (u_httpds w). hs_open (u_httpds w ! j) \<longleftrightarrow> j = i) \<and>
     (\<exists>n pg. hs_mux (u_httpds w ! i) = ui_table n pg)"

lemma config_request:
  assumes "serving i w" and "isIPWhitelisted (g_conf (u_cfg w)) (ul_RealAddr lib rq)"
    and "rq_Path rq = ''/config''" and "rq_Upgrade rq"
  shows "ui_do lib (Request i rq) w =
    (case event_loop (config_message lib) (rq_In rq) w of
       (outs, fin, w1) \<Rightarrow> Some (Some (Answers outs fin), None, w1))"
proof -
  obtain n pg where m: "hs_mux (u_httpds w ! i) = ui_table n pg" using assms(1) by (auto simp: serving_def)
  have "mux_handler (ui_table n pg) rq = MuxHandler (EventLoop ConfigMessages)"
    using mux_table [of "''/config''" rq n pg] assms(3) by simp
  with assms m show ?thesis
    by (simp add: ui_do_def serving_def ui_handle_def ServeHTTP_def run_handler_def message_answer_def
        Let_def split: prod.split)
qed

lemma reloaded_none_open:
  assumes "serving i w" and "j < length (u_httpds w)"
  shows "\<not> hs_open (u_httpds (reloaded g i w) ! j)"
  using assms by (auto simp: serving_def reloaded_def nth_list_update)

lemma none_open_listen:
  assumes "\<forall>j < length srvs. \<not> hs_open (srvs ! j)" and "ul_listen lib addr"
  shows "can_listen lib addr srvs"
  using assms by (auto simp: can_listen_def in_set_conv_nth)

lemma u_cfg_reloaded [simp]: "u_cfg (reloaded g i w) = g" "length (u_httpds (reloaded g i w)) = length (u_httpds w)"
  by (simp_all add: reloaded_def)

lemma u_cfg_started [simp]: "u_cfg (started lib w) = u_cfg w" "u_starting (started lib w) = u_starting w - 1"
  "u_loot (started lib w) = u_loot w"
  by (simp_all add: started_def)

lemma started_serving:
  assumes "\<forall>j < length (u_httpds w). \<not> hs_open (u_httpds w ! j)" and "ul_listen lib (ui_addr w)"
    and "u_starting w \<le> 1"
  shows "serving (length (u_httpds w)) (started lib w)"
  using assms none_open_listen [OF assms(1,2)]
  by (auto simp: serving_def started_def nth_append less_Suc_eq)

lemma index_request:
  assumes "serving i w" and "hs_mux (u_httpds w ! i) = ui_table n pg" and "rq_Path rq = ''/''"
    and "isIPWhitelisted (g_conf (u_cfg w)) (ul_RealAddr lib rq)"
  shows "ui_do lib (Request i rq) w = Some (Some (html_reply lib ''index'' pg w), None, w)"
proof -
  have "mux_handler (ui_table n pg) rq = MuxHandler (HTMLPage ''index'' pg)"
    using mux_table [of "''/''" rq n pg] assms(3) by simp
  with assms show ?thesis
    by (simp add: ui_do_def serving_def ui_handle_def ServeHTTP_def run_handler_def Let_def)
qed

text \<open>C10. A whitelisted client that sends a new configuration over \<^verbatim>\<open>/config\<close>, which is applied, gets an
  empty answer, and from then on no request is accepted until the start goroutine wakes up. Then,
  provided the certificate files exist and the new address can be listened on, the interface serves again, at the address the new configuration names, for the whitelist it has, and
  its index page carries the new configuration's host name and the text of the configuration file.\<close>

theorem config_socket_reloads:
  assumes "serving i w" and "isIPWhitelisted (g_conf (u_cfg w)) (ul_RealAddr lib rq)"
    and "rq_Path rq = ''/config''" and "rq_Upgrade rq" and "rq_In rq = [Incoming t b None]"
    and "updateConfig (ul_cfg lib) (ul_node_keys lib) b (u_cfg w) = (Inr None, g)"
    and "has_cert lib g" and "ul_listen lib (host_port (c_WebHost (g_conf g)) (sint (c_WebPort (g_conf g))))"
  shows "\<exists>w1 w2 page. ui_do lib (Request i rq) w = Some (Some (Answers [(t, [])] WsWaiting), None, w1) \<and>
    (\<forall>j rq'. ui_do lib (Request j rq') w1 = None) \<and>
    ui_do lib StartGoroutine w1 = Some (None, None, w2) \<and> u_cfg w2 = g \<and>
    serving (length (u_httpds w)) w2 \<and>
    hs_Addr (u_httpds w2 ! length (u_httpds w)) =
      host_port (c_WebHost (g_conf g)) (sint (c_WebPort (g_conf g))) \<and>
    ix_HostName page = c_HostName (g_conf g) \<and> ix_Config page = getConfig (g_cfgFile g) (g_disk g) \<and>
    (\<forall>rq'. rq_Path rq' = ''/'' \<longrightarrow> isIPWhitelisted (g_conf g) (ul_RealAddr lib rq') \<longrightarrow>
      ui_do lib (Request (length (u_httpds w)) rq') w2 = Some (Some (html_reply lib ''index'' page w2), None, w2))"
proof -
  let ?w1 = "reloaded g i w" and ?n = "length (u_httpds w)"
  let ?w2 = "started lib ?w1"
  let ?page = "index_page (ui_ready ?w1) g"
  have i: "ui_httpd (u_ui w) = Some i" and s0: "u_starting w = 0" using assms(1) by (auto simp: serving_def)
  note none = reloaded_none_open [OF assms(1)]
  have addr: "ui_addr ?w1 = host_port (c_WebHost (g_conf g)) (sint (c_WebPort (g_conf g)))"
    by (simp add: ui_addr_def)
  have serv: "serving ?n ?w2"
    using started_serving [of ?w1 lib] none assms(8) s0 by (simp add: addr) (simp add: reloaded_def)
  have srv: "u_httpds ?w2 ! ?n = \<lparr>hs_Addr = ui_addr ?w1, hs_mux = ui_table (length (u_hubs ?w1)) ?page,
      hs_open = can_listen lib (ui_addr ?w1) (u_httpds ?w1)\<rparr>"
    by (simp add: started_def nth_append)
  have 1: "ui_do lib (Request i rq) w = Some (Some (Answers [(t, [])] WsWaiting), None, ?w1)"
    using config_request [OF assms(1-4)] config_message_applied [OF assms(6) i] assms(5) by simp
  have 2: "ui_do lib (Request j rq') ?w1 = None" for j rq'
    using none [of j g] by (auto simp: ui_do_def)
  have 3: "ui_do lib StartGoroutine ?w1 = Some (None, None, ?w2)"
    using assms(7) by (intro StartGoroutine_eq) (simp_all add: reloaded_def)
  have 4: "ui_do lib (Request ?n rq') ?w2 = Some (Some (html_reply lib ''index'' ?page ?w2), None, ?w2)"
    if "rq_Path rq' = ''/''" "isIPWhitelisted (g_conf g) (ul_RealAddr lib rq')" for rq'
    using index_request [OF serv, of _ ?page rq' lib] that by (simp add: srv)
  have "ix_HostName ?page = c_HostName (g_conf g)" "ix_Config ?page = getConfig (g_cfgFile g) (g_disk g)"
    by (simp_all add: index_page_def)
  then show ?thesis
    using 1 2 3 4 serv srv addr by (intro exI [of _ ?w1] exI [of _ ?w2] exI [of _ ?page]) simp
qed

text \<open>C38. Two configurations sent one after the other over the same connection, both applied before the
  interface has started again, leave two start goroutines. The first one's server gets the address,
  the second one's server becomes the one the interface would stop, without ever listening: from then
  on, whatever happens, the first server stays open with its old handlers.\<close>

theorem second_reload_orphans:
  assumes "serving i w" and "isIPWhitelisted (g_conf (u_cfg w)) (ul_RealAddr lib rq)"
    and "rq_Path rq = ''/config''" and "rq_Upgrade rq"
    and "rq_In rq = [Incoming t b None, Incoming t' b' None]"
    and "updateConfig (ul_cfg lib) (ul_node_keys lib) b (u_cfg w) = (Inr None, g)"
    and "updateConfig (ul_cfg lib) (ul_node_keys lib) b' g = (Inr None, g')"
    and "has_cert lib g'" and "ul_listen lib (host_port (c_WebHost (g_conf g')) (sint (c_WebPort (g_conf g'))))"
  shows "\<exists>w1 w2 w3 n. ui_do lib (Request i rq) w =
      Some (Some (Answers [(t, []), (t', [])] WsWaiting), None, w1) \<and>
    ui_do lib StartGoroutine w1 = Some (None, None, w2) \<and>
    ui_do lib StartGoroutine w2 = Some (None, None, w3) \<and>
    \<not> hs_open (u_httpds w3 ! the (ui_httpd (u_ui w3))) \<and>
    (\<forall>es w4. ui_run lib w3 es w4 \<longrightarrow>
      hs_open (u_httpds w4 ! n) \<and> u_httpds w4 ! n = u_httpds w3 ! n \<and> ui_httpd (u_ui w4) \<noteq> Some n)"
proof -
  let ?w1 = "reloaded g' i (reloaded g i w)" and ?n = "length (u_httpds w)"
  let ?w2 = "started lib ?w1" let ?w3 = "started lib ?w2"
  have i: "ui_httpd (u_ui w) = Some i" "ui_httpd (u_ui (reloaded g i w)) = Some i" and s0: "u_starting w = 0"
    using assms(1) by (auto simp: serving_def reloaded_def)
  have addr: "ui_addr ?w1 = host_port (c_WebHost (g_conf g')) (sint (c_WebPort (g_conf g')))"
    "ui_addr ?w2 = ui_addr ?w1" by (simp_all add: ui_addr_def)
  have "\<not> hs_open (u_httpds ?w1 ! j)" if "j < ?n" for j
    using reloaded_none_open [OF assms(1) that, of g] assms(1) that
    by (auto simp: serving_def reloaded_def nth_list_update)
  then have open1: "can_listen lib (ui_addr ?w1) (u_httpds ?w1)"
    using assms(9) by (intro none_open_listen) (auto simp: addr)
  define s where "s = u_httpds ?w2 ! ?n"
  have s: "hs_open s" "hs_Addr s = ui_addr ?w1" and in2: "?n < length (u_httpds ?w2)"
    using open1 by (simp_all add: s_def started_def nth_append)
  then have "\<not> can_listen lib (ui_addr ?w2) (u_httpds ?w2)"
    unfolding can_listen_def s_def addr(2) by (metis nth_mem)
  then have last: "\<not> hs_open (u_httpds ?w3 ! the (ui_httpd (u_ui ?w3)))"
    by (simp add: started_def [of lib ?w2])
  have orph: "orphan ?n s ?w3"
    using in2 by (simp add: orphan_def started_def [of lib ?w2] nth_append s_def)
  have 1: "ui_do lib (Request i rq) w = Some (Some (Answers [(t, []), (t', [])] WsWaiting), None, ?w1)"
    using config_request [OF assms(1-4)] config_message_applied [OF assms(6) i(1)]
      config_message_applied [of lib b' "reloaded g i w" g' i] i(2) assms(5,7) by simp
  have 2: "ui_do lib StartGoroutine ?w1 = Some (None, None, ?w2)"
    using assms(8) by (intro StartGoroutine_eq) (simp_all add: reloaded_def)
  have 3: "ui_do lib StartGoroutine ?w2 = Some (None, None, ?w3)"
    using assms(8) by (intro StartGoroutine_eq) (simp_all add: reloaded_def started_def [of lib ?w1])
  have "\<forall>es w4. ui_run lib ?w3 es w4 \<longrightarrow> orphan ?n s w4" using ui_run_orphan orph by blast
  with 1 2 3 s(1) last orph show ?thesis
    by (intro exI [of _ ?w1] exI [of _ ?w2] exI [of _ ?w3] exI [of _ ?n]) (auto simp: orphan_def)
qed

section \<open>Examples\<close>

definition sample_ui_lib :: "conf ui_lib" where
  "sample_ui_lib =
     \<lparr>ul_cfg = sample_config_lib, ul_RealAddr = rq_RemoteAddr, ul_FileExists = sample_file_exists,
      ul_FileModTime = (\<lambda>d p. Inr 5), ul_EncodeBase64 = b64_encode,
      ul_GenerateCert = (\<lambda>key cert d. (None, d)),
      ul_html = \<lparr>en_string = (\<lambda>t pg. Inr (t, None)), en_files = (\<lambda>fs name pg. Inr (name, None))\<rparr>,
      ul_listen = (\<lambda>addr. True), ul_payload_keys = gm_keys, ul_node_keys = (\<lambda>sn. gm_keys (n_clients sn)),
      ul_hub_keys = (\<lambda>h. gm_keys (hb_clients h))\<rparr>"

definition sample_ui_world :: ui_world where
  "sample_ui_world =
     \<lparr>u_ui = the (NewUIServer sample_conf), u_hubs = [], u_httpds = [], u_starting = 1,
      u_cfg = sample_cfg\<lparr>g_disk :=
        [([''config.yaml''], FileN ''ok''), ([''etc''], DirN), ([''etc'', ''ossh''], DirN),
         ([''etc'', ''ossh'', ''ossh.crt''], FileN ''crt''), ([''etc'', ''ossh'', ''ossh.key''], FileN ''key'')]\<rparr>,
      u_loot = NewLoot\<lparr>payloads := [(''ab'', \<lparr>p_hash = ''ab'', p_file = ''/config.yaml'', p_payload = []\<rparr>)]\<rparr>\<rparr>"

definition sample_request :: "string \<Rightarrow> string \<Rightarrow> ws_in list \<Rightarrow> http_request" where
  "sample_request addr path msgs =
     \<lparr>rq_RemoteAddr = addr, rq_Header = [], rq_Connect = False, rq_Path = path, rq_Upgrade = True,
      rq_In = msgs\<rparr>"

lemma sample_ui_cert: "has_cert sample_ui_lib (u_cfg sample_ui_world)"
  unfolding sample_ui_lib_def sample_ui_world_def sample_cfg_def sample_conf_def has_cert_def
    sample_config_lib_def by code_simp

lemma sample_ui_serving: "serving 0 (started sample_ui_lib sample_ui_world)"
  using started_serving [of sample_ui_world sample_ui_lib]
  by (simp add: sample_ui_world_def sample_ui_lib_def)

lemma sample_ui_white:
  "isIPWhitelisted (g_conf (u_cfg sample_ui_world)) ''127.0.0.1''"
  by (simp add: sample_ui_world_def sample_cfg_def isIPWhitelisted_iff)

lemma sample_request_sel [simp]:
  "ul_RealAddr sample_ui_lib (sample_request a p ms) = a" "rq_Path (sample_request a p ms) = p"
  "rq_Upgrade (sample_request a p ms)" "rq_In (sample_request a p ms) = ms"
  by (simp_all add: sample_ui_lib_def sample_request_def)

lemma sample_ui_listen [simp]:
  "ul_listen sample_ui_lib addr" "ul_FileExists sample_ui_lib = sample_file_exists"
  by (simp_all add: sample_ui_lib_def)

lemma sample_ui_servers [simp]: "length (u_httpds (started sample_ui_lib sample_ui_world)) = 1"
  by (simp add: started_def sample_ui_world_def)

text \<open>An update with the sample text changes neither the configuration nor the certificate files.\<close>

lemma sample_ui_update:
  assumes "u_cfg w = u_cfg sample_ui_world \<or> u_cfg w = snd (updateConfig (ul_cfg sample_ui_lib)
      (ul_node_keys sample_ui_lib) ''ok'' (u_cfg sample_ui_world))"
  shows "\<exists>g. updateConfig (ul_cfg sample_ui_lib) (ul_node_keys sample_ui_lib) ''ok'' (u_cfg w) = (Inr None, g) \<and>
    has_cert sample_ui_lib g"
proof -
  let ?up = "updateConfig (ul_cfg sample_ui_lib) (ul_node_keys sample_ui_lib) ''ok''"
  have "case ?up (u_cfg sample_ui_world) of (r, g) \<Rightarrow> r = Inr None \<and> has_cert sample_ui_lib g \<and>
      (case ?up g of (r', g') \<Rightarrow> r' = Inr None \<and> has_cert sample_ui_lib g')"
    unfolding sample_ui_lib_def sample_ui_world_def sample_cfg_def sample_conf_def has_cert_def
      sample_config_lib_def by code_simp
  then show ?thesis using assms by (auto split: prod.splits)
qed

theorem strangers_change_nothing_witness:
  "\<exists>w. ui_run sample_ui_lib (started sample_ui_lib sample_ui_world)
      [(Request 0 (sample_request ''6.6.6.6'' ''/config'' [Incoming 1 ''ok'' None]),
        Some (Redirect 307 ''https://6.6.6.6/config''))] w \<and> w = started sample_ui_lib sample_ui_world"
proof -
  let ?w = "started sample_ui_lib sample_ui_world"
  let ?rq = "sample_request ''6.6.6.6'' ''/config'' [Incoming 1 ''ok'' None]"
  have c: "g_conf (u_cfg sample_ui_world) = sample_conf" by (simp add: sample_ui_world_def sample_cfg_def)
  have n: "\<not> isIPWhitelisted (g_conf (u_cfg ?w)) (ul_RealAddr sample_ui_lib ?rq)"
    by (simp add: c isIPWhitelisted_iff)
  have r: "stranger_reply sample_ui_lib sample_conf ?rq = Redirect 307 ''https://6.6.6.6/config''"
    by (simp add: stranger_reply_def sample_conf_def)
  have "0 < length (u_httpds ?w) \<and> hs_open (u_httpds ?w ! 0)"
    using sample_ui_serving by (auto simp: serving_def)
  then have "ui_do sample_ui_lib (Request 0 ?rq) ?w =
      Some (Some (Redirect 307 ''https://6.6.6.6/config''), None, ?w)"
    using ui_handle_stranger [OF n] r by (simp add: ui_do_def c)
  from ui_run.ui_step [OF ui_run.ui_begin this]
  obtain w where run: "ui_run sample_ui_lib ?w [(Request 0 ?rq, Some (Redirect 307 ''https://6.6.6.6/config''))] w"
    by auto
  have "w = ?w" using strangers_change_nothing [OF run] n by auto
  with run show ?thesis by blast
qed

theorem payload_socket_answers_witness:
  "\<exists>w1. ui_start sample_ui_lib (sample_ui_world\<lparr>u_starting := 0\<rparr>) = (None, w1) \<and>
    ui_do sample_ui_lib (Request 0 (sample_request ''127.0.0.1'' ''/payloads''
      [Incoming 1 ''ab'' None, Incoming 1 ''config.yaml'' None])) w1 =
    Some (Some (Answers [(1, b64_encode ''ok''), (1, [])] WsWaiting), None, w1)"
proof -
  let ?w1 = "started sample_ui_lib sample_ui_world"
  let ?rq = "sample_request ''127.0.0.1'' ''/payloads'' [Incoming 1 ''ab'' None, Incoming 1 ''config.yaml'' None]"
  have "ui_do sample_ui_lib StartGoroutine sample_ui_world = Some (None, None, ?w1)"
    using sample_ui_cert by (intro StartGoroutine_eq) (simp_all add: sample_ui_world_def)
  then have st: "ui_start sample_ui_lib (sample_ui_world\<lparr>u_starting := 0\<rparr>) = (None, ?w1)"
    by (simp add: ui_do_def sample_ui_world_def split: prod.splits)
  have httpds: "u_httpds sample_ui_world = []" by (simp add: sample_ui_world_def)
  then have op: "hs_open (last (u_httpds ?w1))"
    using sample_ui_serving by (simp add: serving_def started_def)
  have "payload_reference sample_ui_lib sample_ui_world ''ab'' = b64_encode ''ok''"
    and "payload_reference sample_ui_lib sample_ui_world ''config.yaml'' = []"
    unfolding sample_ui_lib_def sample_ui_world_def sample_cfg_def sample_conf_def by code_simp+
  moreover have "payload_reference sample_ui_lib ?w1 m = payload_reference sample_ui_lib sample_ui_world m" for m
    unfolding payload_reference_def u_cfg_started ..
  ultimately show ?thesis
    using payload_socket_answers [OF st op, of ?rq "[(1, ''ab''), (1, ''config.yaml'')]"] st httpds
      sample_ui_white sample_file_exists_ok by simp
qed

theorem config_socket_reloads_witness:
  "\<exists>w1 w2. ui_do sample_ui_lib (Request 0 (sample_request ''127.0.0.1'' ''/config'' [Incoming 1 ''ok'' None]))
      (started sample_ui_lib sample_ui_world) = Some (Some (Answers [(1, [])] WsWaiting), None, w1) \<and>
    ui_do sample_ui_lib StartGoroutine w1 = Some (None, None, w2) \<and> serving 1 w2"
proof -
  let ?w = "started sample_ui_lib sample_ui_world"
  obtain g where g: "updateConfig (ul_cfg sample_ui_lib) (ul_node_keys sample_ui_lib) ''ok'' (u_cfg ?w) = (Inr None, g)"
    "has_cert sample_ui_lib g"
    using sample_ui_update [of ?w] by auto
  have "isIPWhitelisted (g_conf (u_cfg ?w)) ''127.0.0.1''" using sample_ui_white by simp
  then show ?thesis
    using config_socket_reloads [OF sample_ui_serving _ _ _ _ g,
        of "sample_request ''127.0.0.1'' ''/config'' [Incoming 1 ''ok'' None]" 1, unfolded sample_ui_servers]
    by (simp only: sample_request_sel sample_ui_listen simp_thms) blast
qed

theorem second_reload_orphans_witness:
  "\<exists>w1 w2 w3. ui_do sample_ui_lib (Request 0 (sample_request ''127.0.0.1'' ''/config''
      [Incoming 1 ''ok'' None, Incoming 1 ''ok'' None])) (started sample_ui_lib sample_ui_world) =
        Some (Some (Answers [(1, []), (1, [])] WsWaiting), None, w1) \<and>
    ui_do sample_ui_lib StartGoroutine w1 = Some (None, None, w2) \<and>
    ui_do sample_ui_lib StartGoroutine w2 = Some (None, None, w3) \<and>
    \<not> hs_open (u_httpds w3 ! the (ui_httpd (u_ui w3)))"
proof -
  let ?w = "started sample_ui_lib sample_ui_world"
  obtain g where g: "updateConfig (ul_cfg sample_ui_lib) (ul_node_keys sample_ui_lib) ''ok'' (u_cfg ?w) = (Inr None, g)"
    using sample_ui_update [of ?w] by auto
  obtain g' where g': "updateConfig (ul_cfg sample_ui_lib) (ul_node_keys sample_ui_lib) ''ok'' g = (Inr None, g')"
    "has_cert sample_ui_lib g'"
    using sample_ui_update [of "?w\<lparr>u_cfg := g\<rparr>"] g by auto
  have "isIPWhitelisted (g_conf (u_cfg ?w)) ''127.0.0.1''" using sample_ui_white by simp
  then show ?thesis
    using second_reload_orphans [OF sample_ui_serving _ _ _ _ g g',
        of "sample_request ''127.0.0.1'' ''/config'' [Incoming 1 ''ok'' None, Incoming 1 ''ok'' None]" 1 1]
    by (simp only: sample_request_sel sample_ui_listen simp_thms) blast
qed

end
