(* ===== verification/Sync_Cluster.thy ===== *)
theory Sync_Cluster
  imports Sync_Server
begin

text \<open>
  The synchronisation worker of \<^verbatim>\<open>sync_server.go\<close>, and what it achieves between two nodes: the
  client code of \<^verbatim>\<open>sync_client.go\<close> runs against a network whose peer is the protocol of
  \<^verbatim>\<open>sync_server.go\<close> with the commands of \<^verbatim>\<open>sync_commands.go\<close>, all as modelled in the
  other theories.
\<close>

section \<open>The worker\<close>

definition sync_section ::
  "gutils \<Rightarrow> orders \<Rightarrow> 'w net \<Rightarrow> conf \<Rightarrow> ossh \<Rightarrow> string \<Rightarrow> sync_client \<times> 'w \<Rightarrow> sync_client \<times> 'w" where
  "sync_section g ord n c o1 sect s =
     (if sect = ''hosts'' then SyncData g n ''HOSTS'' (GetHosts ord (o_loot o1)) (sc_AddHosts g n) s
      else if sect = ''users'' then SyncData g n ''USERS'' (GetUsers ord (o_loot o1)) (sc_AddUsers g n) s
      else if sect = ''passwords''
        then SyncData g n ''PASSWORDS'' (GetPasswords ord (o_loot o1)) (sc_AddPasswords g n) s
      else if sect = ''payloads''
        then SyncData g n ''PAYLOADS'' (o_GetPayloads g ord c o1)
               (sc_AddPayload g n (o_loot o1) (o_disk o1)) s
      else s)"

text \<open>One peer that reported differences; \<open>split\<close> is \<^verbatim>\<open>gutils.SplitHostPort\<close>.\<close>

definition sync_peer ::
  "gutils \<Rightarrow> orders \<Rightarrow> (string \<Rightarrow> string \<times> int) \<Rightarrow> 'w net \<Rightarrow> conf \<Rightarrow> ossh \<Rightarrow> string \<times> string \<Rightarrow>
   sync_nodes \<times> 'w \<Rightarrow> sync_nodes \<times> 'w" where
  "sync_peer g ord split n c o1 = (\<lambda>(k, v0) (sn, w).
     (let v = TrimSpace v0
      in if v = [] then (sn, w)
         else case split k of (host, port) \<Rightarrow>
                (case SS_GetClient host port sn of
                   Inl e \<Rightarrow> (sn, w)
                 | Inr sc \<Rightarrow>
                     (case fold (sync_section g ord n c o1) (Split (CHR '','') v) (sc, w) of
                        (sc', w') \<Rightarrow>
                          (sn\<lparr>n_clients := gm_put (host_port host port) sc' (n_clients sn)\<rparr>, w')))))"

text \<open>One round: \<open>ks\<close> is the order in which the clients are visited, \<open>ord2\<close> the order of the answers.\<close>

definition SyncWorker ::
  "gutils \<Rightarrow> orders \<Rightarrow> (string \<Rightarrow> string \<times> int) \<Rightarrow> 'w net \<Rightarrow> conf \<Rightarrow> string list \<Rightarrow>
   ((string, string) gomap \<Rightarrow> string list) \<Rightarrow> ossh \<Rightarrow> sync_nodes \<times> 'w \<Rightarrow> sync_nodes \<times> 'w" where
  "SyncWorker g ord split n c ks ord2 o1 s =
     (let fp = TrimSpace (o_Fingerprint g ord c o1)
      in case GetOutOfSyncNodes g n fp ks s of
           (res, s') \<Rightarrow>
             fold (sync_peer g ord split n c o1)
               (map (\<lambda>k. (k, case gm_get k res of None \<Rightarrow> [] | Some v \<Rightarrow> v)) (ord2 res)) s')"

section \<open>A network with one peer\<close>

text \<open>The peer \<open>st\<close>, with its own configuration, map orders and garbage, serves each connection from \<open>host\<close>
  as \<^term>\<open>ConnectionHandler\<close> does: it admits the host or not, and what it reads of the line is what its
  scanner yields.\<close>

definition peer_net :: "gutils \<Rightarrow> orders \<Rightarrow> conf \<Rightarrow> string \<Rightarrow> string \<Rightarrow> node_st net" where
  "peer_net g ord c host garbage =
     \<lparr>net_dial = (\<lambda>i st. None),
      net_send = (\<lambda>i line st.
        if \<not> IsAllowedHost host (y_nodes st) then (Inr (ssc_write g garbage), st)
        else case handleConnection g (\<lambda>cmd. Run g ord c cmd host) (scan_lines [line]) st of
               (e, out, st') \<Rightarrow> (Inr out, st')),
      net_bye = (\<lambda>i line st. st)\<rparr>"

text \<open>The line of a command fits into the buffer of the peer's scanner.\<close>

definition line_fits :: "gutils \<Rightarrow> string \<Rightarrow> bool" where
  "line_fits g cmd \<longleftrightarrow> length (sc_line g cmd) < MaxScanTokenSize"

lemma line_fits_trim: "line_fits g (TrimSpace cmd) = line_fits g cmd"
  by (simp add: line_fits_def sc_line_def)

lemma scan_line:
  assumes "codec_ok g"
  shows "scan_lines [sc_line g cmd] = (if line_fits g cmd then [sc_line g cmd] else [])"
proof -
  have "dropCR (sc_line g cmd) = sc_line g cmd"
  proof (cases "sc_line g cmd = []")
    case False
    have "TrimSpace (sc_line g cmd) = sc_line g cmd"
      using assms by (simp add: codec_ok_def sc_line_def)
    from TrimSpace_ends(2) [OF this False] have "last (sc_line g cmd) \<noteq> CHR 0x0D"
      using False by (cases "sc_line g cmd" rule: rev_cases) (auto simp: space_runes_def split: if_splits)
    then show ?thesis by (simp add: dropCR_def)
  qed (simp add: dropCR_def)
  then show ?thesis by (simp add: scan_lines_def line_fits_def)
qed

text \<open>What a peer that admits the host does with a command: it runs it, or, when the line is too long,
  it never sees it and closes the connection, which the client takes for an empty answer.\<close>

definition run_line :: "gutils \<Rightarrow> orders \<Rightarrow> conf \<Rightarrow> string \<Rightarrow> string \<Rightarrow> node_st \<Rightarrow> (string + string) \<times> node_st" where
  "run_line g ord c host cmd st =
     Run g ord c (hd (Split (CHR '' '') cmd)) host (tl (Split (CHR '' '') cmd)) st"

lemma Exec_peer:
  assumes "codec_ok g" and "TrimSpace cmd = cmd" and "cmd \<noteq> []" and "cmd \<noteq> ''exit''"
    and "IsAllowedHost host (y_nodes st)" and "line_fits g cmd"
  shows "sc_Exec g (peer_net g ord c host garbage) cmd (sc, st) =
    (Inr (case fst (run_line g ord c host cmd st) of Inl e \<Rightarrow> [] | Inr res \<Rightarrow> TrimSpace res),
     sc\<lparr>sc_connected := True\<rparr>, snd (run_line g ord c host cmd st))"
proof -
  have c: "gu_DecodeGzBase64String g (gu_EncodeGzBase64String g s) = Some s"
    "TrimSpace (gu_EncodeGzBase64String g s) = gu_EncodeGzBase64String g s"
    "s \<noteq> [] \<Longrightarrow> gu_EncodeGzBase64String g s \<noteq> []" for s
    using assms(1) by (auto simp: codec_ok_def)
  obtain r st' where r: "run_line g ord c host cmd st = (r, st')" by (meson surj_pair)
  then have run: "Run g ord c (hd (Split (CHR '' '') cmd)) host (tl (Split (CHR '' '') cmd)) st = (r, st')"
    by (simp add: run_line_def)
  have h: "handleConnection g (\<lambda>cmd. Run g ord c cmd host) [gu_EncodeGzBase64String g cmd] st =
      process g (\<lambda>cmd. Run g ord c cmd host) cmd st"
    using c(1) assms(3,4) by (simp add: ExitCommand_def)
  obtain x xs where sp: "Split (CHR '' '') cmd = x # xs"
    using Split_nonempty [of "CHR '' ''" cmd] by (meson neq_Nil_conv)
  have p: "process g (\<lambda>cmd. Run g ord c cmd host) cmd st =
      (case r of Inl e \<Rightarrow> (Some e, [], st') | Inr res \<Rightarrow> (None, ssc_write g res, st'))"
    using run sp by (simp add: process_def split: sum.split)
  have rd: "sc_read g (ssc_write g res) = Inr (TrimSpace res)" for res
    using c by (simp add: sc_read_def ssc_write_def Let_def)
  show ?thesis
    using assms(2,5,6) h p r rd c scan_line [OF assms(1), of cmd]
    by (simp add: sc_Exec_def sc_connect_def peer_net_def sc_line_def sc_disconnect_def sc_read_def
        split: sum.split)
qed

lemma Exec_peer_too_long:
  assumes "codec_ok g" and "IsAllowedHost host (y_nodes st)" and "\<not> line_fits g cmd"
  shows "sc_Exec g (peer_net g ord c host garbage) cmd (sc, st) = (Inr [], sc\<lparr>sc_connected := True\<rparr>, st)"
  using assms scan_line [OF assms(1), of cmd]
  by (simp add: sc_Exec_def sc_connect_def peer_net_def sc_disconnect_def sc_read_def)

lemma Exec_peer_denied:
  assumes "\<not> IsAllowedHost host (y_nodes st)"
  shows "\<exists>r. sc_Exec g (peer_net g ord c host garbage) cmd (sc, st) = (r, sc\<lparr>sc_connected := True\<rparr>, st)"
  using assms by (simp add: sc_Exec_def sc_connect_def peer_net_def sc_disconnect_def)

section \<open>Pushing a section\<close>

lemma Exec_trim: "sc_Exec g n cmd s = sc_Exec g n (TrimSpace cmd) s"
proof -
  have "sc_line g (TrimSpace cmd) = sc_line g cmd" by (simp add: sc_line_def)
  then show ?thesis by (simp only: sc_Exec_def)
qed

lemma TrimSpace_length: "length (TrimSpace s) \<le> length s"
proof -
  have "length (strip_all ws x) \<le> length x" for ws x
    by (rule suffix_length_le) (rule strip_all_suffix)
  from this [of space_runes s] this [of "map rev space_runes" "rev (strip_all space_runes s)"]
  show ?thesis by (simp add: TrimSpace_def)
qed

lemma concat_singleton: "concat xss = [x] \<Longrightarrow> ys \<in> set xss \<Longrightarrow> ys = [] \<or> ys = [x]"
  by (induction xss) (auto simp: append_eq_Cons_conv)

lemma TrimSpace_blank:
  assumes "TrimSpace x = x" and "x \<noteq> []"
  shows "TrimSpace (x @ '' '') = x"
proof -
  have "strip_one space_runes (x @ CHR '' '' # []) = None"
    using assms one_byte_spaces(1) [of "CHR '' ''"] by (intro strip_one_sep TrimSpace_ends) auto
  then have a: "strip_all space_runes (x @ '' '') = x @ '' ''" by (simp add: strip_all_fix)
  have "strip_one (map rev space_runes) (CHR '' '' # rev x) = Some (rev x)"
    by (simp add: space_runes_def)
  moreover have "strip_all (map rev space_runes) (rev x) = rev x"
    by (rule strip_all_fix) (rule TrimSpace_ends(2) [OF assms])
  ultimately show ?thesis
    by (simp add: TrimSpace_def a) (simp add: strip_all.simps)
qed

text \<open>The lines of a synchronisation fit: the command that lists the section, and the batches that add
  what any answer lacks.\<close>

definition all_fit :: "gutils \<Rightarrow> string \<Rightarrow> string \<Rightarrow> string list \<Rightarrow> bool" where
  "all_fit g list_cmd add_cmd mine \<longleftrightarrow> line_fits g list_cmd \<and>
     (\<forall>theirs. \<forall>ch \<in> set (gu_ChunkString g (Join '' '' (gu_StringSliceDifference g mine theirs)) (CHR '' '') 5000).
        line_fits g (add_cmd @ '' '' @ Join '' '' ch))"

lemma all_fit_list: "all_fit g list_cmd add_cmd mine \<Longrightarrow> line_fits g list_cmd"
  by (simp add: all_fit_def)

lemma all_fit_chunks:
  "all_fit g list_cmd add_cmd mine \<Longrightarrow>
     \<forall>ch \<in> set (gu_ChunkString g (Join '' '' (gu_StringSliceDifference g mine theirs)) (CHR '' '') 5000).
        line_fits g (add_cmd @ '' '' @ Join '' '' ch)"
  by (simp add: all_fit_def)

lemma sent_words:
  assumes "\<forall>w \<in> set mine. clean_word w" and "set xs - {[]} = W"
  shows "j \<in> W \<or> (j \<in> set mine \<and> j \<notin> set xs \<and> P) \<longleftrightarrow> j \<in> W \<or> (j \<in> set mine \<and> P)"
  using assms by (auto simp: clean_word_def)

text \<open>A section that is pushed in batches: the name of its ADD command, what the command stores, and
  which words it accepts.\<close>

locale pushed_section =
  fixes g :: gutils
    and ord :: orders
    and c :: conf
    and host :: string
    and garbage :: string
    and cmd :: string
    and has :: "string \<Rightarrow> node_st \<Rightarrow> bool"
    and ok :: "string \<Rightarrow> bool"
    and inv :: "node_st \<Rightarrow> bool"
  assumes cmd_ok: "CHR '' '' \<notin> set cmd" "TrimSpace cmd = cmd" "cmd \<noteq> []" "cmd \<noteq> ''exit''"
    and admits: "inv st \<Longrightarrow> IsAllowedHost host (y_nodes st)"
    and run_inv: "inv st \<Longrightarrow> inv (snd (Run g ord c cmd host args st))"
    and run_has: "inv st \<Longrightarrow> has j (snd (Run g ord c cmd host args st)) \<longleftrightarrow>
      has j st \<or> (\<exists>a \<in> set args. TrimSpace a \<noteq> [] \<and> ok (TrimSpace a) \<and> j = TrimSpace a)"
begin

definition push :: "string list \<Rightarrow> sync_client \<times> node_st \<Rightarrow> sync_client \<times> node_st" where
  "push chunk s = snd (sc_Exec g (peer_net g ord c host garbage) (cmd @ '' '' @ Join '' '' chunk) s)"

definition fits :: "string list \<Rightarrow> bool" where
  "fits chunk = line_fits g (cmd @ '' '' @ Join '' '' chunk)"

lemma push_chunk:
  assumes codec: "codec_ok g" and "inv (snd s)" and "list_all clean_word chunk \<or> chunk = [[]]"
    and "fits chunk"
  shows "inv (snd (push chunk s)) \<and>
    (has j (snd (push chunk s)) \<longleftrightarrow> has j (snd s) \<or> (j \<in> set chunk \<and> j \<noteq> [] \<and> ok j))"
proof (cases "chunk = [] \<or> chunk = [[]]")
  case True
  then have "TrimSpace (cmd @ '' '' @ Join '' '' chunk) = cmd"
    using TrimSpace_blank [OF cmd_ok(2,3)] by auto
  then have "push chunk s = (fst s\<lparr>sc_connected := True\<rparr>, snd (run_line g ord c host cmd (snd s)))"
    using assms(2,4) admits [OF assms(2)] line_fits_trim [of g "cmd @ '' '' @ Join '' '' chunk"]
    unfolding push_def fits_def
    by (subst Exec_trim, cases s) (simp add: Exec_peer [OF codec cmd_ok(2-4)])
  moreover have "Split (CHR '' '') cmd = [cmd]" using cmd_ok(1) by (simp add: Split_no_sep)
  ultimately show ?thesis
    using assms(2) run_inv [of "snd s" "[]"] run_has [of "snd s" j "[]"] True
    by (auto simp: run_line_def)
next
  case False
  then have cl: "list_all clean_word chunk" using assms(3) by blast
  let ?cmd = "Join [CHR '' ''] (cmd # chunk)"
  have e: "cmd @ '' '' @ Join '' '' chunk = ?cmd" using False by (simp add: Join_Cons)
  have t: "TrimSpace ?cmd = ?cmd"
    using cl cmd_ok by (intro TrimSpace_Join) (auto simp: list_all_iff clean_word_def)
  have sp: "Split (CHR '' '') ?cmd = cmd # chunk"
    using cl cmd_ok(1) by (intro Split_Join) (auto simp: list_all_iff clean_word_def)
  have "?cmd \<noteq> []" "?cmd \<noteq> ''exit''"
  proof -
    have "CHR '' '' \<in> set ?cmd" using False by (simp add: Join_Cons)
    then show "?cmd \<noteq> []" "?cmd \<noteq> ''exit''" by auto
  qed
  then have "push chunk s = (fst s\<lparr>sc_connected := True\<rparr>, snd (Run g ord c cmd host chunk (snd s)))"
    using assms(4) admits [OF assms(2)] unfolding push_def fits_def e
    by (cases s) (simp add: Exec_peer [OF codec t] run_line_def sp)
  moreover have "(\<exists>a \<in> set chunk. TrimSpace a \<noteq> [] \<and> ok (TrimSpace a) \<and> j = TrimSpace a) \<longleftrightarrow>
      j \<in> set chunk \<and> j \<noteq> [] \<and> ok j"
    using cl by (auto simp: list_all_iff clean_word_def)
  ultimately show ?thesis
    using assms(2) run_inv [of "snd s" chunk] run_has [of "snd s" j chunk] by simp
qed

lemma push_chunks:
  assumes "codec_ok g" and "inv (snd s)"
    and "\<forall>ch \<in> set chunks. list_all clean_word ch \<or> ch = [[]]" and "\<forall>ch \<in> set chunks. fits ch"
  shows "inv (snd (fold push chunks s)) \<and>
    (has j (snd (fold push chunks s)) \<longleftrightarrow>
      has j (snd s) \<or> (j \<in> set (concat chunks) \<and> j \<noteq> [] \<and> ok j))"
  using assms(2-4)
proof (induction chunks arbitrary: s)
  case (Cons ch chunks)
  then have "inv (snd (push ch s))" using push_chunk [OF assms(1)] by simp
  with Cons push_chunk [OF assms(1), of s ch j] show ?case by auto
qed simp

text \<open>Pushing what the peer's answer \<open>theirs\<close> lacks of \<open>mine\<close>.\<close>

lemma push_difference:
  assumes gu: "gutils_ok g" and "inv (snd s)" and "\<forall>w \<in> set mine. clean_word w"
    and fit: "\<forall>ch \<in> set (gu_ChunkString g (Join '' '' (gu_StringSliceDifference g mine theirs)) (CHR '' '') 5000).
      fits ch"
  shows "inv (snd (fold push (gu_ChunkString g (Join '' '' (gu_StringSliceDifference g mine theirs))
           (CHR '' '') 5000) s)) \<and>
    (has j (snd (fold push (gu_ChunkString g (Join '' '' (gu_StringSliceDifference g mine theirs))
           (CHR '' '') 5000) s)) \<longleftrightarrow>
      has j (snd s) \<or> (j \<in> set mine \<and> j \<notin> set theirs \<and> ok j))"
proof -
  let ?d = "gu_StringSliceDifference g mine theirs"
  let ?ch = "gu_ChunkString g (Join '' '' ?d) (CHR '' '') 5000"
  have l: "lists_ok g" and cd: "codec_ok g" using gu by (simp_all add: gutils_ok_def)
  have d: "set ?d = set mine - set theirs" using l by (simp add: lists_ok_def)
  have cat: "concat ?ch = Split (CHR '' '') (Join '' '' ?d)" using l by (simp add: lists_ok_def)
  show ?thesis
  proof (cases "?d = []")
    case True
    then have "concat ?ch = [[]]" using cat by simp
    then have "\<forall>ch \<in> set ?ch. list_all clean_word ch \<or> ch = [[]]"
      using concat_singleton by fastforce
    note pc = push_chunks [OF cd assms(2) this fit, of j]
    have "\<not> (j \<in> set (concat ?ch) \<and> j \<noteq> [] \<and> ok j)" unfolding \<open>concat ?ch = [[]]\<close> by simp
    moreover have "\<not> (j \<in> set mine \<and> j \<notin> set theirs \<and> ok j)" using True d by auto
    ultimately show ?thesis using pc by blast
  next
    case False
    have "\<forall>x \<in> set ?d. CHR '' '' \<notin> set x" using assms(3) d by (auto simp: clean_word_def)
    with False have c: "concat ?ch = ?d" unfolding cat by (intro Split_Join) auto
    then have "set (concat ?ch) = set mine - set theirs" using d by simp
    then have w: "x \<in> set ch \<Longrightarrow> ch \<in> set ?ch \<Longrightarrow> x \<in> set mine" for x ch by auto
    then have "\<forall>ch \<in> set ?ch. list_all clean_word ch \<or> ch = [[]]"
      using assms(3) by (auto simp: list_all_iff)
    note pc = push_chunks [OF cd assms(2) this fit, of j]
    have "j \<in> set (concat ?ch) \<and> j \<noteq> [] \<and> ok j \<longleftrightarrow> j \<in> set mine \<and> j \<notin> set theirs \<and> ok j"
      unfolding c using d assms(3) by (auto simp: clean_word_def)
    with pc show ?thesis by blast
  qed
qed

text \<open>A whole synchronisation of the section: the peer lists what it has, the answer is compared and the
  difference pushed.\<close>

lemma sync:
  assumes gu: "gutils_ok g" and "inv st" and "\<forall>w \<in> set mine. clean_word w"
    and fit: "all_fit g list_cmd cmd mine"
    and list_cmd: "TrimSpace list_cmd = list_cmd" "list_cmd \<noteq> []" "list_cmd \<noteq> ''exit''"
    and res: "run_line g ord c host list_cmd st = (Inr res, st)"
    and add: "\<And>data. add data = fold push (gu_ChunkString g data (CHR '' '') 5000)"
    and W: "set (gu_ExplodeLines g (TrimSpace res)) - {[]} = W" "has j st \<longleftrightarrow> j \<in> W"
  shows "has j (snd (SyncData g (peer_net g ord c host garbage) list_cmd mine add (sc, st))) \<longleftrightarrow>
    has j st \<or> (j \<in> set mine \<and> ok j)"
proof -
  let ?a = "gu_ExplodeLines g (TrimSpace res)" and ?s = "(sc\<lparr>sc_connected := True\<rparr>, st)"
  let ?ch = "gu_ChunkString g (Join '' '' (gu_StringSliceDifference g mine ?a)) (CHR '' '') 5000"
  have cd: "codec_ok g" using gu by (simp add: gutils_ok_def)
  have "SyncData g (peer_net g ord c host garbage) list_cmd mine add (sc, st) = fold push ?ch ?s"
    using Exec_peer [OF cd list_cmd admits [OF assms(2)] all_fit_list [OF fit]] res
    by (simp add: SyncData_def add)
  moreover have "\<forall>ch \<in> set ?ch. fits ch" using all_fit_chunks [OF fit] by (simp add: fits_def)
  ultimately show ?thesis
    using push_difference [OF gu _ assms(3), of ?s ?a j] assms(2) W
      sent_words [OF assms(3) W(1), of j "ok j"] by simp
qed

end

section \<open>Users, passwords and hosts are pushed\<close>

definition peer_loot :: "node_st \<Rightarrow> loot_st" where
  "peer_loot st = (o_loot (y_ossh st), o_metrics (y_ossh st))"

definition peer_inv :: "node_st \<Rightarrow> bool" where
  "peer_inv st \<longleftrightarrow> loot_inv (peer_loot st)"

lemma cmd_add_loot:
  "fst (peer_loot (snd (cmd_add g ord c add host args st))) =
     (if args = [] then fst (peer_loot st) else fst (snd (add args (peer_loot st))))"
  "peer_inv st \<Longrightarrow> (\<And>xs s. loot_inv s \<Longrightarrow> loot_inv (snd (add xs s))) \<Longrightarrow>
     peer_inv (snd (cmd_add g ord c add host args st))"
  by (auto simp: cmd_add_def peer_loot_def peer_inv_def split_def o_metrics_def with_loot_def)

lemma cmd_add_peer:
  assumes "peer_inv st"
  shows "peer_inv (snd (cmd_add g ord c AddUsers host args st))"
    and "peer_inv (snd (cmd_add g ord c AddPasswords host args st))"
    and "peer_inv (snd (cmd_add g ord c (AddHosts c) host args st))"
  by (rule cmd_add_loot(2) [OF assms], erule AddUsers_inv AddPasswords_inv AddHosts_inv)+

lemma cmd_add_nodes: "y_nodes (snd (cmd_add g ord c add host args st)) = y_nodes st"
  by (simp add: cmd_add_def with_loot_def split_def)

text \<open>A peer with a sound loot that admits \<open>host\<close>.\<close>

definition serves :: "string \<Rightarrow> node_st \<Rightarrow> bool" where
  "serves host st \<longleftrightarrow> peer_inv st \<and> IsAllowedHost host (y_nodes st)"

lemma cmd_add_serves:
  assumes "serves h st"
  shows "serves h (snd (cmd_add g ord c AddUsers host args st))"
    and "serves h (snd (cmd_add g ord c AddPasswords host args st))"
    and "serves h (snd (cmd_add g ord c (AddHosts c) host args st))"
  using assms cmd_add_peer by (simp_all add: serves_def cmd_add_nodes)

lemma peer_inv_loot: "peer_inv st \<Longrightarrow> loot_inv (peer_loot st)"
  by (simp add: peer_inv_def)

lemmas serves_facts = serves_def cmd_add_nodes cmd_add_loot(1) cmd_add_peer peer_inv_loot

lemma Run_adds:
  "Run g ord c ''ADD-USER'' = cmd_add g ord c AddUsers"
  "Run g ord c ''ADD-PASSWORD'' = cmd_add g ord c AddPasswords"
  "Run g ord c ''ADD-HOST'' = cmd_add g ord c (AddHosts c)"
  by (intro ext, simp add: Run_def sync_commands_def gm_get_def cmd_ADD_USER_def
      cmd_ADD_PASSWORD_def cmd_ADD_HOST_def)+

lemma add_cmd_names:
  "TrimSpace ''ADD-USER'' = ''ADD-USER''" "TrimSpace ''ADD-PASSWORD'' = ''ADD-PASSWORD''"
  "TrimSpace ''ADD-HOST'' = ''ADD-HOST''" "TrimSpace ''USERS'' = ''USERS''"
  "TrimSpace ''PASSWORDS'' = ''PASSWORDS''" "TrimSpace ''HOSTS'' = ''HOSTS''"
  by code_simp+

interpretation push_users: pushed_section g ord c host garbage "''ADD-USER''"
  "\<lambda>j st. HasUser j (fst (peer_loot st))" "\<lambda>_. True" "serves host"
  for g ord c host garbage
  by unfold_locales
    (auto simp: add_cmd_names Run_adds serves_facts AddUsers_eq ru.has_adds)

interpretation push_passwords: pushed_section g ord c host garbage "''ADD-PASSWORD''"
  "\<lambda>j st. HasPassword j (fst (peer_loot st))" "\<lambda>_. True" "serves host"
  for g ord c host garbage
  by unfold_locales
    (auto simp: add_cmd_names Run_adds serves_facts AddPasswords_eq rp.has_adds)

interpretation push_hosts: pushed_section g ord c host garbage "''ADD-HOST''"
  "\<lambda>j st. HasHost j (fst (peer_loot st))" "\<lambda>h. \<not> isIPWhitelisted c h" "serves host"
  for g ord c host garbage
  by unfold_locales
    (auto simp: add_cmd_names Run_adds serves_facts AddHosts_eq rh.has_adds)

text \<open>A peer lists a section in the words it stored, so the answer determines the set.\<close>

definition words_of :: "(string, bool) gomap \<Rightarrow> string set" where
  "words_of m = {w. gm_has w m}"

definition lines_of :: "loot \<Rightarrow> bool" where
  "lines_of l \<longleftrightarrow> data_ok (users l) \<and> data_ok (passwords l) \<and> data_ok (hosts l)"

lemma explode_answer:
  assumes "gutils_ok g" and "orders_ok ord" and "data_ok m" and "clean_keys m"
  shows "set (gu_ExplodeLines g (TrimSpace (gu_ImplodeLines g (ord_set ord m)))) - {[]} = words_of m"
proof -
  have o: "map_order m (ord_set ord m)" using assms(2) by (simp add: orders_ok_def)
  have "\<forall>x \<in> set (ord_set ord m). x \<noteq> [] \<and> TrimSpace x = x \<and> newline \<notin> set x"
    using set_order_clean [OF o assms(3,4)] by blast
  then have "set (gu_ExplodeLines g (TrimSpace (gu_ImplodeLines g (ord_set ord m)))) - {[]} =
      set (ord_set ord m)"
    using assms(1) by (simp add: gutils_ok_def lists_ok_def)
  then show ?thesis using map_order_set [OF o] by (simp add: words_of_def)
qed

lemma list_lines:
  "run_line g ord c host ''USERS'' st = (Inr (gu_ImplodeLines g (ord_set ord (users (fst (peer_loot st))))), st)"
  "run_line g ord c host ''PASSWORDS'' st =
     (Inr (gu_ImplodeLines g (ord_set ord (passwords (fst (peer_loot st))))), st)"
  "run_line g ord c host ''HOSTS'' st = (Inr (gu_ImplodeLines g (ord_set ord (hosts (fst (peer_loot st))))), st)"
  by (simp_all add: run_line_def Split_no_sep Run_def sync_commands_def gm_get_def cmd_USERS_def
      cmd_PASSWORDS_def cmd_HOSTS_def GetUsers_def GetPasswords_def GetHosts_def peer_loot_def)

lemma AddChunked_push:
  "AddChunked g (peer_net g ord c host garbage) ''USER'' data = fold (push_users.push g ord c host garbage)
     (gu_ChunkString g data (CHR '' '') 5000)"
  "AddChunked g (peer_net g ord c host garbage) ''PASSWORD'' data = fold (push_passwords.push g ord c host garbage)
     (gu_ChunkString g data (CHR '' '') 5000)"
  "AddChunked g (peer_net g ord c host garbage) ''HOST'' data = fold (push_hosts.push g ord c host garbage)
     (gu_ChunkString g data (CHR '' '') 5000)"
  by (intro ext, simp add: AddChunked_def push_users.push_def [abs_def] push_passwords.push_def [abs_def]
      push_hosts.push_def [abs_def])+

lemma has_words:
  "HasUser j (fst (peer_loot st)) \<longleftrightarrow> j \<in> words_of (users (fst (peer_loot st)))"
  "HasPassword j (fst (peer_loot st)) \<longleftrightarrow> j \<in> words_of (passwords (fst (peer_loot st)))"
  "HasHost j (fst (peer_loot st)) \<longleftrightarrow> j \<in> words_of (hosts (fst (peer_loot st)))"
  by (simp_all add: HasUser_def HasPassword_def HasHost_def words_of_def)

lemma clean_lines:
  assumes "peer_inv st" and "lines_of (fst (peer_loot st))"
  shows "data_ok (users (fst (peer_loot st))) \<and> clean_keys (users (fst (peer_loot st)))"
    and "data_ok (passwords (fst (peer_loot st))) \<and> clean_keys (passwords (fst (peer_loot st)))"
    and "data_ok (hosts (fst (peer_loot st))) \<and> clean_keys (hosts (fst (peer_loot st)))"
  using assms by (simp_all add: peer_inv_def loot_inv_def loot_wf_def lines_of_def)

lemma SyncData_users:
  assumes "gutils_ok g" and "orders_ok ord" and "serves host st" and "lines_of (fst (peer_loot st))"
    and "\<forall>w \<in> set mine. clean_word w" and "all_fit g ''USERS'' ''ADD-USER'' mine"
  shows "HasUser j (fst (peer_loot (snd (SyncData g (peer_net g ord c host garbage) ''USERS'' mine
        (sc_AddUsers g (peer_net g ord c host garbage)) (sc, st))))) \<longleftrightarrow>
      HasUser j (fst (peer_loot st)) \<or> j \<in> set mine"
  using push_users.sync [OF assms(1,3,5,6) _ _ _ list_lines(1) _ explode_answer [OF assms(1,2)] has_words(1),
      where add = "sc_AddUsers g (peer_net g ord c host garbage)"]
    clean_lines(1) [OF _ assms(4)] assms(3)
  by (simp add: add_cmd_names sc_AddUsers_def AddChunked_push serves_def)

lemma SyncData_passwords:
  assumes "gutils_ok g" and "orders_ok ord" and "serves host st" and "lines_of (fst (peer_loot st))"
    and "\<forall>w \<in> set mine. clean_word w" and "all_fit g ''PASSWORDS'' ''ADD-PASSWORD'' mine"
  shows "HasPassword j (fst (peer_loot (snd (SyncData g (peer_net g ord c host garbage) ''PASSWORDS'' mine
        (sc_AddPasswords g (peer_net g ord c host garbage)) (sc, st))))) \<longleftrightarrow>
      HasPassword j (fst (peer_loot st)) \<or> j \<in> set mine"
  using push_passwords.sync [OF assms(1,3,5,6) _ _ _ list_lines(2) _ explode_answer [OF assms(1,2)] has_words(2),
      where add = "sc_AddPasswords g (peer_net g ord c host garbage)"]
    clean_lines(2) [OF _ assms(4)] assms(3)
  by (simp add: add_cmd_names sc_AddPasswords_def AddChunked_push serves_def)

lemma SyncData_hosts:
  assumes "gutils_ok g" and "orders_ok ord" and "serves host st" and "lines_of (fst (peer_loot st))"
    and "\<forall>w \<in> set mine. clean_word w" and "all_fit g ''HOSTS'' ''ADD-HOST'' mine"
  shows "HasHost j (fst (peer_loot (snd (SyncData g (peer_net g ord c host garbage) ''HOSTS'' mine
        (sc_AddHosts g (peer_net g ord c host garbage)) (sc, st))))) \<longleftrightarrow>
      HasHost j (fst (peer_loot st)) \<or> (j \<in> set mine \<and> \<not> isIPWhitelisted c j)"
  using push_hosts.sync [OF assms(1,3,5,6) _ _ _ list_lines(3) _ explode_answer [OF assms(1,2)] has_words(3),
      where add = "sc_AddHosts g (peer_net g ord c host garbage)"]
    clean_lines(3) [OF _ assms(4)] assms(3)
  by (simp add: add_cmd_names sc_AddHosts_def AddChunked_push serves_def)


definition sample_client :: sync_client where
  "sample_client = NewSyncClient ''10.0.0.2'' 1337"

definition sample_peer :: node_st where
  "sample_peer = sample_node\<lparr>y_nodes := AddClient (NewSyncClient ''10.0.0.3'' 1337) NewSyncNodes\<rparr>"

lemma sample_peer_serves: "serves ''10.0.0.3'' sample_peer"
proof -
  have "IsAllowedHost ''10.0.0.3'' (y_nodes sample_peer)"
    by (simp add: IsAllowedHost_def sample_peer_def AddClient_def NewSyncNodes_def HasClient_def
        gm_put_def NewSyncClient_def)
  then show ?thesis
    using empty_loot_inv by (simp add: serves_def peer_inv_def peer_loot_def sample_peer_def
        sample_node_def sample_ossh_def o_metrics_def NewActiveSessions_def)
qed

lemma sample_fits: "length cmd < 40000 \<Longrightarrow> line_fits sample_gutils cmd"
  using TrimSpace_length [of cmd]
  by (simp add: line_fits_def sc_line_def sample_gutils_def b64_encode_length MaxScanTokenSize_def)

lemma sample_all_fit:
  assumes "line_fits sample_gutils cmd" and "line_fits sample_gutils (add @ '' '')"
    and "line_fits sample_gutils (add @ '' root'')"
  shows "all_fit sample_gutils cmd add [''root'']"
  unfolding all_fit_def
proof (intro conjI allI ballI)
  fix theirs ch
  assume "ch \<in> set (gu_ChunkString sample_gutils (Join '' ''
    (gu_StringSliceDifference sample_gutils [''root''] theirs)) (CHR '' '') 5000)"
  then have "ch = [''root''] \<or> ch = [[]]"
    by (auto simp: sample_gutils_def split: if_splits)
  then show "line_fits sample_gutils (add @ '' '' @ Join '' '' ch)" using assms by auto
qed (rule assms)


end
