(* ===== verification/Workers.thy ===== *)
theory Workers
  imports UI_Server Sync_Cluster
begin

text \<open>
  The statistics workers of \<^verbatim>\<open>ossh_server.go\<close>: one pass of each. \<open>json\<close> arguments are \<^verbatim>\<open>json.Marshal\<close> of the
  three kinds of data. A pass is \<^term>\<open>None\<close> when it blocks on the mutex of the sessions; a worker repeats
  its pass after a pause.
\<close>

section \<open>Passes\<close>

text \<open>\<^verbatim>\<open>uptime().Round(1 * time.Second).Seconds()\<close>: halves round up, time does not run backwards.\<close>

definition uptime :: "int \<Rightarrow> int \<Rightarrow> int" where
  "uptime startTime now = now - startTime"

definition Round_second :: "int \<Rightarrow> int" where
  "Round_second d =
     (let r = d mod second in if r + r < second then d - r else d + (second - r))"

definition Seconds :: "int \<Rightarrow> rat" where
  "Seconds d = of_int d / of_int second"

text \<open>The times and the orders in which the totals range over the logins.\<close>

record stats_input =
  si_startTime :: int
  si_now :: int
  si_ks :: "string list"
  si_js :: "string list"
  si_ss :: "string list"
  si_fs :: "string list"

definition uptime_seconds :: "stats_input \<Rightarrow> rat" where
  "uptime_seconds i = Seconds (Round_second (uptime (si_startTime i) (si_now i)))"

definition stats_now :: "stats_input \<Rightarrow> ossh \<Rightarrow> (node_stats \<times> ossh) option" where
  "stats_now i = server_stats (uptime_seconds i) (si_ks i) (si_js i) (si_ss i) (si_fs i)"

definition statsToJSON ::
  "(node_stats \<Rightarrow> string + string) \<Rightarrow> stats_input \<Rightarrow> ossh \<Rightarrow> (string \<times> ossh) option" where
  "statsToJSON jsonStats i o0 =
     (case stats_now i o0 of
        None \<Rightarrow> None
      | Some (hs, o1) \<Rightarrow> Some (case jsonStats hs of Inl e \<Rightarrow> [] | Inr s \<Rightarrow> s, o1))"

definition push_json ::
  "'y ui_lib \<Rightarrow> string + string \<Rightarrow> ui_world option \<Rightarrow> go_panic + ui_world option" where
  "push_json lib json srvUI =
     (case json of
        Inl e \<Rightarrow> Inr srvUI
      | Inr s \<Rightarrow>
          (case srvUI of
             None \<Rightarrow> Inr None
           | Some w \<Rightarrow> bind_res (PushStats lib s w) (\<lambda>w1. Inr (Some w1))))"

definition updateStats ::
  "'y ui_lib \<Rightarrow> (node_stats \<Rightarrow> string + string) \<Rightarrow> stats_input \<Rightarrow> ossh \<Rightarrow> ui_world option \<Rightarrow>
   ((go_panic + ui_world option) \<times> ossh) option" where
  "updateStats lib jsonNode i o0 srvUI =
     (case stats_now i o0 of
        None \<Rightarrow> None
      | Some (hs, o1) \<Rightarrow> Some (push_json lib (jsonNode hs) srvUI, o1))"

text \<open>The totals go to the web interface, the own statistics to every peer.\<close>

definition broadcastStats ::
  "'y ui_lib \<Rightarrow> gutils \<Rightarrow> 'w net \<Rightarrow> (node_stats \<Rightarrow> string + string) \<Rightarrow> (node_stats \<Rightarrow> string + string) \<Rightarrow>
   ((string, node_stats option) gomap \<Rightarrow> string list) \<Rightarrow> (sync_nodes \<Rightarrow> string list) \<Rightarrow> stats_input \<Rightarrow>
   ossh \<Rightarrow> ui_world option \<Rightarrow> sync_nodes \<Rightarrow> 'w \<Rightarrow>
   ((go_panic + ui_world option) \<times> ossh \<times> sync_nodes \<times> 'w) option" where
  "broadcastStats lib g n jsonTotal jsonStats order ks i o0 srvUI sn w =
     (case stats_now i o0 of
        None \<Rightarrow> None
      | Some (hs, o1) \<Rightarrow>
          (case GetStats g order hs sn of
             (Inl p, sn1) \<Rightarrow> Some (Inl p, o1, sn1, w)
           | (Inr ts, sn1) \<Rightarrow>
               (case push_json lib (jsonTotal ts) srvUI of
                  Inl p \<Rightarrow> Some (Inl p, o1, sn1, w)
                | Inr ui1 \<Rightarrow>
                    (case jsonStats hs of
                       Inl e \<Rightarrow> Some (Inr ui1, o1, sn1, w)
                     | Inr s \<Rightarrow>
                         (case SS_Broadcast g n (''ADD-STATS '' @ s) (ks sn1) (sn1, w) of
                            (res, sn2, w2) \<Rightarrow> Some (Inr ui1, o1, sn2, w2))))))"

section \<open>A peer learns the statistics\<close>

text \<open>What JSON gives back: the text of an object, decoding it yields the statistics, and their few numbers
  make a line that is far shorter than the buffer of a scanner.\<close>

definition stats_json_ok :: "gutils \<Rightarrow> (node_stats \<Rightarrow> string + string) \<Rightarrow> bool" where
  "stats_json_ok g jsonStats \<longleftrightarrow>
     (\<forall>st s. jsonStats st = Inr s \<longrightarrow> s \<noteq> [] \<and> last s = CHR ''}'' \<and> gu_jsonStats g s = Some st \<and>
        line_fits g (''ADD-STATS '' @ s))"

lemma ADD_STATS_trim: "last s = CHR ''}'' \<Longrightarrow> s \<noteq> [] \<Longrightarrow> TrimSpace (''ADD-STATS '' @ s) = ''ADD-STATS '' @ s"
  by (rule TrimSpace_fix) (simp add: space_bytes_def space_runes_def)

lemma run_line_stats:
  "run_line g ord c host (''ADD-STATS '' @ s) st =
     (Inr [], st\<lparr>y_nodes := AddStats host (gu_jsonStats g s) (y_nodes st)\<rparr>)"
proof -
  have sp: "Split (CHR '' '') (''ADD-STATS '' @ s) = ''ADD-STATS'' # Split (CHR '' '') s" by simp
  have "Join '' '' (Split (CHR '' '') s) = s" by (rule Join_Split)
  then show ?thesis
    by (simp add: run_line_def sp Run_def sync_commands_def gm_get_def cmd_ADD_STATS_def Suc_le_eq
        Split_nonempty)
qed

text \<open>A peer is reached when it can be dialled and the host of this node is one of its sync clients.\<close>

definition reached :: "string \<Rightarrow> (string \<Rightarrow> string option) \<Rightarrow> (string \<Rightarrow> node_st) \<Rightarrow> string \<Rightarrow> bool" where
  "reached host dial W i \<longleftrightarrow> dial i = None \<and> IsAllowedHost host (y_nodes (W i))"

text \<open>A network of peers, each with its own state, under their addresses; some cannot be dialled.\<close>

definition cluster_net ::
  "gutils \<Rightarrow> orders \<Rightarrow> (string \<Rightarrow> conf) \<Rightarrow> string \<Rightarrow> string \<Rightarrow> (string \<Rightarrow> string option) \<Rightarrow> (string \<Rightarrow> node_st) net" where
  "cluster_net g ord cf host garbage dial =
     \<lparr>net_dial = (\<lambda>i W. dial i),
      net_send = (\<lambda>i line W.
        case net_send (peer_net g ord (cf i) host garbage) i line (W i) of (r, st) \<Rightarrow> (r, W(i := st))),
      net_bye = (\<lambda>i line W. W)\<rparr>"

lemma Exec_cluster:
  assumes "codec_ok g" and "TrimSpace cmd = cmd" and "cmd \<noteq> []" and "cmd \<noteq> ''exit''" and "line_fits g cmd"
  shows "\<exists>r sc'. sc_Exec g (cluster_net g ord cf host garbage dial) cmd (sc, W) = (r, sc',
      if reached host dial W (sc_ID sc)
      then W(sc_ID sc := snd (run_line g ord (cf (sc_ID sc)) host cmd (W (sc_ID sc)))) else W) \<and>
    sc_ID sc' = sc_ID sc \<and> sc_Host sc' = sc_Host sc"
proof (cases "dial (sc_ID sc)")
  case None
  let ?i = "sc_ID sc"
  obtain r st where s: "net_send (peer_net g ord (cf ?i) host garbage) ?i (sc_line g cmd) (W ?i) = (r, st)"
    by (meson surj_pair)
  have p: "sc_Exec g (peer_net g ord (cf ?i) host garbage) cmd (sc, W ?i) =
      (case r of Inl e \<Rightarrow> Inl e | Inr resp \<Rightarrow> sc_read g resp, sc\<lparr>sc_connected := True\<rparr>, st)"
    using s by (cases r) (simp_all add: sc_Exec_def sc_connect_def sc_disconnect_def peer_net_def sc_ID_def)
  have "st = (if IsAllowedHost host (y_nodes (W ?i)) then snd (run_line g ord (cf ?i) host cmd (W ?i)) else W ?i)"
    using p Exec_peer [OF assms(1-4) _ assms(5), of host "W ?i" ord "cf ?i" garbage sc]
      Exec_peer_denied [of host "W ?i" g ord "cf ?i" garbage cmd sc] by (auto split: if_splits)
  then show ?thesis
    using None s by (cases r)
      (auto simp: sc_Exec_def sc_connect_def sc_disconnect_def cluster_net_def sc_ID_def reached_def)
next
  case (Some e)
  then show ?thesis
    by (simp add: sc_Exec_def sc_connect_def sc_disconnect_def cluster_net_def reached_def)
qed

text \<open>Broadcasting the statistics: every client's node that is reached has them afterwards.\<close>

definition learn :: "gutils \<Rightarrow> string \<Rightarrow> string \<Rightarrow> node_st \<Rightarrow> node_st" where
  "learn g host s st = st\<lparr>y_nodes := AddStats host (gu_jsonStats g s) (y_nodes st)\<rparr>"

lemma reached_learn:
  "reached host dial (W(k := learn g h s (W k))) i = reached host dial W i"
  by (simp add: reached_def learn_def AddStats_def IsAllowedHost_def)

lemma ExecBroadcast_stats:
  assumes "codec_ok g" and "s \<noteq> []" and "last s = CHR ''}''" and "line_fits g (''ADD-STATS '' @ s)"
  shows "distinct ks \<Longrightarrow> nodes_inv sn \<Longrightarrow> \<exists>res sn'.
    ExecBroadcast g (cluster_net g ord cf host garbage dial) (''ADD-STATS '' @ s) ks (sn, W) = (res, sn',
      \<lambda>i. if i \<in> set ks \<and> HasClient i sn \<and> reached host dial W i then learn g host s (W i) else W i) \<and>
    nodes_inv sn' \<and> n_stats sn' = n_stats sn"
proof (induction ks arbitrary: sn W)
  case Nil
  then show ?case by (auto intro!: exI)
next
  case (Cons k ks)
  show ?case
  proof (cases "gm_get k (n_clients sn)")
    case None
    then have "\<not> HasClient k sn" by (simp add: HasClient_def gm_has_def)
    then have "(\<lambda>i. if i \<in> set (k # ks) \<and> HasClient i sn \<and> reached host dial W i then learn g host s (W i) else W i) =
        (\<lambda>i. if i \<in> set ks \<and> HasClient i sn \<and> reached host dial W i then learn g host s (W i) else W i)" by auto
    with None Cons show ?thesis by simp
  next
    case (Some sc)
    have id: "sc_ID sc = k" using Cons.prems(2) Some by (simp add: nodes_inv_def)
    have t: "TrimSpace (''ADD-STATS '' @ s) = ''ADD-STATS '' @ s" using assms by (intro ADD_STATS_trim)
    have ne: "''ADD-STATS '' @ s \<noteq> []" "''ADD-STATS '' @ s \<noteq> ''exit''" by simp_all
    have run: "snd (run_line g ord c host (''ADD-STATS '' @ s) st) = learn g host s st" for c st
      by (simp only: run_line_stats learn_def snd_conv)
    obtain r sc' where
      e: "sc_Exec g (cluster_net g ord cf host garbage dial) (''ADD-STATS '' @ s) (sc, W) =
        (r, sc', if reached host dial W k then W(k := learn g host s (W k)) else W)" and sc': "sc_ID sc' = k"
      using Exec_cluster [OF assms(1) t ne assms(4), of ord cf host garbage dial sc W] unfolding run id by blast
    let ?sn = "sn\<lparr>n_clients := gm_put k sc' (n_clients sn)\<rparr>"
    let ?W = "if reached host dial W k then W(k := learn g host s (W k)) else W"
    have inv: "nodes_inv ?sn"
      using Cons.prems(2) sc' by (auto simp: nodes_inv_def gm.inv_put gm.get_put)
    have has: "HasClient i ?sn = HasClient i sn" for i
      using Some by (auto simp: HasClient_def gm_has_def gm.get_put)
    obtain res sn' where b: "ExecBroadcast g (cluster_net g ord cf host garbage dial) (''ADD-STATS '' @ s) ks (?sn, ?W) =
        (res, sn', \<lambda>i. if i \<in> set ks \<and> HasClient i ?sn \<and> reached host dial ?W i then learn g host s (?W i) else ?W i)"
      "nodes_inv sn'" "n_stats sn' = n_stats ?sn"
      using Cons.IH [OF _ inv, of ?W] Cons.prems(1) by auto
    have "(\<lambda>i. if i \<in> set ks \<and> HasClient i ?sn \<and> reached host dial ?W i then learn g host s (?W i) else ?W i) =
        (\<lambda>i. if i \<in> set (k # ks) \<and> HasClient i sn \<and> reached host dial W i then learn g host s (W i) else W i)"
      using Cons.prems(1) Some by (auto simp: has reached_learn fun_eq_iff HasClient_def gm_has_def gm.get_put)
    with b Some e show ?thesis by (cases r) auto
  qed
qed

section \<open>A pass over the cluster\<close>

text \<open>The hubs are as hubs are in a run, and the streams of the interface exist.\<close>

definition hubs_ok :: "'y ui_lib \<Rightarrow> ui_world \<Rightarrow> bool" where
  "hubs_ok lib w \<longleftrightarrow>
     (\<forall>h \<in> set (u_hubs w). \<exists>es. hub_inv es h) \<and>
     (\<forall>a. ui_Stats (u_ui w) = Some a \<longrightarrow> a < length (u_hubs w)) \<and>
     (\<forall>h. map_order (hb_clients h) (ul_hub_keys lib h))"

lemma PushStats_ok:
  assumes "hubs_ok lib w"
  shows "\<exists>w'. PushStats lib msg w = Inr w' \<and> hubs_ok lib w'"
proof (cases "ui_Stats (u_ui w)")
  case None
  with assms show ?thesis by (simp add: PushStats_def push_def)
next
  case (Some a)
  let ?h = "u_hubs w ! a"
  have a: "a < length (u_hubs w)" and o: "map_order (hb_clients ?h) (ul_hub_keys lib ?h)"
    using assms Some by (auto simp: hubs_ok_def)
  from a have "?h \<in> set (u_hubs w)" by simp
  with assms obtain es where inv: "hub_inv es ?h" by (auto simp: hubs_ok_def)
  obtain h' where h': "hub_do (Broadcast msg (ul_hub_keys lib ?h)) ?h = Some (Inr h')"
    using Broadcast_ok [OF inv o, of msg] o by auto
  with hub_do_ok [OF inv h'] obtain es' where "hub_inv es' h'" by auto
  with assms a have "hubs_ok lib (w\<lparr>u_hubs := (u_hubs w)[a := h']\<rparr>)"
    by (auto simp: hubs_ok_def dest!: set_update_subset_insert [THEN subsetD])
  with Some h' show ?thesis by (simp add: PushStats_def push_def Let_def)
qed

lemma push_json_ok:
  assumes "\<forall>w. srvUI = Some w \<longrightarrow> hubs_ok lib w"
  shows "\<exists>ui. push_json lib json srvUI = Inr ui \<and> (\<forall>w. ui = Some w \<longrightarrow> hubs_ok lib w)"
proof (cases json)
  case (Inr s)
  with assms show ?thesis
    using PushStats_ok [of lib "the srvUI" s] by (cases srvUI) (auto simp: push_json_def)
qed (use assms in \<open>simp add: push_json_def\<close>)

text \<open>C8. A pass of the broadcast worker over a cluster in which no report is undecodable always
  completes, and afterwards, provided they can be encoded, every reachable client's node has, under
  this node's address, exactly the statistics this node has now, which agree with its metrics. A node
  is reachable if it can be dialled and has this node's host among its sync clients; the other nodes
  and everything else of the peers stay as they were, and the totals pushed are those of the cluster.\<close>

theorem broadcastStats_shares:
  assumes "ossh_inv split c o0" and "\<forall>w. srvUI = Some w \<longrightarrow> hubs_ok lib w"
    and "codec_ok g" and "sums_ok g" and "stats_json_ok g jsonStats"
    and "nodes_inv sn" and "\<And>m. map_order m (order m)" and "\<And>sn. map_order (n_clients sn) (ks sn)"
    and "\<forall>k. k \<noteq> ''_'' \<longrightarrow> gm_get k (n_stats sn) \<noteq> Some None"
  shows "\<exists>hs o1 ui sn1 W1.
    broadcastStats lib g (cluster_net g ord cf host garbage dial) jsonTotal jsonStats order ks i o0 srvUI sn W =
      Some (Inr ui, o1, sn1, W1) \<and>
    ossh_inv split c o1 \<and> nodes_inv sn1 \<and> (\<forall>w. ui = Some w \<longrightarrow> hubs_ok lib w) \<and>
    stats_now i o0 = Some (hs, o1) \<and> ns_Sessions hs = sint (l_activeSessions (o_metrics o1)) \<and>
    (\<exists>tot. push_json lib (jsonTotal tot) srvUI = Inr ui \<and>
      tot = cluster_totals (stats_of (n_stats sn1)) {k. gm_has k (n_stats sn1)} \<and>
      gm_get ''_'' (n_stats sn1) = Some (Some hs)) \<and>
    (\<forall>p. W1 p = (if HasClient p sn \<and> reached host dial W p \<and> (\<exists>s. jsonStats hs = Inr s)
      then (W p)\<lparr>y_nodes := AddStats host (Some hs) (y_nodes (W p))\<rparr> else W p))"
proof -
  obtain hs o1 where st: "stats_now i o0 = Some (hs, o1)" "ossh_inv split c o1"
    "ns_Sessions hs = sint (l_activeSessions (o_metrics o1))"
    using server_stats_ok [OF assms(1), of "uptime_seconds i" "si_ks i" "si_js i" "si_ss i" "si_fs i"]
    by (auto simp: stats_now_def)
  let ?m = "gm_put ''_'' (Some hs) (n_stats sn)"
  let ?sn = "sn\<lparr>n_stats := ?m\<rparr>"
  let ?tot = "cluster_totals (stats_of ?m) {k. gm_has k ?m}"
  have nn: "\<not> (\<exists>k. k \<noteq> ''_'' \<and> gm_get k (n_stats sn) = Some None)" using assms(9) by blast
  have gs: "GetStats g order hs sn = (Inr ?tot, ?sn)"
    using GetStats_totals [OF assms(4,6,7) refl, of hs] unfolding if_not_P [OF nn]
    by (simp add: GetStats_def Let_def)
  have inv: "nodes_inv ?sn" using assms(6) by (simp add: nodes_inv_def gm.inv_put)
  have has: "HasClient p ?sn = HasClient p sn" for p by (simp add: HasClient_def)
  obtain ui where ui: "push_json lib (jsonTotal ?tot) srvUI = Inr ui" "\<forall>w. ui = Some w \<longrightarrow> hubs_ok lib w"
    using push_json_ok [OF assms(2), of "jsonTotal ?tot"] by blast
  have ord: "set (ks ?sn) = {p. HasClient p sn}" "distinct (ks ?sn)"
    using map_order_set [OF assms(8) [of ?sn]] map_order_distinct [OF _ assms(8) [of ?sn]] inv
    by (simp_all add: HasClient_def nodes_inv_def)
  have "\<exists>sn1 W1. broadcastStats lib g (cluster_net g ord cf host garbage dial) jsonTotal jsonStats order ks i o0 srvUI sn W =
      Some (Inr ui, o1, sn1, W1) \<and> nodes_inv sn1 \<and> n_stats sn1 = ?m \<and>
      (\<forall>p. W1 p = (if HasClient p sn \<and> reached host dial W p \<and> (\<exists>s. jsonStats hs = Inr s)
        then (W p)\<lparr>y_nodes := AddStats host (Some hs) (y_nodes (W p))\<rparr> else W p))"
  proof (cases "jsonStats hs")
    case (Inl e)
    then show ?thesis using inv unfolding broadcastStats_def st(1) option.case prod.case gs sum.case ui(1) by auto
  next
    case (Inr s)
    then have dec: "gu_jsonStats g s = Some hs" "s \<noteq> []" "last s = CHR ''}''" "line_fits g (''ADD-STATS '' @ s)"
      using assms(5) by (auto simp: stats_json_ok_def)
    obtain res sn1 where b: "ExecBroadcast g (cluster_net g ord cf host garbage dial) (''ADD-STATS '' @ s) (ks ?sn) (?sn, W) =
        (res, sn1, \<lambda>p. if p \<in> set (ks ?sn) \<and> HasClient p ?sn \<and> reached host dial W p then learn g host s (W p) else W p)"
      "nodes_inv sn1" "n_stats sn1 = ?m"
      using ExecBroadcast_stats [OF assms(3) dec(2-4) ord(2) inv, of ord cf host garbage dial W] by auto
    show ?thesis
      unfolding broadcastStats_def st(1) option.case prod.case gs sum.case ui(1) Inr SS_Broadcast_def b(1)
      using b(2,3) by (auto simp: ord(1) has learn_def dec(1))
  qed
  moreover have "gm_get ''_'' ?m = Some (Some hs)" by (simp add: gm.get_put)
  ultimately show ?thesis using st ui by metis
qed

definition sample_stats :: node_stats where
  "sample_stats = zero_stats\<lparr>ns_Uptime := 7\<rparr>"

definition sample_stats_input :: stats_input where
  "sample_stats_input = \<lparr>si_startTime = 3000000000, si_now = 9600000000, si_ks = [], si_js = [], si_ss = [], si_fs = []\<rparr>"

definition sample_stats_gutils :: gutils where
  "sample_stats_gutils =
     sample_gutils\<lparr>gu_jsonStats := (\<lambda>s. if s = ''{}'' then Some sample_stats else None)\<rparr>"

definition sample_stats_json :: "node_stats \<Rightarrow> string + string" where
  "sample_stats_json st = (if st = sample_stats then Inr ''{}'' else Inl ''unsupported value'')"

definition sample_cluster :: sync_nodes where
  "sample_cluster = SS_AddClient sample_conf ''10.0.0.2'' 1337 NewSyncNodes"

lemma sample_stats_now: "fst (the (stats_now sample_stats_input sample_ossh)) = sample_stats"
  unfolding sample_stats_def sample_stats_input_def by code_simp

theorem broadcastStats_shares_witness:
  "\<exists>ui o1 sn1 W1. broadcastStats sample_ui_lib sample_stats_gutils
      (cluster_net sample_stats_gutils sample_orders (\<lambda>p. sample_conf) ''10.0.0.3'' ''???'' (\<lambda>p. None))
      sample_stats_json sample_stats_json gm_keys (\<lambda>sn. gm_keys (n_clients sn)) sample_stats_input
      sample_ossh None sample_cluster (\<lambda>p. sample_peer) = Some (Inr ui, o1, sn1, W1) \<and>
    gm_get ''10.0.0.3'' (n_stats (y_nodes (W1 ''10.0.0.2:1337''))) = Some (Some sample_stats)"
proof -
  have g: "codec_ok sample_stats_gutils" "sums_ok sample_stats_gutils"
    using sample_gutils_ok by (simp_all add: gutils_ok_def sample_stats_gutils_def codec_ok_def sums_ok_def)
  have j: "stats_json_ok sample_stats_gutils sample_stats_json"
    using sample_fits [of "''ADD-STATS {}''"]
    by (auto simp: stats_json_ok_def sample_stats_json_def sample_stats_gutils_def line_fits_def
        sc_line_def split: if_splits)
  have inv: "nodes_inv sample_cluster"
    using peers.inv_add [OF NewSyncNodes_inv, of sample_conf "(''10.0.0.2'', 1337)"]
    by (simp add: sample_cluster_def)
  have st: "\<forall>k. k \<noteq> ''_'' \<longrightarrow> gm_get k (n_stats sample_cluster) \<noteq> Some None"
    by (simp add: sample_cluster_def SS_AddClient_def AddClient_def NewSyncNodes_def gm_get_def)
  have id: "host_port ''10.0.0.2'' 1337 = ''10.0.0.2:1337''" by code_simp
  have has: "HasClient ''10.0.0.2:1337'' sample_cluster"
    using peers.has_add [OF NewSyncNodes_inv, of "(''10.0.0.2'', 1337)" sample_conf "(''10.0.0.2'', 1337)"]
    by (simp add: sample_cluster_def id sample_conf_def)
  have u: "\<forall>w. (None :: ui_world option) = Some w \<longrightarrow> hubs_ok sample_ui_lib w" by simp
  from broadcastStats_shares [OF sample_ossh_inv u g j inv map_order_keys map_order_keys st, where
      ord = sample_orders and cf = "\<lambda>p. sample_conf" and host = "''10.0.0.3''" and garbage = "''???''" and dial = "\<lambda>p. None" and
      jsonTotal = sample_stats_json and i = sample_stats_input and W = "\<lambda>p. sample_peer"]
  obtain hs o1 ui sn1 W1 where r: "broadcastStats sample_ui_lib sample_stats_gutils
      (cluster_net sample_stats_gutils sample_orders (\<lambda>p. sample_conf) ''10.0.0.3'' ''???'' (\<lambda>p. None))
      sample_stats_json sample_stats_json gm_keys (\<lambda>sn. gm_keys (n_clients sn)) sample_stats_input
      sample_ossh None sample_cluster (\<lambda>p. sample_peer) = Some (Inr ui, o1, sn1, W1)"
    "stats_now sample_stats_input sample_ossh = Some (hs, o1)"
    "\<forall>p. W1 p = (if HasClient p sample_cluster \<and> reached ''10.0.0.3'' (\<lambda>p. None) (\<lambda>p. sample_peer) p \<and>
        (\<exists>s. sample_stats_json hs = Inr s)
      then sample_peer\<lparr>y_nodes := AddStats ''10.0.0.3'' (Some hs) (y_nodes sample_peer)\<rparr> else sample_peer)"
    by blast
  have "hs = sample_stats" using sample_stats_now r(2) by simp
  moreover have "reached ''10.0.0.3'' (\<lambda>p. None) (\<lambda>p. sample_peer) p" for p
    using sample_peer_serves by (simp add: reached_def serves_def)
  ultimately show ?thesis
    using r has by (auto simp: sample_stats_json_def AddStats_def gm.get_put)
qed

end
