(* ===== verification/Template_Functions.thy ===== *)
theory Template_Functions
  imports Templater
begin

text \<open>
  The functions templates can call: the two tables that \<^verbatim>\<open>InitTemplaterFunctions\<close> and
  \<^verbatim>\<open>InitTemplaterFunctionsHTML\<close> build. A call gives a value, an error of the function, or a panic (which
  the template engine turns into an error). Arithmetic on \<^verbatim>\<open>float64\<close>, hashes, regular expressions and
  Unicode case are arguments.
\<close>

section \<open>Values, types and signatures\<close>

datatype 'f tval =
    VString string
  | VInt int
  | VFloat 'f
  | VHTML string
  | VJS string
  | VMap "(string, 'f tval) gomap"
  | VOther

datatype gotype = GString | GInt | GFloat | GHTML | GJS | GMap | GAny

text \<open>\<open>tl_float\<close> is the number of \<^verbatim>\<open>gutils.GetFloat\<close>, whose error the code drops; \<open>tl_replace\<close> is \<^term>\<open>None\<close> when
  the expression does not compile; \<open>tl_template\<close> is what \<^verbatim>\<open>ParseTemplate\<close> writes.\<close>

record 'f tlib =
  tl_sub :: "'f \<Rightarrow> 'f \<Rightarrow> 'f"
  tl_add :: "'f \<Rightarrow> 'f \<Rightarrow> 'f"
  tl_div :: "'f \<Rightarrow> 'f \<Rightarrow> 'f"
  tl_mul :: "'f \<Rightarrow> 'f \<Rightarrow> 'f"
  tl_float :: "'f tval \<Rightarrow> 'f"
  tl_sha1 :: "string \<Rightarrow> string"
  tl_sha256 :: "string \<Rightarrow> string"
  tl_replace :: "string \<Rightarrow> string \<Rightarrow> string \<Rightarrow> string option"
  tl_lower :: "string \<Rightarrow> string"
  tl_upper :: "string \<Rightarrow> string"
  tl_now :: int
  tl_template :: "string \<Rightarrow> 'f tval \<Rightarrow> string"

datatype call_error =
    NoFunction
  | BadArguments
  | CallError string
  | CallPanic

section \<open>The functions\<close>

fun dict_pairs :: "'f tval list \<Rightarrow> (string, 'f tval) gomap \<Rightarrow> string + (string, 'f tval) gomap" where
  "dict_pairs (VString k # v # vs) m = dict_pairs vs (gm_put k v m)"
| "dict_pairs (k # v # vs) m = Inl ''dict keys must be strings''"
| "dict_pairs [k] m = Inr m"
| "dict_pairs [] m = Inr m"

definition tf_dict :: "'f tval list \<Rightarrow> string + (string, 'f tval) gomap" where
  "tf_dict vs = (if length vs mod 2 \<noteq> 0 then Inl ''invalid dict call'' else dict_pairs vs gm_empty)"

definition tf_trim :: "string \<Rightarrow> string" where
  "tf_trim s = Trim s blanks"

definition tf_concat :: "string \<Rightarrow> string \<Rightarrow> string" where
  "tf_concat a b = a @ b"

definition tf_time :: "int \<Rightarrow> string \<Rightarrow> string \<Rightarrow> string" where
  "tf_time now pre suf = pre @ int_dec now @ suf"

definition tf_subint :: "int \<Rightarrow> int \<Rightarrow> int" where
  "tf_subint a b = wrap64 (a - b)"

definition tf_nl :: string where
  "tf_nl = [newline]"

definition tf_nbsp :: "string \<Rightarrow> string" where
  "tf_nbsp s = Join ''&nbsp;'' (Split (CHR '' '') s)"

definition tf_add :: "'f tlib \<Rightarrow> 'f tval \<Rightarrow> 'f tval \<Rightarrow> 'f" where
  "tf_add lib a b = tl_add lib (tl_float lib a) (tl_float lib b)"

text \<open>\<^verbatim>\<open>template_string\<close> ignores the error and drops the line breaks of what was written.\<close>

definition tf_template_string :: "'f tlib \<Rightarrow> string \<Rightarrow> 'f tval \<Rightarrow> string" where
  "tf_template_string lib name data =
     filter (\<lambda>x. x \<noteq> newline) (Trim (tl_template lib name data) (blanks @ [CHR 0x09]))"

section \<open>Closures\<close>

text \<open>The shapes of arguments the closures take.\<close>

definition str1 :: "(string \<Rightarrow> 'f tval) \<Rightarrow> 'f tval list \<Rightarrow> call_error + 'f tval" where
  "str1 f vs = (case vs of [VString s] \<Rightarrow> Inr (f s) | _ \<Rightarrow> Inl BadArguments)"

definition str2 :: "(string \<Rightarrow> string \<Rightarrow> string) \<Rightarrow> 'f tval list \<Rightarrow> call_error + 'f tval" where
  "str2 f vs = (case vs of [VString s, VString t] \<Rightarrow> Inr (VString (f s t)) | _ \<Rightarrow> Inl BadArguments)"

definition float2 :: "('f \<Rightarrow> 'f \<Rightarrow> 'f) \<Rightarrow> 'f tval list \<Rightarrow> call_error + 'f tval" where
  "float2 f vs = (case vs of [VFloat x, VFloat y] \<Rightarrow> Inr (VFloat (f x y)) | _ \<Rightarrow> Inl BadArguments)"

definition run_replace :: "'f tlib \<Rightarrow> 'f tval list \<Rightarrow> call_error + 'f tval" where
  "run_replace lib vs =
     (case vs of
        [VString s, VString re, VString repl] \<Rightarrow>
          (case tl_replace lib s re repl of None \<Rightarrow> Inl CallPanic | Some t \<Rightarrow> Inr (VString t))
      | _ \<Rightarrow> Inl BadArguments)"

definition run_dict :: "'f tval list \<Rightarrow> call_error + 'f tval" where
  "run_dict vs = (case tf_dict vs of Inl e \<Rightarrow> Inl (CallError e) | Inr m \<Rightarrow> Inr (VMap m))"

definition run_template_string :: "'f tlib \<Rightarrow> 'f tval list \<Rightarrow> call_error + 'f tval" where
  "run_template_string lib vs =
     (case vs of [VString n, v] \<Rightarrow> Inr (VString (tf_template_string lib n v)) | _ \<Rightarrow> Inl BadArguments)"

definition run_add :: "'f tlib \<Rightarrow> 'f tval list \<Rightarrow> call_error + 'f tval" where
  "run_add lib vs = (case vs of [a, b] \<Rightarrow> Inr (VFloat (tf_add lib a b)) | _ \<Rightarrow> Inl BadArguments)"

definition run_subint :: "'f tval list \<Rightarrow> call_error + 'f tval" where
  "run_subint vs = (case vs of [VInt x, VInt y] \<Rightarrow> Inr (VInt (tf_subint x y)) | _ \<Rightarrow> Inl BadArguments)"

definition run_nl :: "'f tval list \<Rightarrow> call_error + 'f tval" where
  "run_nl vs = (case vs of [] \<Rightarrow> Inr (VString tf_nl) | _ \<Rightarrow> Inl BadArguments)"

text \<open>\<^verbatim>\<open>dump\<close> writes to the standard output.\<close>

definition run_dump :: "'f tval list \<Rightarrow> call_error + 'f tval" where
  "run_dump vs = (case vs of [v] \<Rightarrow> Inr (VString []) | _ \<Rightarrow> Inl BadArguments)"

definition run_js :: "'f tval list \<Rightarrow> call_error + 'f tval" where
  "run_js vs = (case vs of [VJS s] \<Rightarrow> Inr (VString s) | _ \<Rightarrow> Inl BadArguments)"

section \<open>The tables\<close>

text \<open>Name, parameter types (\<^term>\<open>None\<close>: any number of any type), result type and closure. The first list
  is what both tables have, with the same closures.\<close>

type_synonym 'f func_map =
  "(string \<times> gotype list option \<times> gotype \<times> ('f tval list \<Rightarrow> call_error + 'f tval)) list"

definition common_functions :: "'f tlib \<Rightarrow> 'f func_map" where
  "common_functions lib =
     [(''sub'', Some [GFloat, GFloat], GFloat, float2 (tl_sub lib)),
      (''add'', Some [GAny, GAny], GFloat, run_add lib),
      (''div'', Some [GFloat, GFloat], GFloat, float2 (tl_div lib)),
      (''mul'', Some [GFloat, GFloat], GFloat, float2 (tl_mul lib)),
      (''sha256'', Some [GString], GString, str1 (\<lambda>s. VString (tl_sha256 lib s))),
      (''replace'', Some [GString, GString, GString], GString, run_replace lib),
      (''lower'', Some [GString], GString, str1 (\<lambda>s. VString (tl_lower lib s))),
      (''upper'', Some [GString], GString, str1 (\<lambda>s. VString (tl_upper lib s))),
      (''trim'', Some [GString], GString, str1 (\<lambda>s. VString (tf_trim s))),
      (''time'', Some [GString, GString], GString, str2 (tf_time (tl_now lib))),
      (''concat'', Some [GString, GString], GString, str2 tf_concat),
      (''dict'', None, GMap, run_dict),
      (''dump'', Some [GAny], GString, run_dump),
      (''template_string'', Some [GString, GAny], GString, run_template_string lib)]"

definition templateFunctions :: "'f tlib \<Rightarrow> 'f func_map" where
  "templateFunctions lib =
     [(''nl'', Some [], GString, run_nl),
      (''subint'', Some [GInt, GInt], GInt, run_subint),
      (''sha1'', Some [GString], GString, str1 (\<lambda>s. VString (tl_sha1 lib s)))] @ common_functions lib"

definition templateFunctionsHTML :: "'f tlib \<Rightarrow> 'f func_map" where
  "templateFunctionsHTML lib =
     [(''nbsp'', Some [GString], GHTML, str1 (\<lambda>s. VHTML (tf_nbsp s))),
      (''raw'', Some [GString], GHTML, str1 VHTML),
      (''rawjs'', Some [GString], GJS, str1 VJS),
      (''rawjs2str'', Some [GJS], GString, run_js)] @ common_functions lib"

text \<open>A call from a template: the function must be in the table of the engine.\<close>

definition call_function :: "'f func_map \<Rightarrow> string \<Rightarrow> 'f tval list \<Rightarrow> call_error + 'f tval" where
  "call_function table name vs =
     (case map_of table name of None \<Rightarrow> Inl NoFunction | Some (ps, res, f) \<Rightarrow> f vs)"

section \<open>Dictionaries\<close>

text \<open>\<open>last_value vs k v\<close>: the last of the even positions that hold the string \<open>k\<close> is followed by \<open>v\<close>.\<close>

definition key_at :: "'f tval list \<Rightarrow> string \<Rightarrow> nat \<Rightarrow> bool" where
  "key_at vs k i \<longleftrightarrow> i < length vs \<and> even i \<and> vs ! i = VString k"

definition last_value :: "'f tval list \<Rightarrow> string \<Rightarrow> 'f tval \<Rightarrow> bool" where
  "last_value vs k v \<longleftrightarrow> (\<exists>i. key_at vs k i \<and> vs ! Suc i = v \<and> (\<forall>j > i. \<not> key_at vs k j))"

lemma key_at_Cons2 [simp]:
  "key_at (a # w # vs) k 0 \<longleftrightarrow> a = VString k" "\<not> key_at (a # w # vs) k (Suc 0)"
  "key_at (a # w # vs) k (Suc (Suc i)) \<longleftrightarrow> key_at vs k i"
  by (auto simp: key_at_def)

lemma all_above_Cons2: "(\<forall>j > Suc (Suc i). \<not> key_at (a # w # vs) k j) \<longleftrightarrow> (\<forall>j > i. \<not> key_at vs k j)"
proof -
  have "(\<forall>j > Suc (Suc i). \<not> key_at (a # w # vs) k j) \<longleftrightarrow> (\<forall>j. i < j \<longrightarrow> \<not> key_at (a # w # vs) k (Suc (Suc j)))"
    by (metis Suc_less_eq less_imp_Suc_add)
  then show ?thesis by simp
qed

lemma all_above_0_Cons2: "(\<forall>j > 0. \<not> key_at (a # w # vs) k j) \<longleftrightarrow> (\<forall>j. \<not> key_at vs k j)"
  by (metis key_at_Cons2(2,3) not0_implies_Suc zero_less_Suc less_numeral_extra(3))

lemma last_value_Cons2:
  "last_value (a # w # vs) k v \<longleftrightarrow>
     last_value vs k v \<or> ((\<forall>j. \<not> key_at vs k j) \<and> a = VString k \<and> w = v)" (is "?L \<longleftrightarrow> ?R")
proof
  assume ?L
  then obtain i where i: "key_at (a # w # vs) k i" "(a # w # vs) ! Suc i = v"
      "\<forall>j > i. \<not> key_at (a # w # vs) k j"
    by (auto simp: last_value_def)
  show ?R
  proof (cases i)
    case 0
    with i show ?thesis by (simp add: all_above_0_Cons2)
  next
    case (Suc n)
    with i(1) obtain m where m: "i = Suc (Suc m)" by (cases n) auto
    with i show ?thesis unfolding last_value_def all_above_Cons2 m by auto
  qed
next
  assume ?R
  then show ?L
  proof
    assume "last_value vs k v"
    then obtain i where "key_at vs k i" "vs ! Suc i = v" "\<forall>j > i. \<not> key_at vs k j"
      by (auto simp: last_value_def)
    then show ?L unfolding last_value_def
      by (intro exI [of _ "Suc (Suc i)"]) (simp add: all_above_Cons2)
  next
    assume "(\<forall>j. \<not> key_at vs k j) \<and> a = VString k \<and> w = v"
    then show ?L unfolding last_value_def by (intro exI [of _ 0]) (simp add: all_above_0_Cons2)
  qed
qed

lemma last_value_key: "last_value vs k v \<Longrightarrow> \<exists>j. key_at vs k j"
  by (auto simp: last_value_def)

lemma key_last_value: "key_at vs k j \<Longrightarrow> \<exists>v. last_value vs k v"
proof (induction vs arbitrary: j rule: induct_list012)
  case (3 a w vs)
  show ?case
  proof (cases "\<exists>j. key_at vs k j")
    case True
    with "3.IH"(1) show ?thesis by (auto simp: last_value_Cons2)
  next
    case False
    with "3.prems" show ?thesis
      by (cases j; cases "j - 1") (auto simp: last_value_Cons2)
  qed
qed (auto simp: key_at_def last_value_def)

definition all_keys :: "'f tval list \<Rightarrow> bool" where
  "all_keys vs \<longleftrightarrow> (\<forall>i < length vs. even i \<longrightarrow> (\<exists>k. vs ! i = VString k))"

lemma all_keys_Cons2 [simp]: "all_keys (a # w # vs) \<longleftrightarrow> (\<exists>k. a = VString k) \<and> all_keys vs"
proof -
  have "(\<forall>i < Suc (Suc n). P i) \<longleftrightarrow> P 0 \<and> P 1 \<and> (\<forall>i < n. P (Suc (Suc i)))" for n and P :: "nat \<Rightarrow> bool"
    by (metis One_nat_def Suc_less_eq less_Suc_eq_0_disj)
  then show ?thesis by (simp add: all_keys_def)
qed

lemma dict_pairs_spec:
  "even (length vs) \<Longrightarrow> gm_inv m \<Longrightarrow>
     (if all_keys vs
      then \<exists>m'. dict_pairs vs m = Inr m' \<and> gm_inv m' \<and> (\<forall>k v. gm_get k m' = Some v \<longleftrightarrow>
        last_value vs k v \<or> ((\<forall>j. \<not> key_at vs k j) \<and> gm_get k m = Some v))
      else dict_pairs vs m = Inl ''dict keys must be strings'')"
proof (induction vs m rule: dict_pairs.induct)
  case (1 x v vs m)
  have k: "(\<forall>j. \<not> key_at (VString x # v # vs) k j) \<longleftrightarrow> k \<noteq> x \<and> (\<forall>j. \<not> key_at vs k j)" for k
    by (metis key_at_Cons2 not0_implies_Suc tval.inject(1))
  have "gm_inv (gm_put x v m)" and "even (length vs)" using 1 by (simp_all add: gm.inv_put)
  with "1.IH" show ?case
    unfolding last_value_Cons2 k by (auto simp: gm.get_put)
qed (auto simp: key_at_def last_value_def all_keys_def)

text \<open>A cut set of single bytes.\<close>

lemma strip_one_bytes:
  "strip_one (map (\<lambda>c. [c]) cs) s = (case s of [] \<Rightarrow> None | c # t \<Rightarrow> if c \<in> set cs then Some t else None)"
  by (induction cs) (auto split: list.split)

lemma strip_all_bytes: "strip_all (map (\<lambda>c. [c]) cs) s = dropWhile (\<lambda>c. c \<in> set cs) s"
  by (induction s) (simp_all add: strip_all.simps strip_one_bytes)

lemma Trim_split:
  "\<exists>a b. s = a @ Trim s cs @ b \<and> set a \<union> set b \<subseteq> set cs \<and>
     (Trim s cs = [] \<or> hd (Trim s cs) \<notin> set cs \<and> last (Trim s cs) \<notin> set cs)"
proof -
  let ?P = "\<lambda>c. c \<in> set cs"
  let ?l = "dropWhile ?P s" and ?b = "rev (takeWhile ?P (rev (dropWhile ?P s)))"
  have t: "Trim s cs = rev (dropWhile ?P (rev ?l))" by (simp add: Trim_def strip_all_bytes)
  have l: "?l = Trim s cs @ ?b"
    unfolding t by (metis rev_append rev_rev_ident takeWhile_dropWhile_id)
  have "hd (Trim s cs) \<notin> set cs \<and> last (Trim s cs) \<notin> set cs" if "Trim s cs \<noteq> []"
  proof
    have "?l \<noteq> []" "hd ?l = hd (Trim s cs)" using that l by (metis append_is_Nil_conv, metis hd_append2)
    then show "hd (Trim s cs) \<notin> set cs" using hd_dropWhile [of ?P s] by metis
    have "dropWhile ?P (rev ?l) \<noteq> []" using that t by simp
    then show "last (Trim s cs) \<notin> set cs" using hd_dropWhile [of ?P "rev ?l"] by (simp add: t last_rev)
  qed
  moreover have "s = takeWhile ?P s @ Trim s cs @ ?b" using l by (metis takeWhile_dropWhile_id)
  moreover have "set (takeWhile ?P s) \<union> set ?b \<subseteq> set cs" by (auto dest: set_takeWhileD)
  ultimately show ?thesis by blast
qed

lemma dict_entry:
  "table \<in> {templateFunctions lib, templateFunctionsHTML lib} \<Longrightarrow>
     call_function table ''dict'' = run_dict \<and> call_function table ''trim'' = str1 (\<lambda>s. VString (tf_trim s))"
  by (auto simp: call_function_def fun_eq_iff templateFunctions_def templateFunctionsHTML_def
      common_functions_def)

text \<open>C12. In both tables of template functions, \<^verbatim>\<open>dict\<close> refuses an odd number of arguments, then any
  argument at an even position (counted from 0) that is no string; otherwise it returns a map that
  has exactly the strings at the even positions as keys, each with the value after its last
  occurrence. \<^verbatim>\<open>trim\<close> cuts the blanks off both ends of a text and nothing else.\<close>

theorem template_functions_spec:
  assumes "table \<in> {templateFunctions lib, templateFunctionsHTML lib}"
  shows "(if odd (length vs) then call_function table ''dict'' vs = Inl (CallError ''invalid dict call'')
     else if \<exists>i < length vs. even i \<and> (\<forall>k. vs ! i \<noteq> VString k)
       then call_function table ''dict'' vs = Inl (CallError ''dict keys must be strings'')
     else \<exists>m. call_function table ''dict'' vs = Inr (VMap m) \<and> gm_inv m \<and>
       (\<forall>k v. gm_get k m = Some v \<longleftrightarrow>
         (\<exists>i < length vs. even i \<and> vs ! i = VString k \<and> vs ! Suc i = v \<and>
           (\<forall>j < length vs. i < j \<and> even j \<longrightarrow> vs ! j \<noteq> VString k)))) \<and>
    (\<exists>a t b. s = a @ t @ b \<and> call_function table ''trim'' [VString s] = Inr (VString t) \<and>
      set a \<union> set b \<subseteq> {CHR '' '', CHR 0x0D, CHR 0x0A} \<and>
      (t = [] \<or> hd t \<notin> {CHR '' '', CHR 0x0D, CHR 0x0A} \<and> last t \<notin> {CHR '' '', CHR 0x0D, CHR 0x0A}))"
proof (rule conjI, goal_cases)
  case 1
  show ?case
  proof (cases "even (length vs)")
    case True
    have lv: "last_value vs k v \<longleftrightarrow> (\<exists>i < length vs. even i \<and> vs ! i = VString k \<and> vs ! Suc i = v \<and>
           (\<forall>j < length vs. i < j \<and> even j \<longrightarrow> vs ! j \<noteq> VString k))" for k v
      by (auto simp: last_value_def key_at_def)
    have e: "gm_get k gm_empty = None" for k :: string by (simp add: gm_get_def)
    show ?thesis
      using True dict_pairs_spec [of vs gm_empty] dict_entry [OF assms]
      by (auto simp: run_dict_def tf_dict_def lv [symmetric] e all_keys_def gm_inv_def)
  next
    case False
    then show ?thesis using dict_entry [OF assms]
      by (simp add: run_dict_def tf_dict_def even_iff_mod_2_eq_zero)
  qed
next
  case 2
  show ?case
    using dict_entry [OF assms] Trim_split [of s blanks]
    by (auto simp: str1_def tf_trim_def blanks_def)
qed

definition sample_tlib :: "int tlib" where
  "sample_tlib =
     \<lparr>tl_sub = (-), tl_add = (+), tl_div = (div), tl_mul = (*), tl_float = (\<lambda>v. 0),
      tl_sha1 = (\<lambda>s. s), tl_sha256 = (\<lambda>s. s), tl_replace = (\<lambda>s re t. None), tl_lower = (\<lambda>s. s),
      tl_upper = (\<lambda>s. s), tl_now = 0, tl_template = (\<lambda>n v. [])\<rparr>"

theorem template_functions_spec_witness:
  "\<exists>m. call_function (templateFunctionsHTML sample_tlib) ''dict''
       [VString ''k'', VInt 1, VString ''k'', VInt 2] = Inr (VMap m) \<and> gm_get ''k'' m = Some (VInt 2)"
proof -
  let ?vs = "[VString ''k'', VInt 1, VString ''k'', VInt 2] :: int tval list" and ?t = "templateFunctionsHTML sample_tlib"
  have n: "\<not> (\<exists>i < length ?vs. even i \<and> (\<forall>k. ?vs ! i \<noteq> VString k))" and o: "\<not> odd (length ?vs)"
    by (auto simp: less_Suc_eq nth_Cons')
  have k: "\<exists>i < length ?vs. even i \<and> ?vs ! i = VString ''k'' \<and> ?vs ! Suc i = VInt 2 \<and>
      (\<forall>j < length ?vs. i < j \<and> even j \<longrightarrow> ?vs ! j \<noteq> VString ''k'')"
    by (intro exI [of _ 2]) (auto simp: less_Suc_eq)
  have "?t \<in> {templateFunctions sample_tlib, ?t}" by simp
  from conjunct1 [OF template_functions_spec [OF this, of ?vs "[]"], unfolded if_not_P [OF o] if_not_P [OF n]]
  obtain m where "call_function ?t ''dict'' ?vs = Inr (VMap m)"
      "\<forall>k v. gm_get k m = Some v \<longleftrightarrow> (\<exists>i < length ?vs. even i \<and> ?vs ! i = VString k \<and> ?vs ! Suc i = v \<and>
        (\<forall>j < length ?vs. i < j \<and> even j \<longrightarrow> ?vs ! j \<noteq> VString k))"
    by (elim exE conjE) (rule that)
  with k show ?thesis by blast
qed

end
