(* ===== verification/Program.thy ===== *)
theory Program
  imports OSSH_Start Workers Template_Functions
begin

text \<open>
  The whole program: \<^verbatim>\<open>main.go\<close>, the start of the sync server and how the parts are put together. What
  the operating system and the libraries do is the environment, an argument of \<open>main\<close>.
\<close>

section \<open>Start of the sync server\<close>

text \<open>\<^verbatim>\<open>SyncServer.Start\<close>: the clients of the configuration, then the listener, whose error is a panic. The
  goroutines it starts are the sync worker, the connection handler and the clean-up.\<close>

definition SS_Start ::
  "(string \<Rightarrow> string option) \<Rightarrow> (sync_nodes \<Rightarrow> string list) \<Rightarrow> conf \<Rightarrow> sync_nodes \<Rightarrow>
   go_panic option \<times> conf \<times> sync_nodes" where
  "SS_Start listen ks c sn =
     (case UpdateClients (ks sn) c sn of
        (Some p, c1, sn1) \<Rightarrow> (Some p, c1, sn1)
      | (None, c1, sn1) \<Rightarrow>
          (case listen (host_port (c_SyncHost c1) (c_SyncPort c1)) of
             Some e \<Rightarrow> (Some (PanicValue e), c1, sn1)
           | None \<Rightarrow> (None, c1, sn1)))"

section \<open>main\<close>

record 'y env =
  e_ui :: "'y ui_lib"
  e_dirExists :: "fsys \<Rightarrow> string \<Rightarrow> bool"
  e_mount :: "string \<Rightarrow> string \<Rightarrow> fsys \<Rightarrow> string + fsys"
  e_embedded :: "(string \<times> node) list"
  e_listen :: "string \<Rightarrow> string option"
  e_now :: int

text \<open>The variables of \<^verbatim>\<open>main.go\<close> after the start: the SSH server with its file system and addresses, the
  configuration with the sync nodes, and the web interface if there is one.\<close>

record program =
  pg_ossh :: ossh
  pg_fs :: fake_fs
  pg_manager :: fs_manager
  pg_addrs :: "string list"
  pg_cfg :: cfg_state
  pg_ui :: "ui_world option"

datatype exit = Panicked go_panic | Exited int

definition zero_conf :: conf where
  "zero_conf =
     \<lparr>c_PathData = [], c_PathPayloads = [], c_PathPasswords = [], c_PathUsers = [], c_PathHosts = [],
      c_PathCommands = [], c_PathWebinterface = [], c_PathCaptures = [], c_PathFFS = [], c_HostName = [],
      c_IPWhitelist = [], c_Servers = [], c_MaxSessionAge = 0, c_InputDelay = 0, c_Ratelimit = 0,
      c_WebEnabled = False, c_WebHost = [], c_WebPort = 0, c_WebCertFile = [], c_WebKeyFile = [],
      c_SyncHost = [], c_SyncPort = 0, c_SyncNodes = [],
      c_Commands = \<lparr>cc_Rewriters = [], cc_Simple = [], cc_Exit = [], cc_PermissionDenied = [],
        cc_DiskError = [], cc_CommandNotFound = [], cc_FileNotFound = [], cc_NotImplemented = [],
        cc_Bullshit = []\<rparr>\<rparr>"

definition initial_cfg :: "string list \<Rightarrow> fsys \<Rightarrow> cfg_state" where
  "initial_cfg args d =
     \<lparr>g_conf = zero_conf, g_cfgFile = (if length args = 2 then args ! 1 else []), g_used = [],
      g_nodes = NewSyncNodes, g_disk = d\<rparr>"

text \<open>\<^verbatim>\<open>SrvUI.Start\<close>, when there is a web interface; the disk it leaves is the one of all parts.\<close>

definition start_ui ::
  "'y ui_lib \<Rightarrow> ui_server option \<Rightarrow> cfg_state \<Rightarrow> loot \<Rightarrow> go_panic option \<times> ui_world option \<times> cfg_state" where
  "start_ui lib srvUI g l =
     (case srvUI of
        None \<Rightarrow> (None, None, g)
      | Some uis \<Rightarrow>
          (case ui_start lib \<lparr>u_ui = uis, u_hubs = [], u_httpds = [], u_starting = 0, u_cfg = g, u_loot = l\<rparr> of
             (p, w) \<Rightarrow> (p, Some w, u_cfg w)))"

definition main :: "'y env \<Rightarrow> string list \<Rightarrow> fsys \<Rightarrow> exit + program" where
  "main e args d0 =
     (let lib = e_ui e
      in case initConfig (ul_cfg lib) (initial_cfg args d0) of
           (Some p, g) \<Rightarrow> Inl (Panicked p)
         | (None, g) \<Rightarrow>
             (let c = g_conf g;
                  srvMetrics = NewMetricsServer (c_HostName c) (map srv_Host (c_Servers c))
              in case ossh_init (ul_FileExists lib) (e_dirExists e) (e_mount e) (e_embedded e) (e_now e) c
                        srvMetrics (g_disk g) of
                   Inl code \<Rightarrow> Inl (Exited code)
                 | Inr u \<Rightarrow>
                     (let srvUI = NewUIServer c
                      in case SS_Start (e_listen e) (ul_node_keys lib) c (g_nodes g) of
                           (Some p, c1, sn) \<Rightarrow> Inl (Panicked p)
                         | (None, c1, sn) \<Rightarrow>
                             (let g1 = g\<lparr>g_conf := c1, g_nodes := sn, g_disk := o_disk (u_ossh u)\<rparr>
                              in case start_ui lib srvUI g1 (o_loot (u_ossh u)) of
                                   (Some p, w, g2) \<Rightarrow> Inl (Panicked p)
                                 | (None, w, g2) \<Rightarrow>
                                     Inr \<lparr>pg_ossh = (u_ossh u)\<lparr>o_disk := g_disk g2\<rparr>, pg_fs = u_fs u,
                                          pg_manager = u_manager u, pg_addrs = u_addrs u, pg_cfg = g2,
                                          pg_ui = w\<rparr>))))"

section \<open>The program that has started\<close>

text \<open>What the environment promises: directories are recognised, mounting and making a certificate keep the
  tree a tree and directories directories, and so do the file operations of the configuration; maps
  are ranged over in some order.\<close>

definition keeps_tree :: "fsys \<Rightarrow> fsys \<Rightarrow> bool" where
  "keeps_tree d d' \<longleftrightarrow>
     (fs_wf d \<longrightarrow> fs_wf d') \<and> (\<forall>q. fs_get d q = Some DirN \<longrightarrow> fs_get d' q = Some DirN)"

definition env_ok :: "'y env \<Rightarrow> bool" where
  "env_ok e \<longleftrightarrow>
     dir_exists_ok (e_dirExists e) \<and> mount_ok (e_mount e) \<and>
     (\<forall>k c d. keeps_tree d (snd (ul_GenerateCert (e_ui e) k c d))) \<and>
     (\<forall>ps d. keeps_tree d (snd (cl_mkDirs (ul_cfg (e_ui e)) ps d))) \<and>
     (\<forall>dst src d. keeps_tree d (snd (cl_copyEmbedded (ul_cfg (e_ui e)) dst src d))) \<and>
     (\<forall>sn. map_order (n_clients sn) (ul_node_keys (e_ui e) sn)) \<and>
     (\<forall>h. map_order (hb_clients h) (ul_hub_keys (e_ui e) h))"

lemma initConfig_keeps:
  assumes "env_ok e" and "initConfig (ul_cfg (e_ui e)) g = (None, g')"
  shows "keeps_tree (g_disk g) (g_disk g') \<and> g_nodes g' = g_nodes g"
proof -
  let ?lib = "ul_cfg (e_ui e)"
  obtain c1 d1 d2 d3 where "cl_mkDirs ?lib (InitPaths_dirs c1) (g_disk g) = (None, d1)"
    "cl_copyEmbedded ?lib (c_PathCommands c1) ''commands'' d1 = (None, d2)"
    "cl_copyEmbedded ?lib (c_PathWebinterface c1) ''webinterface'' d2 = (None, d3)"
    "g_disk g' = d3" "g_nodes g' = g_nodes g"
    using assms(2) by (auto simp: initConfig_def InitPaths_def copy_templates_def Let_def
        split: sum.splits prod.splits option.splits)
  moreover have "keeps_tree d (snd (cl_mkDirs ?lib ps d))" "keeps_tree d (snd (cl_copyEmbedded ?lib x y d))"
    for ps d x y using assms(1) by (simp_all add: env_ok_def)
  ultimately show ?thesis unfolding keeps_tree_def by (metis snd_conv)
qed

lemma start_ui_ok:
  assumes "env_ok e" and "start_ui (e_ui e) (NewUIServer c) g l = (None, w, g')"
  shows "(\<exists>d. g' = g\<lparr>g_disk := d\<rparr> \<and> keeps_tree (g_disk g) d) \<and> (w \<noteq> None \<longleftrightarrow> c_WebEnabled c) \<and>
    (\<forall>u. w = Some u \<longrightarrow> hubs_ok (e_ui e) u \<and> length (u_httpds u) = 1 \<and> u_cfg u = g' \<and> u_loot u = l)"
proof (cases "NewUIServer c")
  case None
  have "keeps_tree (g_disk g) (g_disk g)" "g = g\<lparr>g_disk := g_disk g\<rparr>" by (simp_all add: keeps_tree_def)
  with None assms(2) show ?thesis
    by (auto simp: start_ui_def NewUIServer_def split: if_splits intro: exI [of _ "g_disk g"])
next
  case (Some uis)
  let ?w = "\<lparr>u_ui = uis, u_hubs = [], u_httpds = [], u_starting = 0, u_cfg = g, u_loot = l\<rparr>"
  from Some assms(2) obtain u where st: "ui_start (e_ui e) ?w = (None, u)" and w: "w = Some u" "g' = u_cfg u"
    by (auto simp: start_ui_def split: prod.splits)
  obtain q d where c: "ensure_cert (e_ui e) (ui_ready ?w) (g_disk g) = (q, d)" by (meson surj_pair)
  then have k: "keeps_tree (g_disk g) d"
    using assms(1) by (auto simp: ensure_cert_def env_ok_def keeps_tree_def split: if_splits prod.splits option.splits)
      (metis snd_conv)+
  have u: "u_cfg u = g\<lparr>g_disk := d\<rparr>" "u_hubs u = [NewHub, NewHub]" "length (u_httpds u) = 1" "u_loot u = l"
    "ui_Stats (u_ui u) = Some 0"
    using st c by (auto simp: ui_start_def ui_init_eq Let_def ui_ready_def split: option.splits prod.splits)
  have "hubs_ok (e_ui e) u"
    using assms(1) u NewHub_inv by (auto simp: hubs_ok_def env_ok_def)
  with k u w Some show ?thesis by (auto simp: NewUIServer_def split: if_splits)
qed

lemma fs_ready_keeps: "fs_ready ofs d \<Longrightarrow> keeps_tree d d' \<Longrightarrow> fs_ready ofs d'"
  by (simp add: fs_ready_def keeps_tree_def)

text \<open>C4. When \<^verbatim>\<open>main\<close> gets through its start, every part is in the state the others rely on: the SSH
  server satisfies its invariant and its file system is mounted (the mount point is a directory) and
  confined, on the disk that all parts share; the sync clients are the configured nodes, whitelisted; there is a web interface
  exactly when it is enabled, with hubs that work and one server; and there is one address to listen
  on per configured server.\<close>

theorem main_ready:
  assumes "env_ok e" and "fs_wf d0" and "main e args d0 = Inr p" and "IsAbs (ffs_path (g_conf (pg_cfg p)))"
  shows "ossh_inv split (g_conf (pg_cfg p)) (pg_ossh p) \<and>
    fs_ready (pg_fs p) (o_disk (pg_ossh p)) \<and> g_disk (pg_cfg p) = o_disk (pg_ossh p) \<and>
    nodes_inv (g_nodes (pg_cfg p)) \<and>
    (let c = g_conf (pg_cfg p)
     in (\<forall>h q. HasClient (host_port h q) (g_nodes (pg_cfg p)) \<longleftrightarrow> (h \<noteq> c_SyncHost c \<or> q \<noteq> c_SyncPort c) \<and>
          (\<exists>nd \<in> set (c_SyncNodes c). node_Host nd = h \<and> node_Port nd = q)) \<and>
        (\<forall>nd \<in> set (c_SyncNodes c). (node_Host nd \<noteq> c_SyncHost c \<or> node_Port nd \<noteq> c_SyncPort c) \<longrightarrow>
          isIPWhitelisted c (node_Host nd)) \<and>
        (pg_ui p \<noteq> None \<longleftrightarrow> c_WebEnabled c) \<and> length (pg_addrs p) = length (c_Servers c)) \<and>
    (\<forall>w. pg_ui p = Some w \<longrightarrow> hubs_ok (e_ui e) w \<and> length (u_httpds w) = 1 \<and> u_cfg w = pg_cfg p)"
proof -
  let ?lib = "e_ui e"
  from assms(3) obtain g where ic: "initConfig (ul_cfg ?lib) (initial_cfg args d0) = (None, g)"
    by (auto simp: main_def Let_def split: prod.splits option.splits)
  let ?c = "g_conf g" let ?m = "NewMetricsServer (c_HostName ?c) (map srv_Host (c_Servers ?c))"
  from assms(3) ic obtain u where oi: "ossh_init (ul_FileExists ?lib) (e_dirExists e) (e_mount e)
      (e_embedded e) (e_now e) ?c ?m (g_disk g) = Inr u"
    by (auto simp: main_def Let_def split: prod.splits option.splits sum.splits)
  from assms(3) ic oi obtain c1 sn where ss: "SS_Start (e_listen e) (ul_node_keys ?lib) ?c (g_nodes g) = (None, c1, sn)"
    by (auto simp: main_def Let_def split: prod.splits option.splits)
  let ?g1 = "g\<lparr>g_conf := c1, g_nodes := sn, g_disk := o_disk (u_ossh u)\<rparr>"
  from assms(3) ic oi ss obtain w g2 where su: "start_ui ?lib (NewUIServer ?c) ?g1 (o_loot (u_ossh u)) = (None, w, g2)"
    and p: "p = \<lparr>pg_ossh = (u_ossh u)\<lparr>o_disk := g_disk g2\<rparr>, pg_fs = u_fs u, pg_manager = u_manager u,
      pg_addrs = u_addrs u, pg_cfg = g2, pg_ui = w\<rparr>"
    by (auto simp: main_def Let_def split: prod.splits option.splits)
  from ss have uc: "UpdateClients (ul_node_keys ?lib (g_nodes g)) ?c (g_nodes g) = (None, c1, sn)"
    by (auto simp: SS_Start_def split: prod.splits option.splits)
  note k = initConfig_keeps [OF assms(1) ic]
  have nodes: "g_nodes g = NewSyncNodes" using k by (simp add: initial_cfg_def)
  have wf: "fs_wf (g_disk g)" using k assms(2) by (simp add: keeps_tree_def initial_cfg_def)
  have ord: "map_order (n_clients NewSyncNodes) (ul_node_keys ?lib NewSyncNodes)"
    using assms(1) by (simp add: env_ok_def)
  have none: "\<not> (\<exists>k sc. gm_get k (n_clients NewSyncNodes) = Some sc \<and> \<not> sc_connected sc)"
    by (simp add: NewSyncNodes_def gm_get_def)
  obtain wl where c1: "c1 = ?c\<lparr>c_IPWhitelist := wl\<rparr>" and inv: "nodes_inv sn"
    and has: "\<forall>h q. HasClient (host_port h q) sn \<longleftrightarrow> (h \<noteq> c_SyncHost ?c \<or> q \<noteq> c_SyncPort ?c) \<and>
        (\<exists>nd \<in> set (c_SyncNodes ?c). node_Host nd = h \<and> node_Port nd = q)"
    and white: "\<forall>nd \<in> set (c_SyncNodes ?c). (node_Host nd \<noteq> c_SyncHost ?c \<or> node_Port nd \<noteq> c_SyncPort ?c) \<longrightarrow>
        isIPWhitelisted c1 (node_Host nd)"
    using UpdateClients_spec [OF NewSyncNodes_inv ord, of ?c] uc unfolding nodes if_not_P [OF none] by auto
  obtain d where g2: "g2 = ?g1\<lparr>g_disk := d\<rparr>" "keeps_tree (o_disk (u_ossh u)) d"
    and w: "w \<noteq> None \<longleftrightarrow> c_WebEnabled ?c"
      "\<forall>x. w = Some x \<longrightarrow> hubs_ok ?lib x \<and> length (u_httpds x) = 1 \<and> u_cfg x = g2"
    using start_ui_ok [OF assms(1) su] by auto
  have "ffs_path c1 = ffs_path ?c" by (simp add: c1 ffs_path_def)
  then have abs: "IsAbs (ffs_path ?c)" using assms(4) by (simp add: p g2(1))
  have env: "dir_exists_ok (e_dirExists e)" "mount_ok (e_mount e)" using assms(1) by (simp_all add: env_ok_def)
  note os = ossh_init_setup [OF env wf abs oi]
  then obtain d' where "u_ossh u = (NewOSSHServer (ul_FileExists ?lib) ?c ?m (g_disk g))\<lparr>o_disk := d'\<rparr>" by blast
  then have "ossh_inv split c1 (u_ossh u)" using NewOSSHServer_inv by simp
  moreover have "fs_ready (u_fs u) d" using os g2(2) fs_ready_keeps by blast
  ultimately show ?thesis using os c1 inv has white w g2(1) by (simp add: p Let_def)
qed

definition sample_env :: "conf env" where
  "sample_env =
     \<lparr>e_ui = sample_ui_lib, e_dirExists = sample_dir_exists, e_mount = (\<lambda>_ _ d. Inr d),
      e_embedded = sample_embedded, e_listen = (\<lambda>_. None), e_now = 5000000000\<rparr>"

lemma keeps_tree_refl [simp]: "keeps_tree d d"
  by (simp add: keeps_tree_def)

lemma sample_env_ok: "env_ok sample_env"
  by (simp add: env_ok_def sample_env_def sample_dir_exists_ok mount_ok_def sample_ui_lib_def
      sample_config_lib_def map_order_keys)

definition sample_root :: fsys where
  "sample_root = [([''config.yaml''], FileN ''ok''), ([''etc''], DirN), ([''etc'', ''ossh''], DirN)]"

theorem main_ready_witness:
  "\<exists>p. main sample_env [''ossh'', ''/config.yaml''] sample_root = Inr p \<and> pg_ui p \<noteq> None \<and>
    fs_ready (pg_fs p) (o_disk (pg_ossh p))"
proof -
  let ?m = "main sample_env [''ossh'', ''/config.yaml''] sample_root"
  have "case ?m of Inl e \<Rightarrow> False | Inr p \<Rightarrow>
      IsAbs (ffs_path (g_conf (pg_cfg p))) \<and> c_WebEnabled (g_conf (pg_cfg p))"
    unfolding sample_env_def sample_root_def sample_ui_lib_def sample_config_lib_def sample_conf_def
    by code_simp
  then obtain p where p: "?m = Inr p" "IsAbs (ffs_path (g_conf (pg_cfg p)))" "c_WebEnabled (g_conf (pg_cfg p))"
    by (auto split: sum.splits)
  have "fs_wf sample_root"
    by (auto simp: fs_wf_def sample_root_def fs_get_def gm_inv_def gm_has_def gm_get_def split: if_splits)
  from main_ready [OF sample_env_ok this p(1,2), of sample_split] p show ?thesis by (simp add: Let_def)
qed

end
