(* ===== verification/Spec2Isabelle.thy ===== *)
theory Spec2Isabelle
  imports Program
begin

text \<open>
  A verification development for oSSH, an SSH honeypot written in Go: it lets attackers log in to a fake
  shell on a fake file system, records what they do, shares what it learned (hosts, user names,
  passwords, payloads: the loot) with other nodes, and shows it on a web interface.

  \<^bold>\<open>Parts and theories.\<close> All sources are under \<^verbatim>\<open>src/\<close>.

  \<^item> \<^verbatim>\<open>Go_Prelude\<close>, \<^verbatim>\<open>Go_Path\<close>, \<^verbatim>\<open>Go_OS\<close>, \<^verbatim>\<open>Go_Base64\<close>: what the program uses of Go and its standard
    library. Strings are lists of bytes; a map is an association list, and every \<^verbatim>\<open>range\<close> over one takes
    its order as an argument; paths are lists of components; the disk is a map from paths to
    directories and files, with the errors of the system calls. Panics are the values of \<^verbatim>\<open>go_panic\<close>.
    The locales \<^verbatim>\<open>go_map\<close> and \<^verbatim>\<open>register\<close> are the interfaces of a map and of an add-if-absent
    collection; the latter is interpreted by each part of the loot and by the sync clients.
  \<^item> \<^verbatim>\<open>Config\<close>, \<^verbatim>\<open>Config_Update\<close> (\<^verbatim>\<open>config.go\<close>): the configuration record, the whitelist, default paths,
    loading the file and replacing it while the program runs.
  \<^item> \<^verbatim>\<open>Metrics\<close> (\<^verbatim>\<open>metrics_server.go\<close>), \<^verbatim>\<open>Logins\<close>, \<^verbatim>\<open>Payloads\<close>, \<^verbatim>\<open>Loot\<close>, \<^verbatim>\<open>Sessions\<close> (\<^verbatim>\<open>ossh_*.go\<close>): the
    counters with the calls to Prometheus, login counters as 64-bit words, captures, the loot, and the
    session objects in a heap with the map of sessions and its mutex.
  \<^item> \<^verbatim>\<open>OSSH_Server\<close>, \<^verbatim>\<open>OSSH_Start\<close>, \<^verbatim>\<open>Session_Handler\<close>, \<^verbatim>\<open>Workers\<close> (\<^verbatim>\<open>ossh_server.go\<close>): authentication and
    the connection callbacks, the data files, the start with the overlay file system, a session from
    its creation to its removal, and the statistics workers.
  \<^item> \<^verbatim>\<open>Fake_FS\<close> (\<^verbatim>\<open>fake_file_system.go\<close>), \<^verbatim>\<open>Templater\<close>, \<^verbatim>\<open>Template_Functions\<close> (\<^verbatim>\<open>templater_*.go\<close>),
    \<^verbatim>\<open>Recording\<close> (\<^verbatim>\<open>utils/asciicastv2.go\<close>, \<^verbatim>\<open>utils/slow_writer.go\<close>), \<^verbatim>\<open>Shell_Commands\<close>, \<^verbatim>\<open>Fake_Shell\<close>
    (\<^verbatim>\<open>fake_shell*.go\<close>): the file system the attacker sees, the templates that answer commands, the
    session recordings, the built-in commands and the shell's loop. The locales \<^verbatim>\<open>confined\<close> and
    \<^verbatim>\<open>shell_command\<close> say what a file operation and a command may do to the disk and the shell.
  \<^item> \<^verbatim>\<open>Gutils\<close>, \<^verbatim>\<open>Sync_Client\<close>, \<^verbatim>\<open>Sync_Nodes\<close>, \<^verbatim>\<open>Sync_Commands\<close>, \<^verbatim>\<open>Sync_Server\<close>, \<^verbatim>\<open>Sync_Cluster\<close>
    (\<^verbatim>\<open>sync_*.go\<close>): both sides of the protocol between nodes, the registry of peers, the connection
    handling with the limit of the line scanner, and a pass of the synchronisation worker against a modelled peer.
  \<^item> \<^verbatim>\<open>UI_Hub\<close>, \<^verbatim>\<open>UI_Server\<close> (\<^verbatim>\<open>ui_server.go\<close>): the hubs that pass statistics and log lines to websocket
    clients, as steps of goroutines in any order, and the HTTP side: admission, the multiplexer, the
    websockets for the configuration and the payloads, start, shutdown and reload.
  \<^item> \<^verbatim>\<open>Program\<close> (\<^verbatim>\<open>main.go\<close>): the start of all parts in order.

  \<^bold>\<open>How the model corresponds to the code.\<close> A struct is a record, an operation one definition with the
  state it changes passed in and returned. Pointers are addresses into a list where aliasing matters
  (sessions, clients of a hub, HTTP servers). An error is a value of a sum or option type, a panic is
  \<^term>\<open>Inl\<close> of a \<^verbatim>\<open>go_panic\<close>; a call that blocks for ever on a mutex is \<^term>\<open>None\<close>. Functions outside the
  repository (gutils, viper, template engines, JSON, Prometheus, the SSH library, mounting) are
  arguments, grouped in records; a predicate whose name ends in \<^verbatim>\<open>_ok\<close> states what their documentation
  promises where a property needs it, and a concrete instance shows that it can hold.

  \<^bold>\<open>What is proved.\<close> The start brings every part into the state the others rely on
  (\<^verbatim>\<open>Program\<close>). The server invariant (the session map, its gauge, its mutex, loot and
  metrics agree) holds from then on under every callback, and the password handler decides
  as documented. A session, whatever the attacker types, keeps
  the host's files outside the fake file system as they are (up to the siblings the path check lets
  through and uploads by scp, for which the escape is proved), ends, and leaves its commands as a
  payload. What a sync pass pushes, provided its lines fit the peer's scanner, is exactly the missing
  loot; a statistics pass reaches every peer that can be dialled and admits the node.
  The data files, payloads and recordings can be read back. The hubs never panic, and deliver
  in order to every registered client; requests to the web interface from addresses that are not
  whitelisted change nothing; a new configuration is applied, or refused with the consequences
  stated. The dictionaries and the trimming of templates are as documented. Bounds and wrap-around
  are proved where integers can overflow; the counters beside the Prometheus metrics are 64-bit
  words, and agree with the metrics up to their wrap-around.

  \<^bold>\<open>Loops and fuel.\<close> Worker loops that never end are modelled by one pass. The recursion of
  \<^verbatim>\<open>Sessions.Remove\<close> is a partial function whose termination is proved; all other loops are
  structural or have a measure, so no fuel is needed anywhere.

  \<^bold>\<open>Not modelled.\<close> Log output and its formatting, terminal colours, sleeping and rate limits; the SSH,
  TLS and HTTP wire protocols; what the kernel's overlay file system keeps in its upper and work
  directories (writes act on the merged directory); a disk that runs full; the rounding of
  floating-point numbers (a \<^verbatim>\<open>float64\<close> is a rational, or an argument in the template functions); data
  races between goroutines, except for the hubs: every other operation runs to its end before the
  next. A change of the whitelist does not reach sessions
  that are already open, so the server invariant speaks of the configuration they were created under.
\<close>

end
